(* ===== verification/Sdns_Prelude.thy ===== *)
theory Sdns_Prelude
  imports Main "HOL-Library.Word" "HOL-Library.AList" "HOL-Library.Multiset" "HOL-Library.Sublist"
begin

text \<open>
  The prelude of the sdns development: the machine integers, byte strings, maps, clock and
  panic outcomes of Go that the components share, with the lemmas their proofs rest on.

  A Go \<^verbatim>\<open>string\<close> is a byte string, so it is a \<^typ>\<open>string\<close> (a list of 8-bit characters). A Go
  map is an association list with distinct keys: its order is not observable except through
  \<^verbatim>\<open>range\<close>, which the definitions that iterate take as an explicit choice. A time is a count
  of nanoseconds. A function that may panic returns a value of type \<open>'a go\<close>.
\<close>

unbundle bit_operations_syntax

section \<open>Machine integers, clocks and panics\<close>

type_synonym u8 = "8 word"
type_synonym u16 = "16 word"
type_synonym u32 = "32 word"
type_synonym u64 = "64 word"

text \<open>A point in time and a duration, in nanoseconds (Go's \<^verbatim>\<open>time.Time\<close>, \<^verbatim>\<open>time.Duration\<close>).\<close>

type_synonym time = int

named_theorems go_simps \<open>unfolding rules for the Go library functions of the model\<close>
named_theorems inv_intros \<open>preservation of the invariants by the operations\<close>

datatype 'a go = Ret 'a | Panic string

primrec go_bind :: "'a go \<Rightarrow> ('a \<Rightarrow> 'b go) \<Rightarrow> 'b go" where
  "go_bind (Ret a) f = f a"
| "go_bind (Panic m) f = Panic m"

definition second :: time where
  "second = 1000000000"

text \<open>\<^verbatim>\<open>t.Truncate(time.Second)\<close>, and \<^verbatim>\<open>uint32(now.Sub(t).Seconds())\<close>: the conversion of a
  negative number of seconds wraps around, as it does on the 64-bit targets of the program.\<close>

definition trunc_sec :: "time \<Rightarrow> time" where
  "trunc_sec t = t - t mod second"

definition elapsed_sec :: "time \<Rightarrow> time \<Rightarrow> u32" where
  "elapsed_sec now t = word_of_int ((now - t) div second)"

text \<open>Integer division of Go, which truncates towards zero.\<close>

definition go_quot :: "int \<Rightarrow> int \<Rightarrow> int" where
  "go_quot a b = sgn a * sgn b * (\<bar>a\<bar> div \<bar>b\<bar>)"

lemma go_quot_0: "\<bar>a\<bar> < \<bar>b\<bar> \<Longrightarrow> go_quot a b = 0"
  by (simp add: go_quot_def)

lemma second_pos [simp]: "0 < second"
  by (simp add: second_def)

lemma trunc_sec_le: "trunc_sec t \<le> t"
  by (simp add: trunc_sec_def)

lemma trunc_sec_less: "t < trunc_sec t + second"
  using pos_mod_bound [OF second_pos, of t] by (simp add: trunc_sec_def)

lemma trunc_sec_dvd [simp]: "trunc_sec t mod second = 0"
  by (simp add: trunc_sec_def)

lemma trunc_sec_div: "trunc_sec t div second = t div second"
  by (simp add: trunc_sec_def minus_mod_eq_mult_div)

lemma trunc_sec_mono: "s \<le> t \<Longrightarrow> trunc_sec s \<le> trunc_sec t"
proof -
  assume "s \<le> t"
  then have "s div second \<le> t div second"
    by (simp add: zdiv_mono1)
  then show ?thesis
    by (simp add: trunc_sec_def minus_mod_eq_mult_div)
qed

text \<open>Between two truncated times the elapsed seconds are exact, below the range of \<^verbatim>\<open>uint32\<close>.\<close>

lemma elapsed_sec_exact:
  assumes "s \<le> t" and "trunc_sec t - trunc_sec s < second * 2 ^ 32"
  shows "uint (elapsed_sec (trunc_sec t) (trunc_sec s)) = t div second - s div second"
proof -
  have "trunc_sec t - trunc_sec s = second * (t div second - s div second)"
    by (simp add: trunc_sec_def minus_mod_eq_mult_div algebra_simps)
  then have d: "(trunc_sec t - trunc_sec s) div second = t div second - s div second"
    by simp
  have "0 \<le> t div second - s div second"
    using assms(1) by (simp add: zdiv_mono1)
  moreover have "t div second - s div second < 2 ^ 32"
    using assms(2) \<open>trunc_sec t - trunc_sec s = _\<close> by simp
  ultimately show ?thesis
    by (simp add: elapsed_sec_def d uint_word_of_int take_bit_int_eq_self del: of_int_diff)
qed

lemma elapsed_sec_self [simp]: "elapsed_sec t t = 0"
  by (simp add: elapsed_sec_def)

section \<open>Byte strings\<close>

definition lower_byte :: "char \<Rightarrow> char" where
  "lower_byte c = (let n = (of_char c :: nat) in if 65 \<le> n \<and> n \<le> 90 then char_of (n + 32) else c)"

definition upper_byte :: "char \<Rightarrow> char" where
  "upper_byte c = (let n = (of_char c :: nat) in if 97 \<le> n \<and> n \<le> 122 then char_of (n - 32) else c)"

text \<open>The byte of a character.\<close>

definition byte_of :: "char \<Rightarrow> u8" where
  "byte_of c = word_of_nat (of_char c)"

text \<open>\<^verbatim>\<open>strings.ToLower\<close> and \<^verbatim>\<open>strings.ToUpper\<close> on ASCII strings; bytes above 127 are kept. The
  names the DNS library unpacks are ASCII, since it escapes every other byte as \<^verbatim>\<open>\\DDD\<close>.\<close>

definition to_lower :: "string \<Rightarrow> string" where
  "to_lower s = map lower_byte s"

definition to_upper :: "string \<Rightarrow> string" where
  "to_upper s = map upper_byte s"

text \<open>A slice expression \<^verbatim>\<open>s[i:j]\<close> whose bounds are in range.\<close>

definition slice :: "'a list \<Rightarrow> nat \<Rightarrow> nat \<Rightarrow> 'a list" where
  "slice s i j = take (j - i) (drop i s)"

definition has_prefix :: "string \<Rightarrow> string \<Rightarrow> bool" where
  "has_prefix s p \<longleftrightarrow> take (length p) s = p"

definition has_suffix :: "string \<Rightarrow> string \<Rightarrow> bool" where
  "has_suffix s p \<longleftrightarrow> length p \<le> length s \<and> drop (length s - length p) s = p"

fun strings_join :: "string list \<Rightarrow> string \<Rightarrow> string" where
  "strings_join [] sep = []"
| "strings_join [x] sep = x"
| "strings_join (x # y # zs) sep = x @ sep @ strings_join (y # zs) sep"

fun strings_contains :: "string \<Rightarrow> string \<Rightarrow> bool" where
  "strings_contains [] p = (p = [])"
| "strings_contains (c # cs) p = (has_prefix (c # cs) p \<or> strings_contains cs p)"

text \<open>\<^verbatim>\<open>strconv.Itoa\<close> of a number that is not negative.\<close>

fun itoa :: "nat \<Rightarrow> string" where
  "itoa n = (if n < 10 then [char_of (48 + n)] else itoa (n div 10) @ [char_of (48 + n mod 10)])"

declare itoa.simps [simp del]

text \<open>Go compares strings byte by byte.\<close>

fun string_le :: "string \<Rightarrow> string \<Rightarrow> bool" where
  "string_le [] t = True"
| "string_le (x # xs) [] = False"
| "string_le (x # xs) (y # ys) = ((of_char x :: nat) < of_char y \<or> x = y \<and> string_le xs ys)"

lemma string_le_antisym: "string_le s t \<Longrightarrow> string_le t s \<Longrightarrow> s = t"
  by (induction s t rule: string_le.induct) (auto elim: string_le.elims)

lemma string_le_linear: "string_le s t \<or> string_le t s"
  by (induction s t rule: string_le.induct) (auto simp: linorder_neq_iff)

lemma string_le_refl [simp]: "string_le s s"
  by (induction s) auto

lemma string_le_trans: "string_le s t \<Longrightarrow> string_le t u \<Longrightarrow> string_le s u"
proof (induction s t arbitrary: u rule: string_le.induct)
  case (3 x xs y ys)
  then show ?case by (cases u) auto
qed auto

lemma unat_byte_of: "unat (byte_of c) = of_char c"
  by (simp add: byte_of_def unat_of_nat)

lemma byte_of_inj: "byte_of c = byte_of c' \<longleftrightarrow> c = c'"
  by (metis unat_byte_of char_of_char of_char_eq_iff)

lemma lower_byte_idem [simp]: "lower_byte (lower_byte c) = lower_byte c"
  by (auto simp: lower_byte_def Let_def)

lemma to_lower_idem [simp]: "to_lower (to_lower s) = to_lower s"
  by (simp add: to_lower_def)

lemma length_to_lower [simp]: "length (to_lower s) = length s"
  by (simp add: to_lower_def)

lemma to_lower_append [simp]: "to_lower (s @ t) = to_lower s @ to_lower t"
  by (simp add: to_lower_def)

lemma to_lower_Nil [simp]: "to_lower [] = []" "to_lower s = [] \<longleftrightarrow> s = []"
  by (simp_all add: to_lower_def)

lemma lower_byte_eq_dot [simp]: "lower_byte c = CHR ''.'' \<longleftrightarrow> c = CHR ''.''"
proof
  assume *: "lower_byte c = CHR ''.''"
  show "c = CHR ''.''"
  proof (cases "65 \<le> (of_char c :: nat) \<and> of_char c \<le> (90::nat)")
    case True
    with * have "char_of ((of_char c :: nat) + 32) = CHR ''.''"
      by (simp add: lower_byte_def)
    then have "(of_char (char_of ((of_char c :: nat) + 32)) :: nat) = of_char CHR ''.''"
      by simp
    with True show ?thesis by simp
  next
    case False
    with * show ?thesis by (auto simp: lower_byte_def Let_def)
  qed
qed (simp add: lower_byte_def)

lemma has_suffix_iff: "has_suffix s p \<longleftrightarrow> suffix p s"
  by (auto simp: has_suffix_def suffix_def) (metis append_take_drop_id)

lemma has_prefix_iff: "has_prefix s p \<longleftrightarrow> prefix p s"
  by (auto simp: has_prefix_def prefix_def) (metis append_take_drop_id)

lemma slice_full: "length s \<le> j \<Longrightarrow> slice s 0 j = s"
  by (simp add: slice_def)

lemma length_slice: "length (slice s i j) = min (j - i) (length s - i)"
  by (auto simp: slice_def)

lemma slice_drop: "i \<le> j \<Longrightarrow> slice s i j @ drop j s = drop i s"
  by (metis append_take_drop_id drop_drop le_add_diff_inverse2 slice_def)

lemma slice_append: "i \<le> j \<Longrightarrow> j \<le> k \<Longrightarrow> slice s i j @ slice s j k = slice s i k"
proof -
  assume "i \<le> j" "j \<le> k"
  then have "take (k - i) (drop i s) = take (j - i) (drop i s) @ take (k - j) (drop (j - i) (drop i s))"
    by (metis add_diff_inverse_nat diff_diff_left le_add_diff_inverse2 linorder_not_less
        Nat.add_diff_assoc2 take_add add.commute)
  with \<open>i \<le> j\<close> show ?thesis by (simp add: slice_def add.commute)
qed

section \<open>Go maps as association lists\<close>

type_synonym ('k, 'v) gmap = "('k \<times> 'v) list"

abbreviation gmap_get :: "('k, 'v) gmap \<Rightarrow> 'k \<Rightarrow> 'v option" where
  "gmap_get \<equiv> map_of"

abbreviation gmap_set :: "'k \<Rightarrow> 'v \<Rightarrow> ('k, 'v) gmap \<Rightarrow> ('k, 'v) gmap" where
  "gmap_set \<equiv> AList.update"

abbreviation gmap_del :: "'k \<Rightarrow> ('k, 'v) gmap \<Rightarrow> ('k, 'v) gmap" where
  "gmap_del \<equiv> AList.delete"

abbreviation gmap_keys :: "('k, 'v) gmap \<Rightarrow> 'k list" where
  "gmap_keys m \<equiv> map fst m"

abbreviation gmap_ok :: "('k, 'v) gmap \<Rightarrow> bool" where
  "gmap_ok m \<equiv> distinct (map fst m)"

lemma gmap_get_set [simp]: "gmap_get (gmap_set k v m) k' = (if k' = k then Some v else gmap_get m k')"
  by (simp add: update_conv)

lemma gmap_get_del [simp]: "gmap_get (gmap_del k m) k' = (if k' = k then None else gmap_get m k')"
  by (simp add: delete_conv)

lemma gmap_ok_set [simp, intro]: "gmap_ok m \<Longrightarrow> gmap_ok (gmap_set k v m)"
  by (simp add: distinct_update)

lemma gmap_ok_del [simp, intro]: "gmap_ok m \<Longrightarrow> gmap_ok (gmap_del k m)"
  by (simp add: distinct_delete)

lemma length_gmap_set_new: "gmap_get m k = None \<Longrightarrow> length (gmap_set k v m) = Suc (length m)"
  by (induction m) (auto split: if_splits)

lemma length_gmap_set_old: "gmap_get m k = Some w \<Longrightarrow> length (gmap_set k v m) = length m"
  by (induction m) (auto split: if_splits)

lemma length_gmap_set_le: "length (gmap_set k v m) \<le> Suc (length m)"
  by (cases "gmap_get m k") (simp_all add: length_gmap_set_new length_gmap_set_old)

lemma gmap_del_absent: "gmap_get m k = None \<Longrightarrow> gmap_del k m = m"
  by (induction m) (auto simp: AList.delete_eq split: if_splits)

lemma length_gmap_del: "gmap_ok m \<Longrightarrow> gmap_get m k = Some v \<Longrightarrow> Suc (length (gmap_del k m)) = length m"
proof (induction m)
  case (Cons p m)
  show ?case
  proof (cases "fst p = k")
    case True
    with Cons.prems have "gmap_get m k = None"
      by (auto simp: map_of_eq_None_iff)
    with True show ?thesis
      by (cases p) (simp add: gmap_del_absent)
  next
    case False
    with Cons show ?thesis by (cases p) auto
  qed
qed simp

lemma length_gmap_del_le: "length (gmap_del k m) \<le> length m"
  by (rule length_delete_le)

lemma gmap_keys_set: "set (gmap_keys (gmap_set k v m)) = insert k (set (gmap_keys m))"
  by (induction m) auto

lemma gmap_get_some_key: "gmap_get m k = Some v \<Longrightarrow> k \<in> set (gmap_keys m)"
  by (metis map_of_eq_None_iff option.distinct(1) set_map)

section \<open>Iteration orders\<close>

text \<open>
  Go leaves the order of a map iteration, and of \<^verbatim>\<open>rand.Perm\<close>, to chance. A number drives
  the choice: its digits in the bases \<open>n, n - 1, \<dots>, 1\<close> pick an element of what is left. Every
  number gives a permutation and every permutation comes from a number, so a theorem for
  all numbers is a theorem for all orders.
\<close>

fun perm_by :: "nat \<Rightarrow> 'a list \<Rightarrow> 'a list" where
  "perm_by r [] = []"
| "perm_by r (x # xs) =
     (let n = length (x # xs); i = r mod n
      in ((x # xs) ! i) # perm_by (r div n) (take i (x # xs) @ drop (Suc i) (x # xs)))"

declare perm_by.simps(2) [simp del]

lemma mset_remove_nth:
  assumes "i < length xs"
  shows "add_mset (xs ! i) (mset (take i xs @ drop (Suc i) xs)) = mset xs"
proof -
  have "mset xs = mset (take i xs @ xs ! i # drop (Suc i) xs)"
    using id_take_nth_drop [OF assms] by simp
  then show ?thesis by simp
qed

lemma mset_perm_by [simp]: "mset (perm_by r xs) = mset xs"
proof (induction r xs rule: perm_by.induct)
  case (2 r x xs)
  let ?i = "r mod length (x # xs)"
  have "mset (perm_by r (x # xs)) = add_mset ((x # xs) ! ?i) (mset (take ?i (x # xs) @ drop (Suc ?i) (x # xs)))"
    unfolding perm_by.simps(2) Let_def using 2 [OF refl refl] by simp
  also have "\<dots> = mset (x # xs)"
    by (rule mset_remove_nth) simp
  finally show ?case .
qed simp

lemma set_perm_by [simp]: "set (perm_by r xs) = set xs"
  by (metis mset_perm_by set_mset_mset)

lemma length_perm_by [simp]: "length (perm_by r xs) = length xs"
  by (metis mset_perm_by size_mset)

lemma perm_by_surj: "mset ys = mset xs \<Longrightarrow> \<exists>r. perm_by r xs = ys"
proof (induction ys arbitrary: xs)
  case (Cons y ys)
  then have "y \<in> set xs"
    by (metis list.set_intros(1) set_mset_mset)
  then obtain i where i: "i < length xs" "xs ! i = y"
    by (auto simp: in_set_conv_nth)
  let ?rest = "take i xs @ drop (Suc i) xs"
  have "add_mset y (mset ys) = add_mset y (mset ?rest)"
    using Cons.prems mset_remove_nth [OF i(1)] i(2) by simp
  then have "mset ys = mset ?rest" by simp
  with Cons.IH obtain r where r: "perm_by r ?rest = ys" by blast
  let ?n = "length xs"
  have "?n \<noteq> 0" using i(1) by auto
  then have "(i + ?n * r) mod ?n = i" "(i + ?n * r) div ?n = r"
    using i(1) by (simp_all add: div_mult_self2)
  moreover obtain z zs where "xs = z # zs" using i(1) by (cases xs) auto
  ultimately have "perm_by (i + ?n * r) xs = y # ys"
    using i(2) r by (simp add: perm_by.simps(2) Let_def)
  then show ?case by blast
qed simp

end
