(* ===== verification/Dns_Labels.thy ===== *)
theory Dns_Labels
  imports Sdns_Prelude
begin

text \<open>
  Domain names and their labels: the label walk of the vendored DNS library
  (\<^verbatim>\<open>vendor/github.com/miekg/dns/labels.go\<close>, \<^verbatim>\<open>defaults.go\<close>) that the resolver, the NSEC3
  checks and the block list call, and \<^verbatim>\<open>upperName\<close> of \<^verbatim>\<open>utils.go\<close>.

  The library works with byte offsets into the name. The lemmas connect that with the list of
  labels \<open>split_labels\<close>, a structural definition: splitting and joining are inverse,
  \<open>CompareDomainName\<close> counts the labels of the longest common suffix, and \<open>IsSubDomain\<close> is
  the suffix order on the case-folded labels.
\<close>

section \<open>The library's functions\<close>

abbreviation (input) dot :: char where "dot \<equiv> CHR ''.''"
abbreviation (input) backslash :: char where "backslash \<equiv> CHR 0x5C"

text \<open>The loop of \<^verbatim>\<open>NextLabel\<close>: the last byte of the name is never inspected.\<close>

function NextLabel_loop :: "string \<Rightarrow> nat \<Rightarrow> bool \<Rightarrow> nat \<times> bool" where
  "NextLabel_loop s i quote =
     (if i + 1 < length s then
        (if s ! i = backslash then NextLabel_loop s (i + 1) (\<not> quote)
         else if s ! i = dot then
           (if quote then NextLabel_loop s (i + 1) False else (i + 1, False))
         else NextLabel_loop s (i + 1) False)
      else (i + 1, True))"
  by pat_completeness auto
termination
  by (relation "measure (\<lambda>(s, i, q). length s - i)") auto

declare NextLabel_loop.simps [simp del]

definition NextLabel :: "string \<Rightarrow> nat \<Rightarrow> nat \<times> bool" where
  "NextLabel s offset = NextLabel_loop s offset False"

lemma NextLabel_loop_less:
  "NextLabel_loop s i q = (j, False) \<Longrightarrow> i < j \<and> j < length s"
proof (induction s i q rule: NextLabel_loop.induct)
  case (1 s i quote)
  then show ?case
    by (subst (asm) (4) NextLabel_loop.simps) (fastforce split: if_splits)
qed

function Split_loop :: "string \<Rightarrow> nat \<Rightarrow> nat list" where
  "Split_loop s off =
     (case NextLabel s off of (off', end) \<Rightarrow> if end then [] else off' # Split_loop s off')"
  by pat_completeness auto
termination
  by (relation "measure (\<lambda>(s, off). length s - off)")
    (auto simp: NextLabel_def dest!: sym [of _ "NextLabel_loop _ _ _"] NextLabel_loop_less)

declare Split_loop.simps [simp del]

definition Split :: "string \<Rightarrow> nat list" where
  "Split s = (if s = ''.'' then [] else 0 # Split_loop s 0)"

fun SplitDomainName_loop :: "string \<Rightarrow> nat \<Rightarrow> nat list \<Rightarrow> nat \<Rightarrow> string list" where
  "SplitDomainName_loop s begin [] fqdnEnd = [slice s begin fqdnEnd]"
| "SplitDomainName_loop s begin (end # idx) fqdnEnd =
     slice s begin (end - 1) # SplitDomainName_loop s end idx fqdnEnd"

definition SplitDomainName :: "string \<Rightarrow> string list" where
  "SplitDomainName s =
     (if s = [] then []
      else let fqdnEnd = (if last s = dot then length s - 1 else length s);
               idx = Split s
           in case idx of [] \<Rightarrow> [] | _ # rest \<Rightarrow> SplitDomainName_loop s 0 rest fqdnEnd)"

text \<open>\<^verbatim>\<open>equal\<close>: byte-wise comparison that ignores ASCII case.\<close>

definition equal_names :: "string \<Rightarrow> string \<Rightarrow> bool" where
  "equal_names a b \<longleftrightarrow>
     length a = length b \<and> list_all2 (\<lambda>x y. lower_byte x = lower_byte y) a b"

text \<open>The loop of \<^verbatim>\<open>CompareDomainName\<close>, with \<^verbatim>\<open>i1 = j1 - 1\<close> and \<^verbatim>\<open>i2 = j2 - 1\<close> throughout.\<close>

fun CompareDomainName_loop ::
  "string \<Rightarrow> nat list \<Rightarrow> nat \<Rightarrow> string \<Rightarrow> nat list \<Rightarrow> nat \<Rightarrow> nat \<Rightarrow> nat" where
  "CompareDomainName_loop s1 l1 (Suc i1) s2 l2 (Suc i2) n =
     (if equal_names (slice s1 (l1 ! i1) (l1 ! Suc i1)) (slice s2 (l2 ! i2) (l2 ! Suc i2))
      then CompareDomainName_loop s1 l1 i1 s2 l2 i2 (n + 1) else n)"
| "CompareDomainName_loop s1 l1 j1 s2 l2 j2 n = n"

definition CompareDomainName :: "string \<Rightarrow> string \<Rightarrow> nat" where
  "CompareDomainName s1 s2 =
     (if s1 = ''.'' \<or> s2 = ''.'' then 0
      else let l1 = Split s1; l2 = Split s2; j1 = length l1 - 1; j2 = length l2 - 1
           in if equal_names (drop (l1 ! j1) s1) (drop (l2 ! j2) s2)
              then CompareDomainName_loop s1 l1 j1 s2 l2 j2 1 else 0)"

function CountLabel_loop :: "string \<Rightarrow> nat \<Rightarrow> nat" where
  "CountLabel_loop s off =
     (case NextLabel s off of (off', end) \<Rightarrow> if end then 1 else Suc (CountLabel_loop s off'))"
  by pat_completeness auto
termination
  by (relation "measure (\<lambda>(s, off). length s - off)")
    (auto simp: NextLabel_def dest!: sym [of _ "NextLabel_loop _ _ _"] NextLabel_loop_less)

declare CountLabel_loop.simps [simp del]

definition CountLabel :: "string \<Rightarrow> nat" where
  "CountLabel s = (if s = ''.'' then 0 else CountLabel_loop s 0)"

definition IsSubDomain :: "string \<Rightarrow> string \<Rightarrow> bool" where
  "IsSubDomain parent child \<longleftrightarrow> CompareDomainName parent child = CountLabel parent"

definition IsFqdn :: "string \<Rightarrow> bool" where
  "IsFqdn s \<longleftrightarrow> s \<noteq> [] \<and> last s = dot"

definition Fqdn :: "string \<Rightarrow> string" where
  "Fqdn s = (if IsFqdn s then s else s @ ''.'')"

text \<open>\<^verbatim>\<open>upperName\<close> of \<^verbatim>\<open>utils.go\<close>: what follows the first dot, or the name itself.\<close>

definition upperName :: "string \<Rightarrow> string" where
  "upperName s = (if dot \<in> set s then tl (dropWhile (\<lambda>c. c \<noteq> dot) s) else s)"

section \<open>Labels as a list\<close>

text \<open>The labels of a name without its final dot: a split at the dots that are not escaped.\<close>

fun split_labels :: "bool \<Rightarrow> string \<Rightarrow> string list" where
  "split_labels q [] = [[]]"
| "split_labels q (c # cs) =
     (if c = dot \<and> \<not> q then [] # split_labels False cs
      else (c # hd (split_labels (c = backslash \<and> \<not> q) cs)) # tl (split_labels (c = backslash \<and> \<not> q) cs))"

definition name_labels :: "string \<Rightarrow> string list" where
  "name_labels s = (if s = ''.'' then [] else split_labels False (butlast s))"

text \<open>The offsets the label walk finds.\<close>

fun cuts :: "nat \<Rightarrow> bool \<Rightarrow> string \<Rightarrow> nat list" where
  "cuts i q [] = []"
| "cuts i q (c # cs) =
     (if c = dot \<and> \<not> q then Suc i # cuts (Suc i) False cs
      else cuts (Suc i) (c = backslash \<and> \<not> q) cs)"

lemma split_labels_ne [simp]: "split_labels q cs \<noteq> []"
  by (cases cs) auto

lemma split_labels_hd_tl [simp]: "hd (split_labels q cs) # tl (split_labels q cs) = split_labels q cs"
  by (simp add: list.collapse)

lemma strings_join_Cons: "ls \<noteq> [] \<Longrightarrow> strings_join (l # ls) sep = l @ sep @ strings_join ls sep"
  by (cases ls) auto

lemma strings_join_hd: "ls \<noteq> [] \<Longrightarrow> strings_join ((c # hd ls) # tl ls) sep = c # strings_join ls sep"
  by (cases "tl ls"; cases ls) auto

lemma join_split_labels: "strings_join (split_labels q cs) ''.'' = cs"
  by (induction q cs rule: split_labels.induct) (auto simp: strings_join_Cons strings_join_hd)

lemma NextLabel_loop_cuts:
  "NextLabel_loop s i q =
     (case cuts i q (drop i (butlast s)) of
        [] \<Rightarrow> (max (i + 1) (length s), True) | j # _ \<Rightarrow> (j, False))"
proof (induction s i q rule: NextLabel_loop.induct)
  case (1 s i q)
  show ?case
  proof (cases "i + 1 < length s")
    case True
    then have "drop i (butlast s) = s ! i # drop (Suc i) (butlast s)"
      by (subst Cons_nth_drop_Suc [symmetric]) (simp_all add: nth_butlast)
    with True 1 show ?thesis
      by (subst NextLabel_loop.simps) (auto simp: max_def split: list.splits)
  next
    case False
    then show ?thesis by (subst NextLabel_loop.simps) auto
  qed
qed

lemma cuts_tail:
  "cuts i q (drop i t) = j # js \<Longrightarrow> i < j \<and> j \<le> length t \<and> js = cuts j False (drop j t)"
proof (induction i q "drop i t" arbitrary: i rule: cuts.induct)
  case (2 i' q c cs i)
  then have cs: "cs = drop (Suc i) t" "i < length t"
    by (metis drop_Suc list.sel(3) tl_drop, metis drop_all linorder_not_less list.distinct(1))
  show ?case
  proof (cases "c = dot \<and> \<not> q")
    case True
    with 2(3,4) cs show ?thesis by (metis Suc_leI cuts.simps(2) lessI list.inject)
  next
    case False
    with 2(2) [OF False cs(1)] 2(3,4) cs show ?thesis
      by (metis Suc_lessD cuts.simps(2))
  qed
qed simp

lemma Split_loop_cuts: "Split_loop s i = cuts i False (drop i (butlast s))"
proof (induction s i rule: Split_loop.induct)
  case (1 s off)
  show ?case
  proof (cases "cuts off False (drop off (butlast s))")
    case Nil
    then show ?thesis
      by (subst Split_loop.simps) (simp add: NextLabel_def NextLabel_loop_cuts)
  next
    case (Cons j js)
    then have "NextLabel s off = (j, False)"
      by (simp add: NextLabel_def NextLabel_loop_cuts)
    with 1 [OF this [symmetric]] Cons cuts_tail [OF Cons] show ?thesis
      by (subst Split_loop.simps) simp
  qed
qed

lemma Split_cuts: "s \<noteq> ''.'' \<Longrightarrow> Split s = 0 # cuts 0 False (butlast s)"
  by (simp add: Split_def Split_loop_cuts)

lemma CountLabel_loop_eq: "CountLabel_loop s off = Suc (length (Split_loop s off))"
proof (induction s off rule: CountLabel_loop.induct)
  case (1 s off)
  then show ?case
    by (subst CountLabel_loop.simps, subst Split_loop.simps) (auto split: prod.splits)
qed

lemma CountLabel_Split: "CountLabel s = length (Split s)"
  by (simp add: CountLabel_def Split_def CountLabel_loop_eq)

section \<open>Splitting a name\<close>

lemma drop_take_Suc: "i < n \<Longrightarrow> n \<le> length s \<Longrightarrow> drop i (take n s) = s ! i # drop (Suc i) (take n s)"
  by (subst Cons_nth_drop_Suc [symmetric]) simp_all

lemma slice_Suc: "b \<le> i \<Longrightarrow> i < length s \<Longrightarrow> slice s b (Suc i) = slice s b i @ [s ! i]"
  by (simp add: slice_def Suc_diff_le take_Suc_conv_app_nth)

lemma slice_same [simp]: "slice s i i = []"
  by (simp add: slice_def)

lemma SplitDomainName_loop_cuts:
  "b \<le> i \<Longrightarrow> i \<le> n \<Longrightarrow> n \<le> length s \<Longrightarrow>
   SplitDomainName_loop s b (cuts i q (drop i (take n s))) n =
     (slice s b i @ hd (split_labels q (drop i (take n s)))) # tl (split_labels q (drop i (take n s)))"
proof (induction "n - i" arbitrary: b i q)
  case 0
  then show ?case by simp
next
  case (Suc k)
  then have eq: "drop i (take n s) = s ! i # drop (Suc i) (take n s)" and k: "k = n - Suc i"
    by (simp_all add: drop_take_Suc)
  note IH = Suc.hyps(1) [OF k]
  show ?case
  proof (cases "s ! i = dot \<and> \<not> q")
    case True
    with Suc.prems Suc.hyps(2) IH [of "Suc i" False] show ?thesis
      unfolding eq by simp
  next
    case False
    with Suc.prems Suc.hyps(2) IH [of b "s ! i = backslash \<and> \<not> q"] show ?thesis
      unfolding eq by (auto simp: slice_Suc)
  qed
qed

lemma name_labels_ne: "s \<noteq> ''.'' \<Longrightarrow> name_labels s \<noteq> []"
  by (simp add: name_labels_def)

lemma SplitDomainName_labels:
  assumes "IsFqdn s"
  shows "SplitDomainName s = name_labels s"
proof (cases "s = ''.''")
  case True
  then show ?thesis by (simp add: SplitDomainName_def Split_def name_labels_def)
next
  case False
  have "butlast s = take (length s - 1) s" by (simp add: butlast_conv_take)
  with False assms SplitDomainName_loop_cuts [of 0 0 "length s - 1" s False] show ?thesis
    by (simp add: SplitDomainName_def Split_cuts name_labels_def IsFqdn_def)
qed

lemma join_name_labels: "IsFqdn s \<Longrightarrow> s \<noteq> ''.'' \<Longrightarrow> strings_join (name_labels s) ''.'' @ ''.'' = s"
  by (auto simp: name_labels_def join_split_labels IsFqdn_def dest: append_butlast_last_id [symmetric])

lemma Fqdn_IsFqdn [simp]: "IsFqdn (Fqdn s)"
  by (simp add: Fqdn_def IsFqdn_def)

lemma Fqdn_idem [simp]: "Fqdn (Fqdn s) = Fqdn s"
  by (simp add: Fqdn_def IsFqdn_def)

section \<open>Comparing names\<close>

lemma equal_names_iff: "equal_names a b \<longleftrightarrow> to_lower a = to_lower b"
  by (auto simp: equal_names_def to_lower_def list_all2_conv_all_nth list_eq_iff_nth_eq)

text \<open>The pieces that \<^verbatim>\<open>CompareDomainName\<close> compares are the labels, each with its dot.\<close>

fun chunks :: "string \<Rightarrow> nat \<Rightarrow> nat list \<Rightarrow> string list" where
  "chunks s b [] = [drop b s]"
| "chunks s b (e # es) = slice s b e # chunks s e es"

lemma length_chunks [simp]: "length (chunks s b es) = Suc (length es)"
  by (induction es arbitrary: b) auto

lemma chunks_nth:
  "k < length es \<Longrightarrow> chunks s b es ! k = slice s ((b # es) ! k) ((b # es) ! Suc k)"
  by (induction es arbitrary: b k) (auto simp: nth_Cons split: nat.splits)

lemma chunks_last: "chunks s b es ! length es = drop ((b # es) ! length es) s"
  by (induction es arbitrary: b) auto

lemma chunks_cuts:
  assumes "last s = dot" and "s \<noteq> []"
  shows "b \<le> i \<Longrightarrow> i < length s \<Longrightarrow>
    chunks s b (cuts i q (drop i (butlast s))) =
      map (\<lambda>l. l @ ''.'')
        ((slice s b i @ hd (split_labels q (drop i (butlast s)))) # tl (split_labels q (drop i (butlast s))))"
proof (induction "length s - Suc i" arbitrary: b i q)
  case 0
  then have i: "i = length s - 1" by simp
  then have "drop b s = slice s b i @ ''.''"
    using 0 assms slice_Suc [of b i s] by (simp add: slice_def last_conv_nth)
  with i show ?case by simp
next
  case (Suc k)
  then have eq: "drop i (butlast s) = s ! i # drop (Suc i) (butlast s)"
    by (subst Cons_nth_drop_Suc [symmetric]) (simp_all add: nth_butlast)
  from Suc have k: "k = length s - Suc (Suc i)" by simp
  note IH = Suc.hyps(1) [OF k]
  show ?case
  proof (cases "s ! i = dot \<and> \<not> q")
    case True
    with Suc.prems Suc.hyps(2) IH [of "Suc i" False] show ?thesis
      unfolding eq by (simp add: slice_Suc)
  next
    case False
    with Suc.prems Suc.hyps(2) IH [of b "s ! i = backslash \<and> \<not> q"] show ?thesis
      unfolding eq by (auto simp: slice_Suc)
  qed
qed

lemma chunks_Split:
  assumes "IsFqdn s" and "s \<noteq> ''.''"
  shows "chunks s 0 (tl (Split s)) = map (\<lambda>l. l @ ''.'') (name_labels s)"
  using assms chunks_cuts [of s 0 0 False]
  by (simp add: IsFqdn_def Split_cuts name_labels_def length_greater_0_conv)

abbreviation folded :: "string \<Rightarrow> string list" where
  "folded s \<equiv> map to_lower (name_labels s)"

lemma length_Split_labels:
  assumes "IsFqdn s"
  shows "length (Split s) = length (name_labels s)"
proof (cases "s = ''.''")
  case True
  then show ?thesis by (simp add: Split_def name_labels_def)
next
  case False
  have "Suc (length (tl (Split s))) = length (name_labels s)"
    using arg_cong [OF chunks_Split [OF assms False], of length] by simp
  with False show ?thesis by (simp add: Split_cuts)
qed

lemma Split_slice:
  assumes "IsFqdn s" and "s \<noteq> ''.''" and "Suc k < length (Split s)"
  shows "slice s (Split s ! k) (Split s ! Suc k) = name_labels s ! k @ ''.''"
proof -
  have S: "Split s = 0 # tl (Split s)" using assms(2) by (simp add: Split_cuts)
  have "chunks s 0 (tl (Split s)) ! k = slice s (Split s ! k) (Split s ! Suc k)"
    using assms(3) S chunks_nth [of k "tl (Split s)" s 0] by simp
  with assms show ?thesis
    by (simp add: chunks_Split length_Split_labels nth_map [of k])
qed

lemma Split_drop:
  assumes "IsFqdn s" and "s \<noteq> ''.''"
  shows "drop (Split s ! (length (Split s) - 1)) s = name_labels s ! (length (Split s) - 1) @ ''.''"
proof -
  have S: "Split s = 0 # tl (Split s)" using assms(2) by (simp add: Split_cuts)
  then have "chunks s 0 (tl (Split s)) ! (length (Split s) - 1) = drop (Split s ! (length (Split s) - 1)) s"
    using chunks_last [of s 0 "tl (Split s)"] by (metis One_nat_def length_tl)
  with assms name_labels_ne show ?thesis
    by (simp add: chunks_Split length_Split_labels nth_map)
qed

lemma CompareDomainName_loop_eq:
  assumes "IsFqdn s1" "s1 \<noteq> ''.''" "IsFqdn s2" "s2 \<noteq> ''.''"
  shows "j1 < length (Split s1) \<Longrightarrow> j2 < length (Split s2) \<Longrightarrow>
    CompareDomainName_loop s1 (Split s1) j1 s2 (Split s2) j2 n =
      n + length (longest_common_prefix (rev (take j1 (folded s1))) (rev (take j2 (folded s2))))"
proof (induction j1 arbitrary: j2 n)
  case (Suc i1)
  show ?case
  proof (cases j2)
    case (Suc i2)
    with Suc.IH Suc.prems assms show ?thesis
      by (simp add: Split_slice equal_names_iff take_Suc_conv_app_nth length_Split_labels)
  qed simp
qed simp

lemma CompareDomainName_lcp:
  assumes "IsFqdn s1" "IsFqdn s2"
  shows "CompareDomainName s1 s2 = length (longest_common_prefix (rev (folded s1)) (rev (folded s2)))"
proof (cases "s1 = ''.'' \<or> s2 = ''.''")
  case True
  then show ?thesis by (auto simp: CompareDomainName_def name_labels_def)
next
  case False
  then have ne: "name_labels s1 \<noteq> []" "name_labels s2 \<noteq> []" by (simp_all add: name_labels_ne)
  have rv: "rev (folded s) = to_lower (name_labels s ! (length (name_labels s) - 1)) #
      rev (take (length (name_labels s) - 1) (folded s))" if "name_labels s \<noteq> []" for s
    using that by (cases "name_labels s" rule: rev_cases) simp_all
  have eq: "equal_names (drop (Split s1 ! (length (Split s1) - 1)) s1) (drop (Split s2 ! (length (Split s2) - 1)) s2)
      \<longleftrightarrow> to_lower (name_labels s1 ! (length (name_labels s1) - 1)) = to_lower (name_labels s2 ! (length (name_labels s2) - 1))"
    using False unfolding equal_names_iff Split_drop [OF assms(1) conjunct1 [OF False [unfolded de_Morgan_disj]]]
      Split_drop [OF assms(2) conjunct2 [OF False [unfolded de_Morgan_disj]]]
    by (simp add: length_Split_labels assms)
  have "length (Split s1) - 1 < length (Split s1)" "length (Split s2) - 1 < length (Split s2)"
    using False by (simp_all add: Split_cuts)
  then show ?thesis
    using False ne assms eq
    by (simp add: CompareDomainName_def Let_def rv CompareDomainName_loop_eq)
       (simp add: length_Split_labels assms)
qed

lemma length_lcp_iff: "length (longest_common_prefix xs ys) = length xs \<longleftrightarrow> prefix xs ys"
proof
  assume "length (longest_common_prefix xs ys) = length xs"
  then have "longest_common_prefix xs ys = xs"
    by (metis longest_common_prefix_prefix1 not_equal_is_parallel parallelE prefix_order.eq_iff)
  then show "prefix xs ys" by (metis longest_common_prefix_prefix2)
next
  assume "prefix xs ys"
  then have "prefix xs (longest_common_prefix xs ys)"
    by (simp add: longest_common_prefix_max_prefix)
  then show "length (longest_common_prefix xs ys) = length xs"
    by (metis longest_common_prefix_prefix1 prefix_order.antisym)
qed

lemma IsSubDomain_suffix:
  "IsFqdn parent \<Longrightarrow> IsFqdn child \<Longrightarrow> IsSubDomain parent child \<longleftrightarrow> suffix (folded parent) (folded child)"
  by (simp add: IsSubDomain_def CompareDomainName_lcp CountLabel_Split length_Split_labels
      suffix_to_prefix flip: length_lcp_iff)

section \<open>Suffixes of a name\<close>

text \<open>The name without its first \<open>k\<close> labels.\<close>

definition label_suffix :: "string \<Rightarrow> nat \<Rightarrow> string" where
  "label_suffix s k = concat (map (\<lambda>l. l @ ''.'') (drop k (name_labels s)))"

lemma cuts_sorted: "sorted_wrt (<) (i # cuts i q cs)"
  by (induction i q cs rule: cuts.induct) (auto intro: Suc_lessD)

lemma Split_mono: "s \<noteq> ''.'' \<Longrightarrow> Suc k < length (Split s) \<Longrightarrow> Split s ! k \<le> Split s ! Suc k"
  using cuts_sorted [of 0 False "butlast s"]
  by (metis Split_cuts lessI less_or_eq_imp_le sorted_wrt_nth_less)

lemma Split_suffix:
  assumes "IsFqdn s" and "s \<noteq> ''.''"
  shows "k < length (Split s) \<Longrightarrow> drop (Split s ! k) s = label_suffix s k"
proof (induction "length (Split s) - 1 - k" arbitrary: k)
  case 0
  then have k: "k = length (Split s) - 1" by simp
  have "Suc k = length (name_labels s)"
    using 0 k by (simp add: length_Split_labels [OF assms(1), symmetric])
  then have "drop k (name_labels s) = [name_labels s ! k]"
    using Cons_nth_drop_Suc [of k "name_labels s"] by simp
  with Split_drop [OF assms] k show ?case by (simp add: label_suffix_def)
next
  case (Suc d)
  have k: "Suc k < length (Split s)" using Suc(2) by simp
  have "drop k (name_labels s) = name_labels s ! k # drop (Suc k) (name_labels s)"
    using k by (simp add: length_Split_labels [OF assms(1)] Cons_nth_drop_Suc)
  then have "label_suffix s k = slice s (Split s ! k) (Split s ! Suc k) @ drop (Split s ! Suc k) s"
    using Suc.hyps(1) [of "Suc k"] Suc(2) k Split_slice [OF assms k] by (simp add: label_suffix_def)
  also have "\<dots> = drop (Split s ! k) s"
    using Split_mono [OF assms(2) k] by (simp add: slice_drop)
  finally show ?case by simp
qed

section \<open>The parent of a name\<close>

lemma upperName_length: "dot \<in> set s \<Longrightarrow> length (upperName s) < length s"
proof -
  assume "dot \<in> set s"
  then have "dropWhile (\<lambda>c. c \<noteq> dot) s \<noteq> []" by (auto simp: dropWhile_eq_Nil_conv)
  then have "length (tl (dropWhile (\<lambda>c. c \<noteq> dot) s)) < length (dropWhile (\<lambda>c. c \<noteq> dot) s)"
    by simp
  also have "\<dots> \<le> length s" by (rule length_dropWhile_le)
  finally show ?thesis using \<open>dot \<in> set s\<close> by (simp add: upperName_def)
qed

lemma upperName_fqdn: "IsFqdn s \<Longrightarrow> upperName s = [] \<or> IsFqdn (upperName s)"
proof -
  assume "IsFqdn s"
  then have d: "dot \<in> set s" and l: "last s = dot" by (auto simp: IsFqdn_def) (metis last_in_set)
  obtain ys zs where s: "s = ys @ dot # zs" "dot \<notin> set ys"
    using split_list_first [OF d] by blast
  have "dropWhile (\<lambda>c. c \<noteq> dot) (ys @ dot # zs) = dot # zs"
    using s(2) by (induction ys) auto
  with s(1) have "upperName s = zs" by (simp add: upperName_def)
  with l s show ?thesis by (auto simp: IsFqdn_def)
qed

lemma upperName_suffix: "suffix (upperName s) s"
  by (simp add: upperName_def suffix_order.trans [OF suffix_tl suffix_dropWhile])

end
