(* ===== verification/Dns_Msg.thy ===== *)
theory Dns_Msg
  imports Dns_Labels
begin

text \<open>
  DNS messages: the message, question and resource-record types of the vendored DNS library,
  the EDNS0 bit fields of the OPT record, the reply constructors the handler and the
  resolver call, and the message helpers of \<^verbatim>\<open>utils.go\<close> (\<open>extractRRSet\<close>, \<open>clearOPT\<close>,
  \<open>clearDNSSEC\<close>, \<open>isDO\<close>, \<open>searchAddr\<close>).

  A resource record is a header and the data of its Go type; \<^verbatim>\<open>Header().Rrtype\<close> and the Go
  type are kept apart, as they are in the library, and \<open>rr_wf\<close> says that they agree.
  \<open>DS_nil_rd\<close> is a nil \<^verbatim>\<open>*dns.DS\<close> in a record list (\<^verbatim>\<open>ToDS\<close> may return one). An OPT
  record carries an object identity: \<open>1\<close> for the OPT object of the client's request, which
  the handler mutates through a pointer it keeps, \<open>0\<close> for every other OPT object.
\<close>

section \<open>Types\<close>

type_synonym ip = "u8 list"

record rr_header =
  rh_Name :: string
  rh_Rrtype :: u16
  rh_Class :: u16
  rh_Ttl :: u32

record rr_DS =
  ds_KeyTag :: u16
  ds_Algorithm :: u8
  ds_DigestType :: u8
  ds_Digest :: string

record rr_DNSKEY =
  dk_Flags :: u16
  dk_Protocol :: u8
  dk_Algorithm :: u8
  dk_PublicKey :: string

record rr_RRSIG =
  sig_TypeCovered :: u16
  sig_Algorithm :: u8
  sig_Labels :: u8
  sig_OrigTtl :: u32
  sig_Expiration :: u32
  sig_Inception :: u32
  sig_KeyTag :: u16
  sig_SignerName :: string
  sig_Signature :: string

record rr_NSEC3 =
  n3_Hash :: u8
  n3_Flags :: u8
  n3_Iterations :: u16
  n3_Salt :: string
  n3_NextDomain :: string
  n3_TypeBitMap :: "u16 list"

datatype edns0 =
    EDNS0_SUBNET u16 u8 u8 ip
  | EDNS0_OTHER u16 string

datatype rdata =
    A_rd ip
  | AAAA_rd ip
  | NS_rd string
  | CNAME_rd string
  | DS_rd rr_DS
  | DS_nil_rd
  | DNSKEY_rd rr_DNSKEY
  | RRSIG_rd rr_RRSIG
  | NSEC_rd string "u16 list"
  | NSEC3_rd rr_NSEC3
  | OPT_rd nat "edns0 list"
  | HINFO_rd string string
  | Other_rd string

datatype rr = RR (Header: rr_header) (Rdata: rdata)

record question =
  q_Name :: string
  q_Qtype :: u16
  q_Qclass :: u16

record msg =
  m_Id :: u16
  m_Response :: bool
  m_Opcode :: int
  m_Authoritative :: bool
  m_Truncated :: bool
  m_RecursionDesired :: bool
  m_RecursionAvailable :: bool
  m_Zero :: bool
  m_AuthenticatedData :: bool
  m_CheckingDisabled :: bool
  m_Rcode :: int
  m_Compress :: bool
  m_Question :: "question list"
  m_Answer :: "rr list"
  m_Ns :: "rr list"
  m_Extra :: "rr list"

abbreviation (input) TypeNone :: u16 where "TypeNone \<equiv> 0"
abbreviation (input) TypeA :: u16 where "TypeA \<equiv> 1"
abbreviation (input) TypeNS :: u16 where "TypeNS \<equiv> 2"
abbreviation (input) TypeCNAME :: u16 where "TypeCNAME \<equiv> 5"
abbreviation (input) TypeSOA :: u16 where "TypeSOA \<equiv> 6"
abbreviation (input) TypeHINFO :: u16 where "TypeHINFO \<equiv> 13"
abbreviation (input) TypeAAAA :: u16 where "TypeAAAA \<equiv> 28"
abbreviation (input) TypeOPT :: u16 where "TypeOPT \<equiv> 41"
abbreviation (input) TypeDS :: u16 where "TypeDS \<equiv> 43"
abbreviation (input) TypeRRSIG :: u16 where "TypeRRSIG \<equiv> 46"
abbreviation (input) TypeNSEC :: u16 where "TypeNSEC \<equiv> 47"
abbreviation (input) TypeDNSKEY :: u16 where "TypeDNSKEY \<equiv> 48"
abbreviation (input) TypeNSEC3 :: u16 where "TypeNSEC3 \<equiv> 50"
abbreviation (input) TypeANY :: u16 where "TypeANY \<equiv> 255"
abbreviation (input) ClassINET :: u16 where "ClassINET \<equiv> 1"

abbreviation (input) RcodeSuccess :: int where "RcodeSuccess \<equiv> 0"
abbreviation (input) RcodeFormatError :: int where "RcodeFormatError \<equiv> 1"
abbreviation (input) RcodeServerFailure :: int where "RcodeServerFailure \<equiv> 2"
abbreviation (input) RcodeNameError :: int where "RcodeNameError \<equiv> 3"
abbreviation (input) RcodeNotImplemented :: int where "RcodeNotImplemented \<equiv> 4"
abbreviation (input) RcodeBadVers :: int where "RcodeBadVers \<equiv> 16"

abbreviation rr_name :: "rr \<Rightarrow> string" where "rr_name r \<equiv> rh_Name (Header r)"
abbreviation rr_type :: "rr \<Rightarrow> u16" where "rr_type r \<equiv> rh_Rrtype (Header r)"
abbreviation rr_ttl :: "rr \<Rightarrow> u32" where "rr_ttl r \<equiv> rh_Ttl (Header r)"

definition rr_setTtl :: "u32 \<Rightarrow> rr \<Rightarrow> rr" where
  "rr_setTtl t r = RR ((Header r)\<lparr>rh_Ttl := t\<rparr>) (Rdata r)"

text \<open>The Go type and the type of the header agree, as they do for every unpacked record.\<close>

fun rdata_types :: "rdata \<Rightarrow> u16 option" where
  "rdata_types (A_rd _) = Some TypeA"
| "rdata_types (AAAA_rd _) = Some TypeAAAA"
| "rdata_types (NS_rd _) = Some TypeNS"
| "rdata_types (CNAME_rd _) = Some TypeCNAME"
| "rdata_types (DS_rd _) = Some TypeDS"
| "rdata_types DS_nil_rd = None"
| "rdata_types (DNSKEY_rd _) = Some TypeDNSKEY"
| "rdata_types (RRSIG_rd _) = Some TypeRRSIG"
| "rdata_types (NSEC_rd _ _) = Some TypeNSEC"
| "rdata_types (NSEC3_rd _) = Some TypeNSEC3"
| "rdata_types (OPT_rd _ _) = Some TypeOPT"
| "rdata_types (HINFO_rd _ _) = Some TypeHINFO"
| "rdata_types (Other_rd _) = None"

definition rr_wf :: "rr \<Rightarrow> bool" where
  "rr_wf r \<longleftrightarrow>
     (case rdata_types (Rdata r) of
        Some t \<Rightarrow> rr_type r = t
      | None \<Rightarrow> rr_type r \<notin> {TypeA, TypeAAAA, TypeNS, TypeCNAME, TypeDS, TypeDNSKEY, TypeRRSIG,
                              TypeNSEC, TypeNSEC3, TypeHINFO})"

fun is_OPT :: "rr \<Rightarrow> bool" where
  "is_OPT (RR h (OPT_rd i os)) = True"
| "is_OPT _ = False"

text \<open>The code asserts the type of OPT records in the additional section only. Elsewhere a record of this type may have generic
  data: the text parser knows OPT only in the generic form of RFC 3597.\<close>

definition extra_wf :: "rr \<Rightarrow> bool" where
  "extra_wf r \<longleftrightarrow> rr_wf r \<and> (rr_type r = TypeOPT \<longrightarrow> is_OPT r)"

definition msg_wf :: "msg \<Rightarrow> bool" where
  "msg_wf m \<longleftrightarrow> list_all rr_wf (m_Answer m) \<and> list_all rr_wf (m_Ns m) \<and> list_all extra_wf (m_Extra m)"

fun is_dnssec :: "rr \<Rightarrow> bool" where
  "is_dnssec (RR h (RRSIG_rd s)) = True"
| "is_dnssec (RR h (NSEC3_rd n)) = True"
| "is_dnssec (RR h (NSEC_rd n b)) = True"
| "is_dnssec _ = False"

definition msg_zero :: msg where
  "msg_zero = \<lparr>m_Id = 0, m_Response = False, m_Opcode = 0, m_Authoritative = False,
     m_Truncated = False, m_RecursionDesired = False, m_RecursionAvailable = False, m_Zero = False,
     m_AuthenticatedData = False, m_CheckingDisabled = False, m_Rcode = 0, m_Compress = False,
     m_Question = [], m_Answer = [], m_Ns = [], m_Extra = []\<rparr>"

section \<open>The OPT record\<close>

abbreviation (input) DO_bit :: u32 where "DO_bit \<equiv> 0x8000"

definition opt_Do :: "rr \<Rightarrow> bool" where
  "opt_Do r \<longleftrightarrow> rr_ttl r AND DO_bit = DO_bit"

definition opt_SetDo :: "bool \<Rightarrow> rr \<Rightarrow> rr" where
  "opt_SetDo d r = rr_setTtl (if d then rr_ttl r OR DO_bit else rr_ttl r AND NOT DO_bit) r"

definition opt_Version :: "rr \<Rightarrow> u8" where
  "opt_Version r = ucast (drop_bit 16 (rr_ttl r AND 0x00FF0000))"

definition opt_SetVersion :: "u8 \<Rightarrow> rr \<Rightarrow> rr" where
  "opt_SetVersion v r = rr_setTtl ((rr_ttl r AND 0xFF00FFFF) OR push_bit 16 (ucast v)) r"

definition opt_SetExtendedRcode :: "u8 \<Rightarrow> rr \<Rightarrow> rr" where
  "opt_SetExtendedRcode v r =
     (if v < 16 then r
      else rr_setTtl ((rr_ttl r AND 0x00FFFFFF) OR push_bit 24 (ucast (v - 15))) r)"

definition opt_SetUDPSize :: "u16 \<Rightarrow> rr \<Rightarrow> rr" where
  "opt_SetUDPSize n r = RR ((Header r)\<lparr>rh_Class := n\<rparr>) (Rdata r)"

fun edns_Option :: "edns0 \<Rightarrow> u16" where
  "edns_Option (EDNS0_SUBNET f m s a) = 8"
| "edns_Option (EDNS0_OTHER c d) = c"

definition new_OPT :: "nat \<Rightarrow> rr" where
  "new_OPT i = RR \<lparr>rh_Name = ''.'', rh_Rrtype = TypeOPT, rh_Class = 0, rh_Ttl = 0\<rparr> (OPT_rd i [])"

section \<open>Messages\<close>

definition SetReply :: "msg \<Rightarrow> msg \<Rightarrow> msg" where
  "SetReply d request =
     (let d1 = d\<lparr>m_Id := m_Id request, m_Response := True, m_Opcode := m_Opcode request\<rparr>;
          d2 = (if m_Opcode d1 = 0
                then d1\<lparr>m_RecursionDesired := m_RecursionDesired request,
                        m_CheckingDisabled := m_CheckingDisabled request\<rparr> else d1);
          d3 = d2\<lparr>m_Rcode := RcodeSuccess\<rparr>
      in case m_Question request of [] \<Rightarrow> d3 | q # _ \<Rightarrow> d3\<lparr>m_Question := [q]\<rparr>)"

definition SetRcode :: "msg \<Rightarrow> msg \<Rightarrow> int \<Rightarrow> msg" where
  "SetRcode d request rcode = (SetReply d request)\<lparr>m_Rcode := rcode\<rparr>"

definition SetQuestion :: "u16 \<Rightarrow> msg \<Rightarrow> string \<Rightarrow> u16 \<Rightarrow> msg" where
  "SetQuestion ident d z t =
     d\<lparr>m_Id := ident, m_RecursionDesired := True,
       m_Question := [\<lparr>q_Name = z, q_Qtype = t, q_Qclass = ClassINET\<rparr>]\<rparr>"

definition SetEdns0 :: "msg \<Rightarrow> u16 \<Rightarrow> bool \<Rightarrow> msg" where
  "SetEdns0 d udpsize dodo =
     (let e = opt_SetUDPSize udpsize (new_OPT 0)
      in d\<lparr>m_Extra := m_Extra d @ [if dodo then opt_SetDo True e else e]\<rparr>)"

text \<open>\<^verbatim>\<open>IsEdns0\<close> looks from the end of the additional section; \<open>upd_Edns0\<close> is a mutation through
  the pointer it returns.\<close>

fun last_opt :: "rr list \<Rightarrow> rr option" where
  "last_opt [] = None"
| "last_opt (r # rs) =
     (case last_opt rs of Some o' \<Rightarrow> Some o' | None \<Rightarrow> if rr_type r = TypeOPT then Some r else None)"

fun upd_last_opt :: "(rr \<Rightarrow> rr) \<Rightarrow> rr list \<Rightarrow> rr list" where
  "upd_last_opt f [] = []"
| "upd_last_opt f (r # rs) =
     (if last_opt rs \<noteq> None then r # upd_last_opt f rs
      else if rr_type r = TypeOPT then f r # rs else r # rs)"

definition IsEdns0 :: "msg \<Rightarrow> rr option" where
  "IsEdns0 m = last_opt (m_Extra m)"

definition upd_Edns0 :: "(rr \<Rightarrow> rr) \<Rightarrow> msg \<Rightarrow> msg" where
  "upd_Edns0 f m = m\<lparr>m_Extra := upd_last_opt f (m_Extra m)\<rparr>"

definition isDO :: "msg \<Rightarrow> bool" where
  "isDO req = (case IsEdns0 req of Some opt \<Rightarrow> opt_Do opt | None \<Rightarrow> False)"

definition clearOPT :: "msg \<Rightarrow> msg" where
  "clearOPT m = m\<lparr>m_Extra := filter (\<lambda>r. \<not> is_OPT r) (m_Extra m)\<rparr>"

definition clearDNSSEC :: "msg \<Rightarrow> msg" where
  "clearDNSSEC m = m\<lparr>m_Answer := filter (\<lambda>r. \<not> is_dnssec r) (m_Answer m),
                     m_Ns := filter (\<lambda>r. \<not> is_dnssec r) (m_Ns m)\<rparr>"

text \<open>\<^verbatim>\<open>extractRRSet\<close>: the records of the given types whose lower-cased name is the given name,
  the empty name standing for any name.\<close>

definition extractRRSet :: "rr list \<Rightarrow> string \<Rightarrow> u16 list \<Rightarrow> rr list" where
  "extractRRSet rrs name t =
     filter (\<lambda>r. rr_type r \<in> set t \<and> \<not> (name \<noteq> [] \<and> name \<noteq> to_lower (rr_name r))) rrs"

text \<open>\<^verbatim>\<open>dns.Copy\<close>: a new object with equal contents.\<close>

fun rr_Copy :: "rr \<Rightarrow> rr" where
  "rr_Copy (RR h (OPT_rd i os)) = RR h (OPT_rd 0 os)"
| "rr_Copy r = r"

text \<open>\<^verbatim>\<open>searchAddr\<close>: the address of the first A record of the answer section.\<close>

fun searchAddr_loop :: "rr list \<Rightarrow> ip option" where
  "searchAddr_loop [] = None"
| "searchAddr_loop (RR h (A_rd a) # rs) = Some a"
| "searchAddr_loop (r # rs) = searchAddr_loop rs"

definition searchAddr :: "msg \<Rightarrow> ip option" where
  "searchAddr m = searchAddr_loop (m_Answer m)"

section \<open>Lemmas\<close>

lemma Header_setTtl [simp]:
  "Header (rr_setTtl t r) = (Header r)\<lparr>rh_Ttl := t\<rparr>" "Rdata (rr_setTtl t r) = Rdata r"
  by (simp_all add: rr_setTtl_def)

lemma is_OPT_setTtl [simp]: "is_OPT (rr_setTtl t r) = is_OPT r"
  by (cases r; cases "Rdata r") (auto simp: rr_setTtl_def)

text \<open>The bit positions of the masks, from which the field lemmas follow bit by bit.\<close>

lemma bit_DO_bit [simp]: "bit (DO_bit :: u32) n \<longleftrightarrow> n = 15"
proof -
  have eq: "(DO_bit :: u32) = 2 ^ 15" by simp
  show ?thesis by (simp only: eq bit_exp_iff) auto
qed

lemma bit_version_mask: "bit (0x00FF0000 :: u32) n \<longleftrightarrow> 16 \<le> n \<and> n < 24"
proof -
  have eq: "(0x00FF0000 :: u32) = push_bit 16 (mask 8)" by (simp add: mask_eq_exp_minus_1 push_bit_eq_mult)
  show ?thesis by (simp only: eq bit_push_bit_iff bit_mask_iff) auto
qed

lemma bit_keep_version_mask: "bit (0xFF00FFFF :: u32) n \<longleftrightarrow> n < 32 \<and> \<not> (16 \<le> n \<and> n < 24)"
proof -
  have eq: "(0xFF00FFFF :: u32) = NOT 0x00FF0000" by simp
  show ?thesis by (simp only: eq bit_not_iff bit_version_mask) (auto simp: bit_simps)
qed

lemma bit_low24_mask: "bit (0x00FFFFFF :: u32) n \<longleftrightarrow> n < 24"
proof -
  have eq: "(0x00FFFFFF :: u32) = mask 24" by (simp add: mask_eq_exp_minus_1)
  show ?thesis by (simp only: eq bit_mask_iff) auto
qed

text \<open>The bits of the fields; the masks stay folded here.\<close>

declare bit_numeral_word_iff [simp del]

lemma opt_Do_bit: "opt_Do r \<longleftrightarrow> bit (rr_ttl r) 15"
proof
  assume "opt_Do r"
  then have "bit (rr_ttl r AND DO_bit) 15 = bit (DO_bit :: u32) 15"
    by (simp only: opt_Do_def)
  then show "bit (rr_ttl r) 15" by (simp only: bit_and_iff bit_DO_bit simp_thms)
next
  assume b: "bit (rr_ttl r) 15"
  show "opt_Do r"
    unfolding opt_Do_def by (rule bit_word_eqI) (use b in \<open>auto simp: bit_and_iff\<close>)
qed

lemma bit_opt_Version: "bit (opt_Version r) n \<longleftrightarrow> n < 8 \<and> bit (rr_ttl r) (n + 16)"
  unfolding opt_Version_def
  by (simp only: bit_unsigned_iff bit_drop_bit_eq bit_and_iff bit_version_mask o_apply)
     (auto simp: add.commute)

lemma rr_ttl_SetDo:
  "rr_ttl (opt_SetDo True r) = rr_ttl r OR DO_bit" "rr_ttl (opt_SetDo False r) = rr_ttl r AND NOT DO_bit"
  by (simp_all add: opt_SetDo_def)

lemma bit_ttl_SetDo: "bit (rr_ttl (opt_SetDo d r)) n \<longleftrightarrow> (if n = 15 then d else bit (rr_ttl r) n)"
  by (cases d; simp only: rr_ttl_SetDo bit_or_iff bit_and_iff bit_not_iff bit_DO_bit)
     (auto dest: bit_imp_le_length)

lemma bit_ttl_SetVersion:
  "bit (rr_ttl (opt_SetVersion v r)) n \<longleftrightarrow> (if 16 \<le> n \<and> n < 24 then bit v (n - 16) else bit (rr_ttl r) n)"
  by (auto simp: opt_SetVersion_def bit_or_iff bit_and_iff bit_keep_version_mask bit_push_bit_iff
      bit_unsigned_iff dest: bit_imp_le_length)

lemma bit_ttl_SetExtendedRcode:
  "bit (rr_ttl (opt_SetExtendedRcode v r)) n \<longleftrightarrow>
     (if 16 \<le> v \<and> 24 \<le> n \<and> n < 32 then bit (v - 15) (n - 24) else bit (rr_ttl r) n)"
  by (auto simp: opt_SetExtendedRcode_def bit_or_iff bit_and_iff bit_low24_mask bit_push_bit_iff
      bit_unsigned_iff not_less dest: bit_imp_le_length)

lemma opt_Do_setters [simp]:
  "opt_Do (opt_SetDo d r) = d"
  "opt_Do (opt_SetVersion v r) = opt_Do r"
  "opt_Do (opt_SetExtendedRcode x r) = opt_Do r"
  by (simp_all add: opt_Do_bit bit_ttl_SetDo bit_ttl_SetVersion bit_ttl_SetExtendedRcode)

lemma opt_Version_setters [simp]:
  "opt_Version (opt_SetDo d r) = opt_Version r"
  "opt_Version (opt_SetVersion v r) = v"
  "opt_Version (opt_SetExtendedRcode x r) = opt_Version r"
  by (rule bit_word_eqI;
      simp add: bit_opt_Version bit_ttl_SetDo bit_ttl_SetVersion bit_ttl_SetExtendedRcode)+

declare bit_numeral_word_iff [simp]

lemma is_OPT_type: "extra_wf r \<Longrightarrow> is_OPT r \<longleftrightarrow> rr_type r = TypeOPT"
  by (cases r; cases "Rdata r") (auto simp: rr_wf_def extra_wf_def)

lemma extra_wf_rr [simp]: "extra_wf r \<Longrightarrow> rr_wf r"
  by (simp add: extra_wf_def)

lemma last_opt_None: "last_opt rs = None \<longleftrightarrow> (\<forall>r \<in> set rs. rr_type r \<noteq> TypeOPT)"
  by (induction rs) (auto split: option.splits)

lemma last_opt_Some: "last_opt rs = Some r \<Longrightarrow> r \<in> set rs \<and> rr_type r = TypeOPT"
  by (induction rs) (auto split: option.splits if_splits)

lemma IsEdns0_clearOPT: "msg_wf m \<Longrightarrow> IsEdns0 (clearOPT m) = None"
  by (auto simp: IsEdns0_def clearOPT_def last_opt_None msg_wf_def list_all_iff is_OPT_type)

lemma msg_wf_clearOPT [simp]: "msg_wf m \<Longrightarrow> msg_wf (clearOPT m)"
  by (auto simp: msg_wf_def clearOPT_def list_all_iff)

lemma msg_wf_clearDNSSEC [simp]: "msg_wf m \<Longrightarrow> msg_wf (clearDNSSEC m)"
  by (auto simp: msg_wf_def clearDNSSEC_def list_all_iff)

lemma last_opt_append_OPT: "rr_type r = TypeOPT \<Longrightarrow> last_opt (rs @ [r]) = Some r"
  by (induction rs) auto

lemma last_opt_upd:
  assumes "\<And>r. rr_type (f r) = rr_type r"
  shows "last_opt (upd_last_opt f rs) = map_option f (last_opt rs)"
  by (induction rs) (auto simp: assms split: option.splits)

lemma length_upd_last_opt [simp]: "length (upd_last_opt f rs) = length rs"
  by (induction f rs rule: upd_last_opt.induct) auto

lemma rr_type_setters [simp]:
  "rr_type (rr_setTtl t r) = rr_type r" "rr_type (opt_SetDo d r) = rr_type r"
  "rr_type (opt_SetVersion v r) = rr_type r" "rr_type (opt_SetExtendedRcode x r) = rr_type r"
  "rr_type (opt_SetUDPSize n r) = rr_type r"
  by (simp_all add: opt_SetDo_def opt_SetVersion_def opt_SetExtendedRcode_def opt_SetUDPSize_def)

lemma extractRRSet_set:
  "r \<in> set (extractRRSet rrs name ts) \<longleftrightarrow>
     r \<in> set rrs \<and> rr_type r \<in> set ts \<and> (name = [] \<or> name = to_lower (rr_name r))"
  by (auto simp: extractRRSet_def)

lemma rr_Copy_Header [simp]: "Header (rr_Copy r) = Header r"
  by (cases r; cases "Rdata r") auto

lemma rr_Copy_wf [simp]: "rr_wf (rr_Copy r) = rr_wf r"
  by (cases r; cases "Rdata r") (auto simp: rr_wf_def)

lemma rr_Copy_idem [simp]: "rr_Copy (rr_Copy r) = rr_Copy r"
  by (cases r; cases "Rdata r") auto

lemma extra_wf_Copy [simp]: "extra_wf (rr_Copy r) = extra_wf r"
  by (cases r; cases "Rdata r") (auto simp: rr_wf_def extra_wf_def)

lemma rr_wf_setTtl [simp]: "rr_wf (rr_setTtl t r) = rr_wf r"
  by (simp add: rr_wf_def rr_setTtl_def split: option.split)

end
