(* ===== verification/Cache_Hash.thy ===== *)
theory Cache_Hash
  imports Dns_Msg
begin

text \<open>
  The cache key of a question: \<^verbatim>\<open>Hash\<close> of \<^verbatim>\<open>cache/hash.go\<close>, with the FNV-1 hash and the
  iteration over a string of Go's library. The key ignores the case of the name; it tells
  apart two names of equal length that differ in one position; names that are not ASCII
  are hashed by the first byte of each rune only.
\<close>

section \<open>Definitions\<close>

text \<open>The 64-bit FNV-1 hash of \<^verbatim>\<open>hash/fnv\<close>: multiply, then exclusive or with the byte.\<close>

definition fnv_offset :: u64 where "fnv_offset = 14695981039346656037"
definition fnv_prime :: u64 where "fnv_prime = 1099511628211"

definition fnv_step :: "u64 \<Rightarrow> u8 \<Rightarrow> u64" where
  "fnv_step h b = (h * fnv_prime) XOR ucast b"

definition fnv64 :: "u8 list \<Rightarrow> u64" where
  "fnv64 bs = foldl fnv_step fnv_offset bs"

text \<open>
  \<^verbatim>\<open>for i := range s\<close> visits the offsets at which the UTF-8 runes of \<^verbatim>\<open>s\<close> start; a byte that
  starts no valid rune is a rune of width one.
\<close>

definition byte_in :: "string \<Rightarrow> nat \<Rightarrow> nat \<Rightarrow> nat \<Rightarrow> bool" where
  "byte_in cs i lo hi \<longleftrightarrow> i < length cs \<and> lo \<le> of_char (cs ! i) \<and> of_char (cs ! i) \<le> hi"

definition rune_len :: "string \<Rightarrow> nat" where
  "rune_len s =
     (if byte_in s 0 0xC2 0xDF \<and> byte_in s 1 0x80 0xBF then 2
      else if byte_in s 0 0xE0 0xEF
        \<and> byte_in s 1 (if of_char (s ! 0) = (0xE0::nat) then 0xA0 else 0x80)
                      (if of_char (s ! 0) = (0xED::nat) then 0x9F else 0xBF)
        \<and> byte_in s 2 0x80 0xBF then 3
      else if byte_in s 0 0xF0 0xF4
        \<and> byte_in s 1 (if of_char (s ! 0) = (0xF0::nat) then 0x90 else 0x80)
                      (if of_char (s ! 0) = (0xF4::nat) then 0x8F else 0xBF)
        \<and> byte_in s 2 0x80 0xBF \<and> byte_in s 3 0x80 0xBF then 4
      else 1)"

lemma rune_len_pos: "0 < rune_len s"
  by (simp add: rune_len_def)

function rune_starts :: "string \<Rightarrow> string" where
  "rune_starts [] = []"
| "rune_starts (c # cs) = c # rune_starts (drop (rune_len (c # cs)) (c # cs))"
  by pat_completeness auto
termination
  by (relation "measure length") (auto simp: rune_len_pos)

declare rune_starts.simps(2) [simp del]

text \<open>\<^verbatim>\<open>Hash\<close>: the type in big-endian order, a byte for the CD flag, the lower-cased name.\<close>

definition hash_input :: "question \<Rightarrow> bool list \<Rightarrow> u8 list" where
  "hash_input q cd =
     [ucast (drop_bit 8 (q_Qtype q)), ucast (q_Qtype q)]
     @ (if 0 < length cd \<and> cd ! 0 then [1] else [])
     @ map (\<lambda>c. byte_of (lower_byte c)) (rune_starts (q_Name q))"

definition Hash :: "question \<Rightarrow> bool list \<Rightarrow> u64" where
  "Hash q cd = fnv64 (hash_input q cd)"

section \<open>Case folding\<close>

lemma of_char_lower_high: "128 \<le> n \<Longrightarrow> (n \<le> (of_char (lower_byte c) :: nat)) = (n \<le> of_char c)"
  by (auto simp: lower_byte_def Let_def)

lemma of_char_lower_cases:
  "(of_char (lower_byte c) :: nat) = of_char c \<or>
   (of_char c \<le> (90::nat) \<and> of_char (lower_byte c) \<le> (122::nat))"
  by (auto simp: lower_byte_def Let_def)

lemma byte_in_to_lower:
  assumes "128 \<le> lo"
  shows "byte_in (to_lower s) i lo hi = byte_in s i lo hi"
proof (cases "i < length s")
  case True
  with of_char_lower_cases [of "s ! i"] assms show ?thesis
    by (auto simp: byte_in_def to_lower_def)
qed (simp add: byte_in_def)

lemma rune_len_to_lower [simp]: "rune_len (to_lower s) = rune_len s"
proof (cases s)
  case (Cons c cs)
  have "(of_char (to_lower s ! 0) = (n::nat)) = (of_char (s ! 0) = n)" if "128 \<le> n" for n
    using of_char_lower_cases [of c] that Cons by (auto simp: to_lower_def)
  then have eq: "(of_char (to_lower s ! 0) = (0xE0::nat)) = (of_char (s ! 0) = (0xE0::nat))"
    "(of_char (to_lower s ! 0) = (0xED::nat)) = (of_char (s ! 0) = (0xED::nat))"
    "(of_char (to_lower s ! 0) = (0xF0::nat)) = (of_char (s ! 0) = (0xF0::nat))"
    "(of_char (to_lower s ! 0) = (0xF4::nat)) = (of_char (s ! 0) = (0xF4::nat))"
    by simp_all
  have "byte_in (to_lower s) i (if b then 0xA0 else 0x80) hi = byte_in s i (if b then 0xA0 else 0x80) hi"
    "byte_in (to_lower s) i (if b then 0x90 else 0x80) hi = byte_in s i (if b then 0x90 else 0x80) hi"
    "byte_in (to_lower s) i 0xC2 hi = byte_in s i 0xC2 hi" "byte_in (to_lower s) i 0xE0 hi = byte_in s i 0xE0 hi"
    "byte_in (to_lower s) i 0xF0 hi = byte_in s i 0xF0 hi" "byte_in (to_lower s) i 0x80 hi = byte_in s i 0x80 hi"
    for i b hi
    by (simp_all add: byte_in_to_lower)
  then show ?thesis
    unfolding rune_len_def eq by (simp only:)
qed simp

lemma rune_starts_to_lower: "rune_starts (to_lower s) = map lower_byte (rune_starts s)"
proof (induction s rule: rune_starts.induct)
  case (2 c cs)
  have "rune_starts (to_lower (c # cs)) =
      lower_byte c # rune_starts (drop (rune_len (to_lower (c # cs))) (to_lower (c # cs)))"
    by (simp add: to_lower_def rune_starts.simps(2))
  also have "\<dots> = lower_byte c # rune_starts (to_lower (drop (rune_len (c # cs)) (c # cs)))"
    by (simp only: rune_len_to_lower) (simp only: to_lower_def drop_map)
  also have "\<dots> = map lower_byte (rune_starts (c # cs))"
    using 2 by (simp add: rune_starts.simps(2))
  finally show ?case .
qed simp

lemma hash_input_fold:
  assumes "q_Qtype q = q_Qtype q'" and "to_lower (q_Name q) = to_lower (q_Name q')"
  shows "hash_input q cd = hash_input q' cd"
proof -
  have "map lower_byte (rune_starts (q_Name q)) = map lower_byte (rune_starts (q_Name q'))"
    using assms(2) by (metis rune_starts_to_lower)
  then have "map byte_of (map lower_byte (rune_starts (q_Name q))) =
      map byte_of (map lower_byte (rune_starts (q_Name q')))"
    by (rule arg_cong)
  with assms(1) show ?thesis by (simp add: hash_input_def o_def)
qed

section \<open>The hash\<close>

definition ascii :: "string \<Rightarrow> bool" where
  "ascii s \<longleftrightarrow> list_all (\<lambda>c. of_char c < (128::nat)) s"

lemma rune_len_ascii: "ascii (c # cs) \<Longrightarrow> rune_len (c # cs) = 1"
  by (auto simp: rune_len_def byte_in_def ascii_def)

lemma rune_starts_ascii: "ascii s \<Longrightarrow> rune_starts s = s"
proof (induction s)
  case (Cons c cs)
  moreover from Cons.prems have "ascii cs" by (simp add: ascii_def)
  ultimately show ?case by (simp add: rune_len_ascii rune_starts.simps(2))
qed simp

text \<open>The prime is odd, so multiplying by it loses nothing, and neither step of the hash merges states.\<close>

lemma fnv_prime_inverse: "fnv_prime * 0xce965057aff6957b = 1"
  by (simp add: fnv_prime_def)

lemma mult_fnv_prime_inj: "h * fnv_prime = h' * fnv_prime \<Longrightarrow> h = h'"
proof -
  assume "h * fnv_prime = h' * fnv_prime"
  then have "h * fnv_prime * 0xce965057aff6957b = h' * fnv_prime * 0xce965057aff6957b" by (rule arg_cong)
  then show ?thesis unfolding mult.assoc fnv_prime_inverse by (simp only: mult_1_right)
qed

lemma fnv_step_inj1: "fnv_step h b = fnv_step h' b \<Longrightarrow> h = h'"
proof -
  assume "fnv_step h b = fnv_step h' b"
  then have "((h * fnv_prime) XOR ucast b) XOR ucast b = ((h' * fnv_prime) XOR ucast b) XOR ucast b"
    by (simp add: fnv_step_def)
  then show ?thesis by (simp add: xor.assoc mult_fnv_prime_inj)
qed

lemma fnv_step_inj2: "fnv_step h b = fnv_step h b' \<Longrightarrow> b = b'"
proof -
  assume "fnv_step h b = fnv_step h b'"
  then have "(h * fnv_prime) XOR ((h * fnv_prime) XOR ucast b) = (h * fnv_prime) XOR ((h * fnv_prime) XOR ucast b')"
    by (simp add: fnv_step_def)
  then have "(ucast b :: u64) = ucast b'" by (simp flip: xor.assoc)
  then have "(ucast (ucast b :: u64) :: u8) = ucast (ucast b' :: u64)" by simp
  then show ?thesis by (simp add: ucast_up_ucast_id is_up.rep_eq)
qed

lemma foldl_fnv_inj: "foldl fnv_step h bs = foldl fnv_step h' bs \<Longrightarrow> h = h'"
  by (induction bs arbitrary: h h') (auto dest: fnv_step_inj1)

lemma fnv64_one_byte:
  assumes "b \<noteq> b'"
  shows "fnv64 (xs @ b # ys) \<noteq> fnv64 (xs @ b' # ys)"
  using assms by (auto simp: fnv64_def dest!: foldl_fnv_inj fnv_step_inj2)

text \<open>The eight-bit shard number of a key.\<close>

definition shard_index :: "u64 \<Rightarrow> nat" where
  "shard_index key = unat (key AND (256 - 1))"

lemma shard_index_less [simp]: "shard_index key < 256"
proof -
  have "unat (key AND 255) \<le> unat (255 :: u64)"
    by (rule word_and_le1 [THEN word_le_nat_alt [THEN iffD1]])
  then show ?thesis by (simp add: shard_index_def)
qed

lemma shard_index_mod: "shard_index key = unat key mod 256"
proof -
  have "key AND 255 = take_bit 8 key"
    by (simp add: take_bit_eq_mask mask_eq_exp_minus_1 del: take_bit_eq_mod)
  then have "unat (key AND 255) = take_bit 8 (unat key)"
    by (simp only: unsigned_take_bit_eq)
  then show ?thesis by (simp add: shard_index_def take_bit_eq_mod)
qed

section \<open>Properties\<close>

text \<open>The cache key does not depend on the case of the name: two questions of the same type
  whose names agree up to ASCII case have the same key, whatever bytes the names hold.\<close>

theorem hash_case_insensitive:
  assumes "q_Qtype q = q_Qtype q'" and "to_lower (q_Name q) = to_lower (q_Name q')"
  shows "Hash q cd = Hash q' cd"
  using hash_input_fold [OF assms] by (simp add: Hash_def)

theorem hash_case_insensitive_witness:
  "Hash \<lparr>q_Name = ''goOgle.com.'', q_Qtype = 1, q_Qclass = 255\<rparr> [] =
   Hash \<lparr>q_Name = ''google.COM.'', q_Qtype = 1, q_Qclass = 1\<rparr> []"
  by (rule hash_case_insensitive) code_simp+

text \<open>The key separates names at distance one: two ASCII names of the same length and type that
  differ, after folding the case, in exactly one position have different keys.\<close>

theorem hash_separates_one_position:
  assumes "ascii (q_Name q)" "ascii (q_Name q')" "q_Qtype q = q_Qtype q'"
    and "to_lower (q_Name q) = xs @ c # ys" "to_lower (q_Name q') = xs @ c' # ys" "c \<noteq> c'"
  shows "Hash q cd \<noteq> Hash q' cd"
proof -
  let ?p = "[ucast (drop_bit 8 (q_Qtype q)), ucast (q_Qtype q)] @ (if 0 < length cd \<and> cd ! 0 then [1] else [])"
  have lw: "map (\<lambda>c. byte_of (lower_byte c)) (rune_starts (q_Name p)) = map byte_of (to_lower (q_Name p))"
    if "ascii (q_Name p)" for p
    using that by (simp add: rune_starts_ascii to_lower_def)
  have "hash_input q cd = (?p @ map byte_of xs) @ byte_of c # map byte_of ys"
    using assms lw [of q] by (simp add: hash_input_def)
  moreover have "hash_input q' cd = (?p @ map byte_of xs) @ byte_of c' # map byte_of ys"
    using assms lw [of q'] by (simp add: hash_input_def)
  moreover have "byte_of c \<noteq> byte_of c'"
    using assms(6) by (simp add: byte_of_inj)
  ultimately show ?thesis
    unfolding Hash_def by (simp only: fnv64_one_byte not_False_eq_True)
qed

theorem hash_separates_one_position_witness:
  "Hash \<lparr>q_Name = ''a.com.'', q_Qtype = 1, q_Qclass = 1\<rparr> [] \<noteq>
   Hash \<lparr>q_Name = ''B.com.'', q_Qtype = 1, q_Qclass = 1\<rparr> []"
  by (rule hash_separates_one_position [of _ _ "[]" "CHR ''a''" "''.com.''" "CHR ''b''"])
     code_simp+

text \<open>Names that are not ASCII collide: the loop of \<^verbatim>\<open>Hash\<close> ranges over runes and takes one byte
  of each, so two names that differ only in the last byte of a two-byte rune have the same key,
  whatever their type.\<close>

theorem hash_two_byte_rune_collision:
  assumes "0xC2 \<le> (of_char c :: nat)" "(of_char c :: nat) \<le> 0xDF"
    and "0x80 \<le> (of_char d :: nat)" "(of_char d :: nat) \<le> 0xBF"
    and "0x80 \<le> (of_char e :: nat)" "(of_char e :: nat) \<le> 0xBF"
  shows "Hash \<lparr>q_Name = c # d # s, q_Qtype = t, q_Qclass = k\<rparr> cd =
         Hash \<lparr>q_Name = c # e # s, q_Qtype = t, q_Qclass = k\<rparr> cd"
proof -
  have "rune_len (c # x # s) = 2" if "0x80 \<le> (of_char x :: nat)" "(of_char x :: nat) \<le> 0xBF" for x
    using assms(1,2) that by (simp add: rune_len_def byte_in_def)
  with assms show ?thesis by (simp add: Hash_def hash_input_def rune_starts.simps(2))
qed

theorem hash_two_byte_rune_collision_witness:
  "Hash \<lparr>q_Name = CHR 0xC3 # CHR 0xA9 # ''.com.'', q_Qtype = 1, q_Qclass = 1\<rparr> [] =
   Hash \<lparr>q_Name = CHR 0xC3 # CHR 0xA8 # ''.com.'', q_Qtype = 1, q_Qclass = 1\<rparr> []"
  by (rule hash_two_byte_rune_collision) simp_all

text \<open>The test vector of \<^verbatim>\<open>cache/hash_test.go\<close>.\<close>

lemma hash_test_vector:
  "Hash \<lparr>q_Name = ''goOgle.com.'', q_Qtype = 1, q_Qclass = 255\<rparr> [] = 3399771970408683746"
  by (simp add: Hash_def hash_input_def fnv64_def fnv_step_def fnv_offset_def fnv_prime_def
      rune_starts_ascii ascii_def lower_byte_def byte_of_def)

end
