(* ===== verification/Cache_Shard.thy ===== *)
theory Cache_Shard
  imports Cache_Hash
begin

text \<open>
  A shard (\<^verbatim>\<open>cache/shard.go\<close>): a bounded map with random eviction, the storage of the query
  cache and of the error cache. The iteration that picks the victim of \<^verbatim>\<open>Evict\<close> is driven by
  a number, one for each call.

  The locale \<open>kv_shard\<close> states what the two caches rely on; the lemmas about an array of shards
  addressed by the low byte of the key are proved once inside it, and the interpretation
  \<open>sh\<close> discharges its laws for the model of the code.
\<close>

section \<open>The shard\<close>

record 'v shard =
  sh_items :: "(u64, 'v) gmap"
  sh_size :: int

definition newShard :: "int \<Rightarrow> 'v shard" where
  "newShard sz = \<lparr>sh_items = [], sh_size = sz\<rparr>"

definition shard_Len :: "'v shard \<Rightarrow> int" where
  "shard_Len s = int (length (sh_items s))"

definition shard_Get :: "'v shard \<Rightarrow> u64 \<Rightarrow> 'v option" where
  "shard_Get s key = gmap_get (sh_items s) key"

definition shard_Remove :: "u64 \<Rightarrow> 'v shard \<Rightarrow> 'v shard" where
  "shard_Remove key s = s\<lparr>sh_items := gmap_del key (sh_items s)\<rparr>"

text \<open>\<^verbatim>\<open>Evict\<close>: the first key of an iteration over the items is removed, if there is one.\<close>

definition shard_Evict :: "nat \<Rightarrow> 'v shard \<Rightarrow> 'v shard" where
  "shard_Evict r s =
     (case perm_by r (gmap_keys (sh_items s)) of [] \<Rightarrow> s | key # _ \<Rightarrow> shard_Remove key s)"

definition shard_Set :: "nat \<Rightarrow> u64 \<Rightarrow> 'v \<Rightarrow> 'v shard \<Rightarrow> 'v shard" where
  "shard_Set r key el s =
     (let l = shard_Len s;
          s1 = (if l + 1 > sh_size s then shard_Evict r s else s)
      in s1\<lparr>sh_items := gmap_set key el (sh_items s1)\<rparr>)"

text \<open>The invariant: keys are distinct and the shard is not over its size.\<close>

definition shard_inv :: "'v shard \<Rightarrow> bool" where
  "shard_inv s \<longleftrightarrow> gmap_ok (sh_items s) \<and> 1 \<le> sh_size s \<and> shard_Len s \<le> sh_size s"

section \<open>Lemmas\<close>

lemma shard_size_ops [simp]:
  "sh_size (shard_Remove key s) = sh_size s" "sh_size (shard_Evict r s) = sh_size s"
  "sh_size (shard_Set r key el s) = sh_size s"
  by (simp_all add: shard_Remove_def shard_Evict_def shard_Set_def Let_def split: list.split)

lemma shard_Get_Remove: "shard_Get (shard_Remove key s) k = (if k = key then None else shard_Get s k)"
  by (simp add: shard_Get_def shard_Remove_def)

lemma shard_Get_Evict: "shard_Get (shard_Evict r s) k \<in> {shard_Get s k, None}"
  by (auto simp: shard_Evict_def shard_Get_Remove split: list.split)

lemma shard_Get_Set_same [simp]: "shard_Get (shard_Set r key el s) key = Some el"
  by (simp add: shard_Get_def shard_Set_def Let_def)

lemma shard_Get_Set_other: "k \<noteq> key \<Longrightarrow> shard_Get (shard_Set r key el s) k \<in> {shard_Get s k, None}"
  using shard_Get_Evict [of r s k] by (auto simp: shard_Get_def shard_Set_def Let_def)

lemma shard_Get_Set_room:
  "shard_Len s < sh_size s \<Longrightarrow> k \<noteq> key \<Longrightarrow> shard_Get (shard_Set r key el s) k = shard_Get s k"
  by (simp add: shard_Get_def shard_Set_def Let_def)

lemma shard_Len_Remove:
  assumes "gmap_ok (sh_items s)"
  shows "shard_Len (shard_Remove key s) = (if shard_Get s key = None then shard_Len s else shard_Len s - 1)"
proof (cases "shard_Get s key")
  case None
  then show ?thesis by (simp add: shard_Len_def shard_Remove_def shard_Get_def gmap_del_absent)
next
  case (Some v)
  then have "Suc (length (gmap_del key (sh_items s))) = length (sh_items s)"
    using assms by (intro length_gmap_del) (simp_all add: shard_Get_def)
  with Some show ?thesis by (simp add: shard_Len_def shard_Remove_def)
qed

lemma shard_ok_Evict: "gmap_ok (sh_items s) \<Longrightarrow> gmap_ok (sh_items (shard_Evict r s))"
  by (auto simp: shard_Evict_def shard_Remove_def split: list.split)

lemma shard_Len_Evict:
  assumes "gmap_ok (sh_items s)" and "sh_items s \<noteq> []"
  shows "shard_Len (shard_Evict r s) = shard_Len s - 1"
proof -
  obtain k ks where p: "perm_by r (gmap_keys (sh_items s)) = k # ks"
    using assms(2) by (metis length_perm_by length_0_conv list.exhaust map_is_Nil_conv)
  then have "k \<in> set (gmap_keys (sh_items s))"
    by (metis list.set_intros(1) set_perm_by)
  then have "shard_Get s k \<noteq> None"
    by (auto simp: shard_Get_def map_of_eq_None_iff)
  with p assms(1) show ?thesis
    by (simp add: shard_Evict_def shard_Len_Remove)
qed

lemma shard_inv_Set [inv_intros]:
  assumes "shard_inv s"
  shows "shard_inv (shard_Set r key el s)"
proof -
  define s1 where "s1 = (if shard_Len s + 1 > sh_size s then shard_Evict r s else s)"
  have ok: "gmap_ok (sh_items s)" and sz: "1 \<le> sh_size s" "shard_Len s \<le> sh_size s"
    using assms by (simp_all add: shard_inv_def)
  have "shard_Len s1 + 1 \<le> sh_size s"
  proof (cases "shard_Len s + 1 > sh_size s")
    case True
    with sz have "sh_items s \<noteq> []" by (auto simp: shard_Len_def)
    with True sz ok show ?thesis by (simp add: s1_def shard_Len_Evict)
  qed (simp add: s1_def)
  moreover have "shard_Len (s1\<lparr>sh_items := gmap_set key el (sh_items s1)\<rparr>) \<le> shard_Len s1 + 1"
    using length_gmap_set_le [of key el "sh_items s1"] by (simp add: shard_Len_def)
  moreover have "gmap_ok (sh_items s1)"
    using ok by (simp add: s1_def shard_ok_Evict)
  moreover have "shard_Set r key el s = s1\<lparr>sh_items := gmap_set key el (sh_items s1)\<rparr>"
    by (simp add: shard_Set_def s1_def Let_def)
  moreover have "sh_size s1 = sh_size s" by (simp add: s1_def)
  ultimately show ?thesis
    using sz by (simp add: shard_inv_def)
qed

lemma shard_inv_Remove [inv_intros]: "shard_inv s \<Longrightarrow> shard_inv (shard_Remove key s)"
  by (auto simp: shard_inv_def shard_Len_Remove) (auto simp: shard_Remove_def)

lemma shard_inv_new [inv_intros]: "1 \<le> sz \<Longrightarrow> shard_inv (newShard sz)"
  by (simp add: shard_inv_def newShard_def shard_Len_def)

section \<open>What the caches rely on\<close>

locale kv_shard =
  fixes get :: "'s \<Rightarrow> u64 \<Rightarrow> 'v option"
    and put :: "nat \<Rightarrow> u64 \<Rightarrow> 'v \<Rightarrow> 's \<Rightarrow> 's"
    and remove :: "u64 \<Rightarrow> 's \<Rightarrow> 's"
    and len :: "'s \<Rightarrow> int"
    and cap :: "'s \<Rightarrow> int"
    and inv :: "'s \<Rightarrow> bool"
  assumes get_put_same: "inv s \<Longrightarrow> get (put r k v s) k = Some v"
    and get_put_other: "inv s \<Longrightarrow> k' \<noteq> k \<Longrightarrow> get (put r k v s) k' \<in> {get s k', None}"
    and get_remove: "inv s \<Longrightarrow> get (remove k s) k' = (if k' = k then None else get s k')"
    and inv_put: "inv s \<Longrightarrow> inv (put r k v s)"
    and inv_remove: "inv s \<Longrightarrow> inv (remove k s)"
    and cap_put: "inv s \<Longrightarrow> cap (put r k v s) = cap s"
    and cap_remove: "inv s \<Longrightarrow> cap (remove k s) = cap s"
    and len_cap: "inv s \<Longrightarrow> len s \<le> cap s"
    and len_nonneg: "inv s \<Longrightarrow> 0 \<le> len s"
begin

definition array_ok :: "int \<Rightarrow> 's list \<Rightarrow> bool" where
  "array_ok c ss \<longleftrightarrow> length ss = 256 \<and> (\<forall>s \<in> set ss. inv s \<and> cap s = c)"

lemma array_nth: "array_ok c ss \<Longrightarrow> inv (ss ! shard_index k) \<and> cap (ss ! shard_index k) = c"
  by (simp add: array_ok_def)

lemma array_ok_put:
  "array_ok c ss \<Longrightarrow> array_ok c (ss[shard_index k := put r k v (ss ! shard_index k)])"
  using array_nth [of c ss k]
  by (auto simp: array_ok_def inv_put cap_put dest!: set_update_subset_insert [THEN subsetD])

lemma array_ok_remove:
  "array_ok c ss \<Longrightarrow> array_ok c (ss[shard_index k := remove k (ss ! shard_index k)])"
  using array_nth [of c ss k]
  by (auto simp: array_ok_def inv_remove cap_remove dest!: set_update_subset_insert [THEN subsetD])

lemma array_get_put_same:
  "array_ok c ss \<Longrightarrow> get (ss[shard_index k := put r k v (ss ! shard_index k)] ! shard_index k) k = Some v"
  using array_nth [of c ss k] by (simp add: array_ok_def get_put_same)

lemma array_get_put_other:
  assumes "array_ok c ss" and "k' \<noteq> k"
  shows "get (ss[shard_index k := put r k v (ss ! shard_index k)] ! shard_index k') k'
     \<in> {get (ss ! shard_index k') k', None}"
proof (cases "shard_index k = shard_index k'")
  case True
  then show ?thesis
    using assms array_nth [OF assms(1), of k'] get_put_other by (simp add: array_ok_def)
qed simp

lemma array_get_remove:
  assumes "array_ok c ss"
  shows "get (ss[shard_index k := remove k (ss ! shard_index k)] ! shard_index k') k'
     = (if k' = k then None else get (ss ! shard_index k') k')"
proof (cases "shard_index k = shard_index k'")
  case True
  then show ?thesis
    using assms array_nth [OF assms, of k'] by (simp add: array_ok_def get_remove)
qed auto

lemma array_len_bound: "array_ok c ss \<Longrightarrow> sum_list (map len ss) \<le> 256 * c"
proof -
  assume ok: "array_ok c ss"
  have "sum_list (map len ss) \<le> sum_list (map (\<lambda>_. c) ss)"
    using ok by (intro sum_list_mono) (auto simp: array_ok_def dest: len_cap)
  also have "\<dots> = 256 * c"
    using ok by (simp add: sum_list_triv array_ok_def)
  finally show ?thesis .
qed

end

interpretation sh: kv_shard shard_Get shard_Set shard_Remove shard_Len sh_size shard_inv
  by unfold_locales
     (auto simp: shard_Get_Remove inv_intros dest: shard_Get_Set_other [THEN subsetD [OF subset_refl]],
      auto simp: shard_inv_def shard_Len_def)

text \<open>\<^verbatim>\<open>shardSize\<close> and the constructors' size of one shard: an equal part, but at least four.\<close>

definition shardSize :: nat where
  "shardSize = 256"

definition shard_part :: "int \<Rightarrow> int" where
  "shard_part sz = (let ssize = (if sz < 0 then - ((- sz) div 256) else sz div 256)
                      in if ssize < 4 then 4 else ssize)"

lemma shard_part_ge: "4 \<le> shard_part sz"
  by (simp add: shard_part_def Let_def)

lemma shard_part_max: "shard_part sz = max 4 (sz div 256)"
proof (cases "sz < 0")
  case True
  then have "0 \<le> - sz div 256" "sz div 256 < 4" by linarith+
  with True show ?thesis by (simp add: shard_part_def Let_def)
qed (auto simp: shard_part_def Let_def)

lemma shard_array_new: "sh.array_ok (shard_part sz) (replicate shardSize (newShard (shard_part sz)))"
proof -
  have "1 \<le> shard_part sz" using shard_part_ge [of sz] by simp
  then show ?thesis
    unfolding sh.array_ok_def by (simp add: shardSize_def shard_inv_new) (simp add: newShard_def)
qed

end
