(* ===== verification/Cache_Deadline.thy ===== *)
theory Cache_Deadline
  imports Sdns_Prelude
begin

text \<open>
  The contract the three caches with a time to live share: an entry has a deadline, a lookup
  before it succeeds and does not move it, a lookup at or after it fails. The locale
  \<open>deadline_entry\<close> states it for the step one lookup makes on an entry; its lemma about a
  sequence of lookups says that how often an entry is looked up does not change how long it
  lives. The error cache, the name-server cache and the query cache interpret it on the
  definitions of their \<^verbatim>\<open>Get\<close>.
\<close>

datatype cache_err = ErrCacheNotFound | ErrCacheExpired

locale deadline_entry =
  fixes probe :: "time \<Rightarrow> 'e \<Rightarrow> 'e option"
    and stamp :: "'e \<Rightarrow> time"
    and deadline :: "'e \<Rightarrow> int"
    and wf :: "'e \<Rightarrow> bool"
  assumes probe_iff:
      "\<lbrakk>wf e; stamp e \<le> now; now - stamp e < second * 2 ^ 32\<rbrakk>
       \<Longrightarrow> probe now e \<noteq> None \<longleftrightarrow> now div second < deadline e"
    and probe_step:
      "\<lbrakk>wf e; stamp e \<le> now; now - stamp e < second * 2 ^ 32; probe now e = Some e'\<rbrakk>
       \<Longrightarrow> wf e' \<and> deadline e' = deadline e \<and> stamp e \<le> stamp e' \<and> stamp e' \<le> now"
begin

fun probes :: "time list \<Rightarrow> 'e \<Rightarrow> 'e option" where
  "probes [] e = Some e"
| "probes (t # ts) e = (case probe t e of None \<Rightarrow> None | Some e' \<Rightarrow> probes ts e')"

lemma probes_deadline:
  assumes "wf e" "sorted ts" "\<forall>t \<in> set ts. stamp e \<le> t \<and> t - stamp e < second * 2 ^ 32"
  shows "probes ts e \<noteq> None \<longleftrightarrow> (\<forall>t \<in> set ts. t div second < deadline e)"
  using assms
proof (induction ts arbitrary: e)
  case (Cons t ts)
  show ?case
  proof (cases "probe t e")
    case None
    with Cons.prems probe_iff [of e t] show ?thesis by auto
  next
    case (Some e')
    have e': "wf e'" "deadline e' = deadline e" "stamp e \<le> stamp e'" "stamp e' \<le> t"
      using probe_step [of e t e'] Some Cons.prems by auto
    have "t div second < deadline e"
      using probe_iff [of e t] Some Cons.prems by auto
    moreover have "probes ts e' \<noteq> None \<longleftrightarrow> (\<forall>t \<in> set ts. t div second < deadline e')"
      using Cons.prems e' by (intro Cons.IH) force+
    ultimately show ?thesis using Some e' by simp
  qed
qed simp

end

text \<open>The seconds between a truncated stamp and a later time.\<close>

lemma elapsed_since_stamp:
  assumes "s \<le> now" "now - s < second * 2 ^ 32" "s mod second = 0"
  shows "uint (elapsed_sec (trunc_sec now) s) = now div second - s div second"
proof -
  have s: "trunc_sec s = s" using assms(3) by (simp add: trunc_sec_def)
  have "trunc_sec now - trunc_sec s < second * 2 ^ 32"
    using assms(2) trunc_sec_le [of now] by (simp add: s)
  from elapsed_sec_exact [OF assms(1) this] show ?thesis by (simp add: s)
qed

end
