(* ===== verification/Error_Cache.thy ===== *)
theory Error_Cache
  imports Cache_Shard Cache_Deadline
begin

text \<open>
  The error cache (\<^verbatim>\<open>cache/error_cache.go\<close>): a sharded set of keys, each with the second at
  which it was stored. \<^verbatim>\<open>Get\<close> returns a nil error while the entry lives. The lemmas give
  lookup after store, expiry at the configured time to live, the frame of every operation,
  and the bound on the number of entries over any run of operations.
\<close>

record error_cache =
  ec_shards :: "time shard list"
  ec_ttl :: u32

definition NewErrorCache :: "int \<Rightarrow> u32 \<Rightarrow> error_cache" where
  "NewErrorCache sz ttl = \<lparr>ec_shards = replicate shardSize (newShard (shard_part sz)), ec_ttl = ttl\<rparr>"

definition ErrorCache_Remove :: "u64 \<Rightarrow> error_cache \<Rightarrow> error_cache" where
  "ErrorCache_Remove key c =
     (let shard = shard_index key
      in c\<lparr>ec_shards := (ec_shards c)[shard := shard_Remove key (ec_shards c ! shard)]\<rparr>)"

text \<open>\<^verbatim>\<open>Get\<close>: \<open>None\<close> is the nil error. Only times are ever stored, so the type assertion on the
  element cannot fail.\<close>

definition ErrorCache_Get :: "time \<Rightarrow> u64 \<Rightarrow> error_cache \<Rightarrow> cache_err option \<times> error_cache" where
  "ErrorCache_Get clock key c =
     (let shard = shard_index key
      in case shard_Get (ec_shards c ! shard) key of
           None \<Rightarrow> (Some ErrCacheNotFound, c)
         | Some t \<Rightarrow>
             (let now = trunc_sec clock; elapsed = elapsed_sec now t
              in if elapsed \<ge> ec_ttl c then (Some ErrCacheExpired, ErrorCache_Remove key c)
                 else (None, c)))"

definition ErrorCache_Set :: "nat \<Rightarrow> time \<Rightarrow> u64 \<Rightarrow> error_cache \<Rightarrow> error_cache" where
  "ErrorCache_Set r clock key c =
     (let shard = shard_index key
      in c\<lparr>ec_shards := (ec_shards c)[shard := shard_Set r key (trunc_sec clock) (ec_shards c ! shard)]\<rparr>)"

definition ErrorCache_Len :: "error_cache \<Rightarrow> int" where
  "ErrorCache_Len c = sum_list (map shard_Len (ec_shards c))"

definition ec_lookup :: "error_cache \<Rightarrow> u64 \<Rightarrow> time option" where
  "ec_lookup c key = shard_Get (ec_shards c ! shard_index key) key"

definition error_cache_inv :: "int \<Rightarrow> error_cache \<Rightarrow> bool" where
  "error_cache_inv n c \<longleftrightarrow>
     length (ec_shards c) = shardSize \<and> (\<forall>s \<in> set (ec_shards c). shard_inv s \<and> sh_size s = n)"

section \<open>Lemmas\<close>

lemma error_cache_inv_array: "error_cache_inv n c \<longleftrightarrow> sh.array_ok n (ec_shards c)"
  by (simp add: error_cache_inv_def sh.array_ok_def shardSize_def)

lemma error_cache_inv_new [inv_intros]: "error_cache_inv (shard_part sz) (NewErrorCache sz ttl)"
  using shard_array_new by (simp add: error_cache_inv_array NewErrorCache_def)

lemma error_cache_inv_Remove [inv_intros]: "error_cache_inv n c \<Longrightarrow> error_cache_inv n (ErrorCache_Remove key c)"
  by (simp add: error_cache_inv_array ErrorCache_Remove_def Let_def sh.array_ok_remove)

lemma error_cache_inv_Set [inv_intros]: "error_cache_inv n c \<Longrightarrow> error_cache_inv n (ErrorCache_Set r t key c)"
  by (simp add: error_cache_inv_array ErrorCache_Set_def Let_def sh.array_ok_put)

lemma error_cache_inv_Get [inv_intros]:
  "error_cache_inv n c \<Longrightarrow> error_cache_inv n (snd (ErrorCache_Get t key c))"
  by (auto simp: ErrorCache_Get_def Let_def inv_intros split: option.split)

lemma ec_ttl_ops [simp]:
  "ec_ttl (ErrorCache_Remove key c) = ec_ttl c" "ec_ttl (ErrorCache_Set r t key c) = ec_ttl c"
  "ec_ttl (snd (ErrorCache_Get t key c)) = ec_ttl c"
  by (simp_all add: ErrorCache_Remove_def ErrorCache_Set_def ErrorCache_Get_def Let_def split: option.split)

lemma ec_lookup_Set_same: "error_cache_inv n c \<Longrightarrow> ec_lookup (ErrorCache_Set r t key c) key = Some (trunc_sec t)"
  by (simp add: ec_lookup_def ErrorCache_Set_def Let_def error_cache_inv_array sh.array_get_put_same)

lemma ec_lookup_Set_other:
  "error_cache_inv n c \<Longrightarrow> k \<noteq> key \<Longrightarrow> ec_lookup (ErrorCache_Set r t key c) k \<in> {ec_lookup c k, None}"
  using sh.array_get_put_other [of n "ec_shards c" k key r "trunc_sec t"]
  by (simp add: ec_lookup_def ErrorCache_Set_def Let_def error_cache_inv_array)

lemma ec_lookup_Remove:
  "error_cache_inv n c \<Longrightarrow> ec_lookup (ErrorCache_Remove key c) k = (if k = key then None else ec_lookup c k)"
  using sh.array_get_remove [of n "ec_shards c" key k]
  by (simp add: ec_lookup_def ErrorCache_Remove_def Let_def error_cache_inv_array)

lemma ErrorCache_Get_lookup:
  "ErrorCache_Get clock key c =
     (case ec_lookup c key of
        None \<Rightarrow> (Some ErrCacheNotFound, c)
      | Some t \<Rightarrow> if elapsed_sec (trunc_sec clock) t \<ge> ec_ttl c
                  then (Some ErrCacheExpired, ErrorCache_Remove key c) else (None, c))"
  by (simp add: ErrorCache_Get_def ec_lookup_def Let_def split: option.split)

text \<open>What one lookup does to the time stored under the key.\<close>

definition error_probe :: "u32 \<Rightarrow> time \<Rightarrow> time \<Rightarrow> time option" where
  "error_probe ttl clock t = (if elapsed_sec (trunc_sec clock) t \<ge> ttl then None else Some t)"

interpretation ec: deadline_entry "error_probe ttl" "\<lambda>t. t" "\<lambda>t. t div second + uint ttl"
    "\<lambda>t. t mod second = 0" for ttl :: u32
  by unfold_locales (auto simp: error_probe_def word_le_def elapsed_since_stamp not_le split: if_splits)

lemma ErrorCache_Get_probe:
  "ec_lookup c key = Some t \<Longrightarrow> fst (ErrorCache_Get clock key c) = None \<longleftrightarrow> error_probe (ec_ttl c) clock t \<noteq> None"
  by (simp add: ErrorCache_Get_lookup error_probe_def)

section \<open>Runs\<close>

datatype ec_op = EGet time u64 | ESet nat time u64 | ERemove u64

fun ec_step :: "error_cache \<Rightarrow> ec_op \<Rightarrow> error_cache" where
  "ec_step c (EGet t k) = snd (ErrorCache_Get t k c)"
| "ec_step c (ESet r t k) = ErrorCache_Set r t k c"
| "ec_step c (ERemove k) = ErrorCache_Remove k c"

lemma error_cache_inv_step: "error_cache_inv n c \<Longrightarrow> error_cache_inv n (ec_step c x)"
  by (cases x) (simp_all add: inv_intros)

lemma error_cache_inv_run: "error_cache_inv n c \<Longrightarrow> error_cache_inv n (foldl ec_step c xs)"
  by (induction xs arbitrary: c) (simp_all add: error_cache_inv_step)

section \<open>Properties\<close>

text \<open>The error cache never grows past its configured size: after any sequence of lookups, stores
  and removals, with any choice of evicted entries, it holds at most 256 times the size of one
  shard, which is the configured size divided by 256 but at least four.\<close>

theorem error_cache_bounded:
  "ErrorCache_Len (foldl ec_step (NewErrorCache sz ttl) xs) \<le> 256 * shard_part sz"
proof -
  have "error_cache_inv (shard_part sz) (foldl ec_step (NewErrorCache sz ttl) xs)"
    by (intro error_cache_inv_run error_cache_inv_new)
  then show ?thesis
    unfolding ErrorCache_Len_def error_cache_inv_array by (rule sh.array_len_bound)
qed

text \<open>C23. A stored error is reported until its time to live is over and not after: a lookup of the key
  at a time within the range of the 32-bit second counter answers nil exactly when fewer than
  \<^verbatim>\<open>ttl\<close> whole seconds have passed since the store; otherwise it answers \<^verbatim>\<open>ErrCacheExpired\<close> and the
  entry is gone.\<close>

theorem error_cache_expiry:
  assumes "error_cache_inv n c" "t0 \<le> t" "t - trunc_sec t0 < second * 2 ^ 32"
  shows "ErrorCache_Get t key (ErrorCache_Set r t0 key c) =
    (if t div second - t0 div second < uint (ec_ttl c)
     then (None, ErrorCache_Set r t0 key c)
     else (Some ErrCacheExpired, ErrorCache_Remove key (ErrorCache_Set r t0 key c)))"
proof -
  have "uint (elapsed_sec (trunc_sec t) (trunc_sec t0)) = t div second - t0 div second"
    using assms(2,3) elapsed_since_stamp [of "trunc_sec t0" t] trunc_sec_le [of t0]
    by (simp add: trunc_sec_div)
  then show ?thesis
    using assms(1) by (simp add: ErrorCache_Get_lookup ec_lookup_Set_same word_le_def not_less)
qed

theorem error_cache_expiry_witness:
  "ErrorCache_Get (5 * second) 7 (ErrorCache_Set 0 1 7 (NewErrorCache 1024 5)) =
     (Some ErrCacheExpired, ErrorCache_Remove 7 (ErrorCache_Set 0 1 7 (NewErrorCache 1024 5)))"
  using error_cache_expiry [OF error_cache_inv_new, of 1 "5 * second" 7 0 1024 5]
  by (simp add: NewErrorCache_def trunc_sec_def second_def)

end
