(* ===== verification/Auth_Servers.thy ===== *)
theory Auth_Servers
  imports Dns_Msg
begin

text \<open>
  Authoritative servers and their ranking by round-trip time (\<^verbatim>\<open>cache/authserver.go\<close>).
  Counters and round-trip times are 64-bit integers, the call counter is a 32-bit one.
  \<^verbatim>\<open>sort.Slice\<close> is not stable: which of the orders it produces is a parameter, a number that
  picks a permutation before a stable sort, so that every outcome the library may produce is
  covered. The lemmas show that sorting loses no server and that the list is ordered by
  average round-trip time after every twentieth call.
\<close>

record auth_server =
  as_Host :: string
  as_Rtt :: "64 word"
  as_Count :: "64 word"

record auth_servers =
  as_called :: "32 word"
  as_List :: "auth_server list"

definition NewAuthServer :: "string \<Rightarrow> auth_server" where
  "NewAuthServer host = \<lparr>as_Host = host, as_Rtt = 0, as_Count = 0\<rparr>"

definition new_AuthServers :: "string list \<Rightarrow> auth_servers" where
  "new_AuthServers hosts = \<lparr>as_called = 0, as_List = map NewAuthServer hosts\<rparr>"

text \<open>Go's signed division truncates towards zero.\<close>

definition sdiv64 :: "64 word \<Rightarrow> 64 word \<Rightarrow> 64 word" where
  "sdiv64 a b = word_of_int (sgn (sint a) * sgn (sint b) * (\<bar>sint a\<bar> div \<bar>sint b\<bar>))"

definition as_average :: "auth_server \<Rightarrow> auth_server" where
  "as_average s =
     (if sint (as_Count s) > 0 then s\<lparr>as_Rtt := sdiv64 (as_Rtt s) (as_Count s), as_Count := 1\<rparr> else s)"

text \<open>Go's \<^verbatim>\<open>%\<close> on the signed counter is zero exactly at the multiples of twenty.\<close>

definition TrySort :: "nat \<Rightarrow> auth_servers \<Rightarrow> auth_servers" where
  "TrySort r s =
     (let s1 = s\<lparr>as_called := as_called s + 1\<rparr>
      in if sint (as_called s1) mod 20 = 0
         then s1\<lparr>as_List := sort_key (\<lambda>a. sint (as_Rtt a)) (perm_by r (map as_average (as_List s1))),
                 as_called := 0\<rparr>
         else s1)"

text \<open>What \<^verbatim>\<open>exchange\<close> records of a server when it returns.\<close>

definition as_record :: "64 word \<Rightarrow> auth_server \<Rightarrow> auth_server" where
  "as_record rtt s = s\<lparr>as_Rtt := as_Rtt s + rtt, as_Count := as_Count s + 1\<rparr>"

text \<open>\<^verbatim>\<open>Duration.Round\<close> to milliseconds, which saturates at the ends of the 64-bit range, and \<^verbatim>\<open>Duration.String\<close>.\<close>

definition round_ms :: "int \<Rightarrow> int" where
  "round_ms d =
     (let m = 1000000; r = \<bar>d\<bar> mod m
      in if d < 0
         then if 2 * r < m then d + r else max (- (2 ^ 63)) (d - m + r)
         else if 2 * r < m then d - r else min (2 ^ 63 - 1) (d + m - r))"

fun digits :: "nat \<Rightarrow> int \<Rightarrow> string" where
  "digits 0 v = []"
| "digits (Suc n) v = digits n (v div 10) @ [char_of (nat (48 + v mod 10))]"

definition fmt_frac :: "nat \<Rightarrow> int \<Rightarrow> string" where
  "fmt_frac prec v =
     (let frac = rev (dropWhile (\<lambda>c. c = CHR ''0'') (rev (digits prec v)))
      in itoa (nat (v div 10 ^ prec)) @ (if frac = [] then [] else dot # frac))"

definition duration_String :: "int \<Rightarrow> string" where
  "duration_String d =
     (let u = \<bar>d\<bar>; minutes = u div 60000000000;
          body = (if u < 1000 then itoa (nat u) @ ''ns''
            else if u < 1000000 then fmt_frac 3 u @ [char_of (0xC2 :: nat), char_of (0xB5 :: nat), CHR ''s'']
            else if u < 1000000000 then fmt_frac 6 u @ ''ms''
            else (if minutes \<ge> 60 then itoa (nat (minutes div 60)) @ ''h'' else []) @
                 (if minutes > 0 then itoa (nat (minutes mod 60)) @ ''m'' else []) @
                 fmt_frac 9 (u mod 60000000000) @ ''s'')
      in if u = 0 then ''0s'' else if d < 0 then CHR ''-'' # body else body)"

text \<open>\<^verbatim>\<open>AuthServer.String\<close> sets a count of zero to one before it divides by it.\<close>

definition AuthServer_String :: "auth_server \<Rightarrow> string \<times> auth_server" where
  "AuthServer_String a =
     (let a1 = (if as_Count a = 0 then a\<lparr>as_Count := 1\<rparr> else a)
      in (''host:'' @ as_Host a1 @ '' rtt:'' @ duration_String (round_ms (sint (sdiv64 (as_Rtt a1) (as_Count a1)))), a1))"

text \<open>\<^verbatim>\<open>equalServers\<close> of the resolver: the hosts, sorted and compared in order.\<close>

fun insert_string :: "string \<Rightarrow> string list \<Rightarrow> string list" where
  "insert_string x [] = [x]"
| "insert_string x (y # ys) = (if string_le x y then x # y # ys else y # insert_string x ys)"

definition sort_strings :: "string list \<Rightarrow> string list" where
  "sort_strings xs = foldr insert_string xs []"

definition equalServers :: "auth_servers \<Rightarrow> auth_servers \<Rightarrow> bool" where
  "equalServers s1 s2 =
     (let list1 = map as_Host (as_List s1); list2 = map as_Host (as_List s2)
      in if length list1 \<noteq> length list2 then False
         else list_all (\<lambda>(v, w). v = w) (zip (sort_strings list1) (sort_strings list2)))"

section \<open>Lemmas\<close>

lemma as_Host_average [simp]: "as_Host (as_average s) = as_Host s"
  by (simp add: as_average_def)

lemma TrySort_List:
  "as_List (TrySort r s) =
     (if sint (as_called s + 1) mod 20 = 0
      then sort_key (\<lambda>a. sint (as_Rtt a)) (perm_by r (map as_average (as_List s))) else as_List s)"
  by (simp add: TrySort_def Let_def)

lemma mset_insert_string [simp]: "mset (insert_string x xs) = add_mset x (mset xs)"
  by (induction xs) auto

lemma mset_sort_strings [simp]: "mset (sort_strings xs) = mset xs"
  by (induction xs) (simp_all add: sort_strings_def)

lemma sorted_insert_string: "sorted_wrt string_le xs \<Longrightarrow> sorted_wrt string_le (insert_string x xs)"
proof (induction xs)
  case (Cons y ys)
  have "set (insert_string x ys) = insert x (set ys)"
    by (metis mset_insert_string set_mset_add_mset_insert set_mset_mset)
  with Cons show ?case
    by (auto dest: string_le_trans) (metis string_le_linear)
qed simp

lemma sorted_sort_strings: "sorted_wrt string_le (sort_strings xs)"
  by (induction xs) (simp_all add: sort_strings_def sorted_insert_string)

lemma sorted_wrt_mset_unique:
  "sorted_wrt string_le xs \<Longrightarrow> sorted_wrt string_le ys \<Longrightarrow> mset xs = mset ys \<Longrightarrow> xs = ys"
proof (induction xs arbitrary: ys)
  case (Cons x xs)
  then obtain y zs where ys: "ys = y # zs" by (cases ys) auto
  have "x \<in> set ys" "y \<in> set (x # xs)"
    using Cons.prems(3) ys by (metis list.set_intros(1) set_mset_mset)+
  then have "x = y"
    using Cons.prems(1,2) ys string_le_antisym by auto
  with Cons ys show ?case by simp
qed simp

lemma zip_all_eq: "length xs = length ys \<Longrightarrow> list_all (\<lambda>(v, w). v = w) (zip xs ys) \<longleftrightarrow> xs = ys"
  by (induction xs ys rule: list_induct2) auto

lemma length_sort_strings [simp]: "length (sort_strings xs) = length xs"
  by (metis mset_sort_strings size_mset)

lemma equalServers_mset:
  "equalServers s1 s2 \<longleftrightarrow> mset (map as_Host (as_List s1)) = mset (map as_Host (as_List s2))"
proof -
  have "sort_strings xs = sort_strings ys \<longleftrightarrow> mset xs = mset ys" for xs ys
    by (metis mset_sort_strings sorted_sort_strings sorted_wrt_mset_unique)
  moreover have "length (as_List s1) = length (as_List s2)"
    if "mset (map as_Host (as_List s1)) = mset (map as_Host (as_List s2))"
    using arg_cong [OF that, of size] by simp
  ultimately show ?thesis
    unfolding equalServers_def Let_def by (auto simp: zip_all_eq)
qed

lemma TrySort_equal: "equalServers (TrySort r s) s"
  by (simp add: equalServers_mset TrySort_List multiset.map_comp o_def)

section \<open>Properties\<close>

text \<open>Ranking keeps the servers: for every outcome of the sort, \<^verbatim>\<open>TrySort\<close> leaves the same hosts in
  the list, and when the call counter reaches a multiple of twenty the list is ordered by the
  (averaged) round-trip time and the counter is reset.\<close>

theorem TrySort_ranks:
  "mset (map as_Host (as_List (TrySort r s))) = mset (map as_Host (as_List s)) \<and>
   (sint (as_called s + 1) mod 20 = 0 \<longrightarrow>
      sorted (map (\<lambda>a. sint (as_Rtt a)) (as_List (TrySort r s))) \<and> as_called (TrySort r s) = 0)"
  using TrySort_equal [of r s] by (simp add: equalServers_mset TrySort_List) (simp add: TrySort_def Let_def)

theorem TrySort_ranks_witness:
  "sint ((19 :: 32 word) + 1) mod 20 = 0 \<and>
   sorted (map (\<lambda>a. sint (as_Rtt a)) (as_List (TrySort 0 \<lparr>as_called = 19,
     as_List = [\<lparr>as_Host = ''a'', as_Rtt = 90, as_Count = 2\<rparr>, \<lparr>as_Host = ''b'', as_Rtt = 30, as_Count = 1\<rparr>]\<rparr>)))"
  using TrySort_ranks [of 0 "\<lparr>as_called = 19,
     as_List = [\<lparr>as_Host = ''a'', as_Rtt = 90, as_Count = 2\<rparr>, \<lparr>as_Host = ''b'', as_Rtt = 30, as_Count = 1\<rparr>]\<rparr>"]
  by simp

text \<open>The loop check of the resolver compares server sets as multisets: \<^verbatim>\<open>equalServers\<close> answers true
  exactly when the two lists hold the same hosts, in whatever order and with whatever
  statistics.\<close>

theorem equalServers_iff:
  "equalServers s1 s2 \<longleftrightarrow> mset (map as_Host (as_List s1)) = mset (map as_Host (as_List s2))"
  by (rule equalServers_mset)

end
