(* ===== verification/NS_Cache.thy ===== *)
theory NS_Cache
  imports Cache_Deadline Auth_Servers
begin

text \<open>
  The name-server cache (\<^verbatim>\<open>cache/ns_cache.go\<close>): for the key of a zone, a reference to its
  servers, the DS records of the delegation and a time to live that every \<^verbatim>\<open>Get\<close> counts
  down. A server list is shared with the resolver, so an entry holds its address
  (\<open>server_ref\<close>), not a copy. \<^verbatim>\<open>clear\<close>, which a background ticker runs every hour, ranges over
  the map in an arbitrary order.
\<close>

type_synonym server_ref = nat

record ns_entry =
  ns_Servers :: server_ref
  ns_Network :: string
  ns_DSRR :: "rr list"
  ns_TTL :: u32
  ns_UpdateTime :: time

record ns_cache =
  nc_m :: "(u64, ns_entry) gmap"

definition NewNSCache :: ns_cache where
  "NewNSCache = \<lparr>nc_m = []\<rparr>"

definition NSCache_Remove :: "u64 \<Rightarrow> ns_cache \<Rightarrow> ns_cache" where
  "NSCache_Remove key c = c\<lparr>nc_m := gmap_del key (nc_m c)\<rparr>"

definition NSCache_Get :: "time \<Rightarrow> u64 \<Rightarrow> ns_cache \<Rightarrow> (cache_err + ns_entry) \<times> ns_cache" where
  "NSCache_Get clock key c =
     (case gmap_get (nc_m c) key of
        None \<Rightarrow> (Inl ErrCacheNotFound, c)
      | Some ns \<Rightarrow>
          (let now = trunc_sec clock;
               elapsed = elapsed_sec now (ns_UpdateTime ns);
               ns1 = ns\<lparr>ns_UpdateTime := now\<rparr>
           in if elapsed \<ge> ns_TTL ns1 then (Inl ErrCacheExpired, NSCache_Remove key c)
              else let ns2 = ns1\<lparr>ns_TTL := ns_TTL ns1 - elapsed\<rparr>
                   in (Inr ns2, c\<lparr>nc_m := gmap_set key ns2 (nc_m c)\<rparr>)))"

definition NSCache_Set :: "time \<Rightarrow> u64 \<Rightarrow> rr list \<Rightarrow> u32 \<Rightarrow> server_ref \<Rightarrow> ns_cache \<Rightarrow> ns_cache" where
  "NSCache_Set clock key dsRR ttl servers c =
     c\<lparr>nc_m := gmap_set key \<lparr>ns_Servers = servers, ns_Network = ''v4'', ns_DSRR = dsRR, ns_TTL = ttl,
                              ns_UpdateTime = trunc_sec clock\<rparr> (nc_m c)\<rparr>"

definition NSCache_Exists :: "u64 \<Rightarrow> ns_cache \<Rightarrow> bool" where
  "NSCache_Exists key c \<longleftrightarrow> gmap_get (nc_m c) key \<noteq> None"

definition NSCache_Length :: "ns_cache \<Rightarrow> int" where
  "NSCache_Length c = int (length (nc_m c))"

definition NSCache_Full :: "ns_cache \<Rightarrow> bool" where
  "NSCache_Full c = False"

text \<open>The loop of \<^verbatim>\<open>clear\<close>: it stops at the first entry it deletes. The clock is read anew for
  each entry.\<close>

fun NSCache_clear_loop :: "(nat \<Rightarrow> time) \<Rightarrow> nat \<Rightarrow> (u64 \<times> ns_entry) list \<Rightarrow> ns_cache \<Rightarrow> ns_cache" where
  "NSCache_clear_loop clock i [] c = c"
| "NSCache_clear_loop clock i ((key, ns) # es) c =
     (if elapsed_sec (trunc_sec (clock i)) (ns_UpdateTime ns) \<ge> ns_TTL ns then NSCache_Remove key c
      else NSCache_clear_loop clock (Suc i) es c)"

definition NSCache_clear :: "nat \<Rightarrow> (nat \<Rightarrow> time) \<Rightarrow> ns_cache \<Rightarrow> ns_cache" where
  "NSCache_clear r clock c = NSCache_clear_loop clock 0 (perm_by r (nc_m c)) c"

text \<open>\<^verbatim>\<open>run\<close>: one \<^verbatim>\<open>clear\<close> per tick, each with the iteration order and the clock of that tick.\<close>

fun NSCache_run :: "(nat \<times> (nat \<Rightarrow> time)) list \<Rightarrow> ns_cache \<Rightarrow> ns_cache" where
  "NSCache_run [] c = c"
| "NSCache_run ((r, clock) # ticks) c = NSCache_run ticks (NSCache_clear r clock c)"

definition ns_cache_inv :: "ns_cache \<Rightarrow> bool" where
  "ns_cache_inv c \<longleftrightarrow> gmap_ok (nc_m c) \<and> (\<forall>(k, ns) \<in> set (nc_m c). ns_UpdateTime ns mod second = 0)"

section \<open>Lemmas\<close>

definition ns_probe :: "time \<Rightarrow> ns_entry \<Rightarrow> ns_entry option" where
  "ns_probe clock ns =
     (let now = trunc_sec clock; elapsed = elapsed_sec now (ns_UpdateTime ns)
      in if elapsed \<ge> ns_TTL ns then None
         else Some (ns\<lparr>ns_UpdateTime := now, ns_TTL := ns_TTL ns - elapsed\<rparr>))"

definition ns_deadline :: "ns_entry \<Rightarrow> int" where
  "ns_deadline ns = ns_UpdateTime ns div second + uint (ns_TTL ns)"

lemma NSCache_Get_probe:
  "NSCache_Get clock key c =
     (case gmap_get (nc_m c) key of
        None \<Rightarrow> (Inl ErrCacheNotFound, c)
      | Some ns \<Rightarrow> (case ns_probe clock ns of
                      None \<Rightarrow> (Inl ErrCacheExpired, NSCache_Remove key c)
                    | Some ns' \<Rightarrow> (Inr ns', c\<lparr>nc_m := gmap_set key ns' (nc_m c)\<rparr>)))"
  by (simp add: NSCache_Get_def ns_probe_def Let_def split: option.split)

lemma uint_minus_le: "b \<le> a \<Longrightarrow> uint (a - b) = uint a - uint (b :: u32)"
  by (simp add: uint_minus_simple_alt)

interpretation nse: deadline_entry ns_probe ns_UpdateTime ns_deadline "\<lambda>ns. ns_UpdateTime ns mod second = 0"
proof unfold_locales
  fix e :: ns_entry and now :: time
  assume *: "ns_UpdateTime e mod second = 0" "ns_UpdateTime e \<le> now" "now - ns_UpdateTime e < second * 2 ^ 32"
  then have el: "uint (elapsed_sec (trunc_sec now) (ns_UpdateTime e)) = now div second - ns_UpdateTime e div second"
    by (intro elapsed_since_stamp)
  show "ns_probe now e \<noteq> None \<longleftrightarrow> now div second < ns_deadline e"
    by (auto simp: ns_probe_def Let_def ns_deadline_def word_le_def el)
  fix e' assume "ns_probe now e = Some e'"
  then have lt: "elapsed_sec (trunc_sec now) (ns_UpdateTime e) < ns_TTL e" and
    e': "e' = e\<lparr>ns_UpdateTime := trunc_sec now, ns_TTL := ns_TTL e - elapsed_sec (trunc_sec now) (ns_UpdateTime e)\<rparr>"
    by (auto simp: ns_probe_def Let_def split: if_splits)
  have "ns_UpdateTime e = trunc_sec (ns_UpdateTime e)" using *(1) by (simp add: trunc_sec_def)
  then have "ns_UpdateTime e \<le> trunc_sec now" using *(2) trunc_sec_mono by metis
  with lt show "ns_UpdateTime e' mod second = 0 \<and> ns_deadline e' = ns_deadline e \<and>
      ns_UpdateTime e \<le> ns_UpdateTime e' \<and> ns_UpdateTime e' \<le> now"
    by (simp add: e' ns_deadline_def trunc_sec_le trunc_sec_div uint_minus_le el)
qed

lemma ns_probe_fields:
  "ns_probe t e = Some e' \<Longrightarrow> ns_Servers e' = ns_Servers e \<and> ns_DSRR e' = ns_DSRR e"
  by (auto simp: ns_probe_def Let_def split: if_splits)

lemma nc_get_Get_other: "k \<noteq> key \<Longrightarrow> gmap_get (nc_m (snd (NSCache_Get t key c))) k = gmap_get (nc_m c) k"
  by (auto simp: NSCache_Get_probe NSCache_Remove_def split: option.split)

lemma gmap_set_entries: "(k, v) \<in> set (gmap_set k' v' m) \<Longrightarrow> (k, v) = (k', v') \<or> (k, v) \<in> set m"
  by (induction m) (auto split: if_splits)

lemma gmap_del_entries: "(k, v) \<in> set (gmap_del k' m) \<Longrightarrow> (k, v) \<in> set m"
  by (induction m) (auto split: if_splits)

lemma ns_cache_inv_new [inv_intros]: "ns_cache_inv NewNSCache"
  by (simp add: ns_cache_inv_def NewNSCache_def)

lemma ns_cache_inv_Remove [inv_intros]: "ns_cache_inv c \<Longrightarrow> ns_cache_inv (NSCache_Remove k c)"
  by (auto simp: ns_cache_inv_def NSCache_Remove_def dest!: gmap_del_entries)

lemma ns_cache_inv_Set [inv_intros]: "ns_cache_inv c \<Longrightarrow> ns_cache_inv (NSCache_Set t k ds ttl sv c)"
  by (auto simp: ns_cache_inv_def NSCache_Set_def dest!: gmap_set_entries)

lemma ns_cache_inv_Get [inv_intros]: "ns_cache_inv c \<Longrightarrow> ns_cache_inv (snd (NSCache_Get t k c))"
  by (auto simp: NSCache_Get_probe ns_probe_def Let_def inv_intros split: option.split)
     (auto simp: ns_cache_inv_def dest!: gmap_set_entries)

lemma NSCache_clear_loop_cases:
  "NSCache_clear_loop clock i es c = c \<or>
   (\<exists>j key ns. (key, ns) \<in> set es \<and> elapsed_sec (trunc_sec (clock j)) (ns_UpdateTime ns) \<ge> ns_TTL ns
      \<and> NSCache_clear_loop clock i es c = NSCache_Remove key c)"
proof (induction clock i es c rule: NSCache_clear_loop.induct)
  case (2 clock i key ns es c)
  then show ?case by (cases "elapsed_sec (trunc_sec (clock i)) (ns_UpdateTime ns) \<ge> ns_TTL ns") fastforce+
qed simp

lemma ns_cache_inv_clear [inv_intros]: "ns_cache_inv c \<Longrightarrow> ns_cache_inv (NSCache_clear r clock c)"
  using NSCache_clear_loop_cases [of clock 0 "perm_by r (nc_m c)" c]
  by (auto simp: NSCache_clear_def intro: ns_cache_inv_Remove)

lemma ns_cache_inv_run [inv_intros]: "ns_cache_inv c \<Longrightarrow> ns_cache_inv (NSCache_run ticks c)"
  by (induction ticks c rule: NSCache_run.induct) (auto intro: inv_intros)

text \<open>How fast the ticks free memory when everything in the cache has expired: exactly one entry each.\<close>

lemma NSCache_clear_expired:
  assumes "ns_cache_inv c" "\<forall>(k, ns) \<in> set (nc_m c). \<forall>i. ns_TTL ns \<le> elapsed_sec (trunc_sec (clock i)) (ns_UpdateTime ns)"
  shows "length (nc_m (NSCache_clear r clock c)) = length (nc_m c) - 1
     \<and> set (nc_m (NSCache_clear r clock c)) \<subseteq> set (nc_m c)"
proof (cases "perm_by r (nc_m c)")
  case Nil
  then have "nc_m c = []" using set_perm_by [of r "nc_m c"] by simp
  then show ?thesis using Nil by (simp add: NSCache_clear_def)
next
  case (Cons x es)
  obtain key ns where x: "x = (key, ns)" by fastforce
  have ok: "gmap_ok (nc_m c)" using assms(1) by (simp add: ns_cache_inv_def)
  have mem: "(key, ns) \<in> set (nc_m c)" using set_perm_by [of r "nc_m c"] Cons x by auto
  then have "gmap_get (nc_m c) key = Some ns" using ok by simp
  then have "Suc (length (gmap_del key (nc_m c))) = length (nc_m c)" using ok by (intro length_gmap_del)
  with mem assms(2) Cons x show ?thesis
    by (auto simp: NSCache_clear_def NSCache_Remove_def dest: gmap_del_entries)
qed

lemma NSCache_run_expired:
  assumes "ns_cache_inv c" "\<forall>(r, clock) \<in> set ticks. \<forall>(k, ns) \<in> set (nc_m c). \<forall>i.
     ns_TTL ns \<le> elapsed_sec (trunc_sec (clock i)) (ns_UpdateTime ns)"
  shows "length (nc_m (NSCache_run ticks c)) = length (nc_m c) - length ticks"
  using assms
proof (induction ticks c rule: NSCache_run.induct)
  case (2 r clock ticks c)
  then have step: "length (nc_m (NSCache_clear r clock c)) = length (nc_m c) - 1"
      "set (nc_m (NSCache_clear r clock c)) \<subseteq> set (nc_m c)"
    using NSCache_clear_expired [of c clock r] by auto
  then show ?case using 2 by (fastforce intro: inv_intros)
qed simp

text \<open>A sequence of lookups of one key.\<close>

fun NSCache_Gets :: "time list \<Rightarrow> u64 \<Rightarrow> ns_cache \<Rightarrow> ns_cache" where
  "NSCache_Gets [] key c = c"
| "NSCache_Gets (t # ts) key c = NSCache_Gets ts key (snd (NSCache_Get t key c))"

lemma NSCache_Gets_absent:
  "gmap_get (nc_m c) key = None \<Longrightarrow> gmap_get (nc_m (NSCache_Gets ts key c)) key = None"
  by (induction ts arbitrary: c) (simp_all add: NSCache_Get_probe)

lemma NSCache_Gets_probes:
  "gmap_get (nc_m c) key = Some e \<Longrightarrow> gmap_get (nc_m (NSCache_Gets ts key c)) key = nse.probes ts e"
proof (induction ts arbitrary: c e)
  case (Cons t ts)
  show ?case
  proof (cases "ns_probe t e")
    case None
    with Cons.prems show ?thesis
      by (simp add: NSCache_Get_probe NSCache_Gets_absent NSCache_Remove_def)
  next
    case (Some e')
    with Cons show ?thesis by (simp add: NSCache_Get_probe)
  qed
qed simp

lemma probes_ns_step:
  assumes "nse.probes ts e = Some e'" "ns_UpdateTime e mod second = 0" "sorted (ts @ [t])"
    "\<forall>x \<in> set (ts @ [t]). ns_UpdateTime e \<le> x \<and> x - ns_UpdateTime e < second * 2 ^ 32"
  shows "ns_UpdateTime e' mod second = 0 \<and> ns_deadline e' = ns_deadline e \<and>
    ns_UpdateTime e \<le> ns_UpdateTime e' \<and> ns_UpdateTime e' \<le> t \<and> ns_Servers e' = ns_Servers e"
  using assms
proof (induction ts arbitrary: e)
  case (Cons x xs)
  then obtain e1 where e1: "ns_probe x e = Some e1" "nse.probes xs e1 = Some e'"
    by (auto split: option.splits)
  from nse.probe_step [of e x e1] e1 Cons.prems
  have s: "ns_UpdateTime e1 mod second = 0" "ns_deadline e1 = ns_deadline e"
    "ns_UpdateTime e \<le> ns_UpdateTime e1" "ns_UpdateTime e1 \<le> x" by auto
  have "ns_UpdateTime e' mod second = 0 \<and> ns_deadline e' = ns_deadline e1 \<and>
    ns_UpdateTime e1 \<le> ns_UpdateTime e' \<and> ns_UpdateTime e' \<le> t \<and> ns_Servers e' = ns_Servers e1"
    by (rule Cons.IH) (use s e1 Cons.prems in force)+
  with s ns_probe_fields [OF e1(1)] show ?case by simp
qed simp

section \<open>Properties\<close>

text \<open>C22. A delegation lives as long as its time to live says, however often it is looked up: after a store
  at \<^verbatim>\<open>t0\<close> and any sequence of lookups at later times, a lookup at \<^verbatim>\<open>t\<close> succeeds exactly when fewer
  than \<^verbatim>\<open>ttl\<close> seconds have passed since \<^verbatim>\<open>t0\<close>, and the entry then holds the stored servers and
  the seconds that remain.\<close>

theorem ns_cache_lifetime:
  assumes "sorted (t0 # ts @ [t])" "t - trunc_sec t0 < second * 2 ^ 32"
  shows "(case fst (NSCache_Get t key (NSCache_Gets ts key (NSCache_Set t0 key ds ttl sv c))) of
            Inl _ \<Rightarrow> uint ttl \<le> t div second - t0 div second
          | Inr ns \<Rightarrow> uint (ns_TTL ns) = uint ttl - (t div second - t0 div second) \<and>
                       0 < uint (ns_TTL ns) \<and> ns_Servers ns = sv)"
proof -
  define c1 where "c1 = NSCache_Gets ts key (NSCache_Set t0 key ds ttl sv c)"
  define e where "e = \<lparr>ns_Servers = sv, ns_Network = ''v4'', ns_DSRR = ds, ns_TTL = ttl, ns_UpdateTime = trunc_sec t0\<rparr>"
  have wf: "ns_UpdateTime e mod second = 0" and dl: "ns_deadline e = t0 div second + uint ttl"
    by (simp_all add: e_def ns_deadline_def trunc_sec_div)
  have rng: "\<forall>x \<in> set (ts @ [t]). ns_UpdateTime e \<le> x \<and> x - ns_UpdateTime e < second * 2 ^ 32"
    using assms(1,2) trunc_sec_le [of t0] by (auto simp: e_def sorted_append)
  have c1: "gmap_get (nc_m c1) key = nse.probes ts e"
    unfolding c1_def by (intro NSCache_Gets_probes) (simp add: NSCache_Set_def e_def)
  have le: "x \<le> t" if "x \<in> set ts" for x using that assms(1) by (auto simp: sorted_append)
  show ?thesis
  proof (cases "nse.probes ts e")
    case None
    then obtain x where "x \<in> set ts" "ns_deadline e \<le> x div second"
      using nse.probes_deadline [OF wf, of ts] assms(1) rng by (auto simp: sorted_append)
    moreover from this have "x div second \<le> t div second" using le by (simp add: zdiv_mono1)
    ultimately show ?thesis using None c1 dl by (simp add: NSCache_Get_probe flip: c1_def)
  next
    case (Some e')
    have e': "ns_UpdateTime e' mod second = 0" "ns_deadline e' = ns_deadline e"
      "ns_UpdateTime e \<le> ns_UpdateTime e'" "ns_UpdateTime e' \<le> t" "ns_Servers e' = sv"
      using probes_ns_step [OF Some wf _ rng] assms(1) by (auto simp: e_def)
    have r': "t - ns_UpdateTime e' < second * 2 ^ 32" using rng e'(3) by auto
    note iff = nse.probe_iff [OF e'(1,4) r']
    show ?thesis
    proof (cases "ns_probe t e'")
      case None
      with iff e'(2) dl c1 Some show ?thesis by (simp add: NSCache_Get_probe flip: c1_def)
    next
      case (Some e'')
      have "ns_deadline e'' = ns_deadline e'" "ns_UpdateTime e'' = trunc_sec t" "ns_Servers e'' = sv"
        using nse.probe_step [OF e'(1,4) r' Some] Some ns_probe_fields [OF Some] e'(5)
        by (auto simp: ns_probe_def Let_def split: if_splits)
      then have "uint (ns_TTL e'') = uint ttl - (t div second - t0 div second)" "ns_Servers e'' = sv"
        using dl e'(2) by (simp_all add: ns_deadline_def trunc_sec_div)
      moreover have "t div second < ns_deadline e" using iff Some e'(2) by simp
      ultimately show ?thesis
        using \<open>nse.probes ts e = Some e'\<close> Some c1 dl by (simp add: NSCache_Get_probe flip: c1_def)
    qed
  qed
qed

theorem ns_cache_lifetime_witness:
  "case fst (NSCache_Get (4 * second) 7 (NSCache_Gets [second, 3 * second] 7 (NSCache_Set 0 7 [] 5 9 NewNSCache))) of
     Inl _ \<Rightarrow> uint (5 :: u32) \<le> 4 * second div second - 0 div second
   | Inr ns \<Rightarrow> uint (ns_TTL ns) = uint (5 :: u32) - (4 * second div second - 0 div second) \<and>
               0 < uint (ns_TTL ns) \<and> ns_Servers ns = 9"
  by (rule ns_cache_lifetime) (simp_all add: second_def trunc_sec_def)

text \<open>The hourly clean-up removes at most one entry and only an expired one: \<^verbatim>\<open>clear\<close> leaves the cache
  unchanged or removes the entry of one key whose time to live is over at the moment it is
  inspected, for every iteration order.\<close>

theorem ns_cache_clear_at_most_one:
  assumes "ns_cache_inv c"
  shows "NSCache_Length c - 1 \<le> NSCache_Length (NSCache_clear r clock c) \<and>
    (\<forall>k ns. gmap_get (nc_m c) k = Some ns \<longrightarrow> gmap_get (nc_m (NSCache_clear r clock c)) k \<noteq> Some ns \<longrightarrow>
       (\<exists>i. elapsed_sec (trunc_sec (clock i)) (ns_UpdateTime ns) \<ge> ns_TTL ns))"
proof -
  have ok: "gmap_ok (nc_m c)" using assms by (simp add: ns_cache_inv_def)
  from NSCache_clear_loop_cases [of clock 0 "perm_by r (nc_m c)" c] show ?thesis
  proof (elim disjE exE conjE)
    fix j key ns
    assume *: "(key, ns) \<in> set (perm_by r (nc_m c))"
      "elapsed_sec (trunc_sec (clock j)) (ns_UpdateTime ns) \<ge> ns_TTL ns"
      "NSCache_clear_loop clock 0 (perm_by r (nc_m c)) c = NSCache_Remove key c"
    from *(1) ok have get: "gmap_get (nc_m c) key = Some ns" by simp
    then have "Suc (length (gmap_del key (nc_m c))) = length (nc_m c)" using ok by (intro length_gmap_del)
    with * get show ?thesis
      by (auto simp: NSCache_clear_def NSCache_Remove_def NSCache_Length_def)
  qed (simp add: NSCache_clear_def)
qed

theorem ns_cache_clear_at_most_one_witness:
  "NSCache_Length (NSCache_clear 0 (\<lambda>_. 10 * second) (NSCache_Set 0 1 [] 5 0 (NSCache_Set 0 2 [] 5 0 NewNSCache))) \<ge> 1"
  using ns_cache_clear_at_most_one [of "NSCache_Set 0 1 [] 5 0 (NSCache_Set 0 2 [] 5 0 NewNSCache)" 0 "\<lambda>_. 10 * second"]
  by (simp add: inv_intros) (simp add: NSCache_Length_def NSCache_Set_def NewNSCache_def)

end
