(* ===== verification/Rate_Limiter.thy ===== *)
theory Rate_Limiter
  imports Sdns_Prelude
begin

text \<open>
  The rate limiter each cached answer carries (vendored \<^verbatim>\<open>bsm/ratelimit\<close>), a token bucket over
  64-bit counters: \<open>RateLimiter_New\<close>, \<open>UpdateRate\<close>, \<open>Limit\<close> and \<open>Undo\<close>. The main theorem bounds the calls that pass
  in any period after any history, as long as the refill of the period does not wrap around.
\<close>

record rate_limiter =
  rl_rate :: u64
  rl_allowance :: u64
  rl_max :: u64
  rl_unit :: u64
  rl_lastCheck :: u64

definition RateLimiter_New :: "int \<Rightarrow> u64 \<Rightarrow> u64 \<Rightarrow> rate_limiter" where
  "RateLimiter_New rate per now =
     (let nano = (if per < 1 then word_of_int second else per);
          rate1 = (if rate < 1 then 1 else rate);
          w = word_of_int rate1
      in \<lparr>rl_rate = w, rl_allowance = w * nano, rl_max = w * nano, rl_unit = nano, rl_lastCheck = now\<rparr>)"

definition UpdateRate :: "int \<Rightarrow> rate_limiter \<Rightarrow> rate_limiter" where
  "UpdateRate rate rl = rl\<lparr>rl_rate := word_of_int rate, rl_max := word_of_int rate * rl_unit rl\<rparr>"

text \<open>\<^verbatim>\<open>Limit\<close>: true when the rate was exceeded.\<close>

definition Limit :: "u64 \<Rightarrow> rate_limiter \<Rightarrow> bool \<times> rate_limiter" where
  "Limit now rl =
     (let passed = now - rl_lastCheck rl;
          rl1 = rl\<lparr>rl_lastCheck := now, rl_allowance := rl_allowance rl + passed * rl_rate rl\<rparr>;
          current = rl_allowance rl1;
          (current2, rl2) = (if current > rl_max rl1
             then (rl_max rl1, rl1\<lparr>rl_allowance := rl_allowance rl1 + (rl_max rl1 - current)\<rparr>)
             else (current, rl1))
      in if current2 < rl_unit rl2 then (True, rl2)
         else (False, rl2\<lparr>rl_allowance := rl_allowance rl2 + (- rl_unit rl2)\<rparr>))"

definition Undo :: "rate_limiter \<Rightarrow> rate_limiter" where
  "Undo rl =
     (let rl1 = rl\<lparr>rl_allowance := rl_allowance rl + rl_unit rl\<rparr>; current = rl_allowance rl1
      in if current > rl_max rl1 then rl1\<lparr>rl_allowance := rl_allowance rl1 + (rl_max rl1 - current)\<rparr> else rl1)"

fun Limits :: "u64 list \<Rightarrow> rate_limiter \<Rightarrow> nat \<times> rate_limiter" where
  "Limits [] rl = (0, rl)"
| "Limits (t # ts) rl =
     (case Limit t rl of (limited, rl') \<Rightarrow>
        case Limits ts rl' of (n, rl'') \<Rightarrow> (if limited then n else Suc n, rl''))"

section \<open>Lemmas\<close>

lemma unat_add_mult_exact:
  "unat (a :: u64) + unat b * unat c < 2 ^ 64 \<Longrightarrow> unat (a + b * c) = unat a + unat b * unat c"
  by (simp add: unat_word_ariths mod_simps)

lemma Limit_fields:
  "Limit now rl = (b, rl') \<Longrightarrow> rl_rate rl' = rl_rate rl \<and> rl_max rl' = rl_max rl \<and> rl_unit rl' = rl_unit rl
     \<and> rl_lastCheck rl' = now"
  by (auto simp: Limit_def Let_def split: if_splits)

text \<open>One call: the allowance is refilled, capped, and a passing call takes one unit out of it.\<close>

lemma Limit_allowance:
  assumes "Limit now rl = (b, rl')" "rl_lastCheck rl \<le> now"
    and "unat (rl_allowance rl) + (unat now - unat (rl_lastCheck rl)) * unat (rl_rate rl) < 2 ^ 64"
  shows "unat (rl_allowance rl') + (if b then 0 else unat (rl_unit rl)) =
      min (unat (rl_max rl)) (unat (rl_allowance rl) + (unat now - unat (rl_lastCheck rl)) * unat (rl_rate rl))"
proof -
  define cur where "cur = rl_allowance rl + (now - rl_lastCheck rl) * rl_rate rl"
  have un: "unat (now - rl_lastCheck rl) = unat now - unat (rl_lastCheck rl)"
    using assms(2) by (simp add: unat_sub word_le_nat_alt)
  have cur: "unat cur = unat (rl_allowance rl) + (unat now - unat (rl_lastCheck rl)) * unat (rl_rate rl)"
    unfolding cur_def using assms(3) by (subst unat_add_mult_exact) (simp_all add: un)
  define cur2 where "cur2 = (if cur > rl_max rl then rl_max rl else cur)"
  have cur2: "unat cur2 = min (unat (rl_max rl)) (unat cur)"
    by (auto simp: cur2_def word_less_nat_alt min_def)
  have "b = (cur2 < rl_unit rl)" "rl_allowance rl' = (if b then cur2 else cur2 - rl_unit rl)"
    using assms(1) by (auto simp: Limit_def Let_def cur_def cur2_def split: if_splits)
  moreover have "unat (cur2 - rl_unit rl) + unat (rl_unit rl) = unat cur2" if "\<not> cur2 < rl_unit rl"
    using that by (simp add: unat_sub word_le_nat_alt word_less_nat_alt not_less)
  ultimately show ?thesis using cur cur2 by auto
qed

text \<open>\<open>Undo\<close> gives back what a passing call took: the allowance is then the refilled and capped one. The
  allowance never leaves the bound, whichever operation runs.\<close>

lemma Undo_passed:
  assumes "Limit now rl = (False, rl')"
  shows "rl_allowance (Undo rl') = min (rl_max rl) (rl_allowance rl + (now - rl_lastCheck rl) * rl_rate rl)"
  using assms by (auto simp: Limit_def Undo_def Let_def min_def split: if_splits)

lemma allowance_bounded:
  "rl_allowance (snd (Limit now rl)) \<le> rl_max rl" "rl_allowance (Undo rl) \<le> rl_max rl"
  "rl_allowance (RateLimiter_New rate per now) \<le> rl_max (RateLimiter_New rate per now)"
proof -
  have "a - b \<le> c" if "\<not> a < b" "a \<le> c" for a b c :: u64
    using that by (simp add: word_le_nat_alt word_less_nat_alt unat_sub)
  then show "rl_allowance (snd (Limit now rl)) \<le> rl_max rl"
    by (auto simp: Limit_def Let_def not_less)
qed (auto simp: Undo_def RateLimiter_New_def Let_def not_less)

lemma Limits_bound:
  assumes "sorted (rl_lastCheck rl # ts)"
    and "unat (rl_allowance rl) + (unat (last (rl_lastCheck rl # ts)) - unat (rl_lastCheck rl)) * unat (rl_rate rl) < 2 ^ 64"
  shows "fst (Limits ts rl) * unat (rl_unit rl) \<le>
     unat (rl_allowance rl) + (unat (last (rl_lastCheck rl # ts)) - unat (rl_lastCheck rl)) * unat (rl_rate rl)"
  using assms
proof (induction ts arbitrary: rl)
  case (Cons t ts)
  obtain b rl' where L: "Limit t rl = (b, rl')" by fastforce
  obtain n rl'' where Ls: "Limits ts rl' = (n, rl'')" by fastforce
  let ?r = "unat (rl_rate rl)" and ?t0 = "unat (rl_lastCheck rl)" and ?e = "unat (last (t # ts))"
  have f: "rl_rate rl' = rl_rate rl" "rl_unit rl' = rl_unit rl" "rl_lastCheck rl' = t"
    using Limit_fields [OF L] by auto
  have t: "rl_lastCheck rl \<le> t" "sorted (t # ts)" using Cons.prems by auto
  have te: "unat t \<le> ?e"
    using t(2) by (cases "ts = []") (auto simp: word_le_nat_alt)
  have sp: "(?e - ?t0) * ?r = (unat t - ?t0) * ?r + (?e - unat t) * ?r"
    using te t(1) by (simp add: word_le_nat_alt flip: add_mult_distrib)
  have step: "unat (rl_allowance rl') + (if b then 0 else unat (rl_unit rl)) \<le> unat (rl_allowance rl) + (unat t - ?t0) * ?r"
    using Limit_allowance [OF L t(1)] Cons.prems(2) sp by (simp split: if_splits)
  then have "unat (rl_allowance rl') + (?e - unat t) * ?r < 2 ^ 64"
    using Cons.prems(2) sp by (simp split: if_splits)
  then have "n * unat (rl_unit rl) \<le> unat (rl_allowance rl') + (?e - unat t) * ?r"
    using Cons.IH [of rl'] t(2) f Ls by simp
  then show ?case using step sp L Ls by (auto split: if_splits)
qed simp

text \<open>Whatever the state before a call, also one whose refill wraps around, the cap leaves at most the bound to be taken or kept.\<close>

lemma Limit_capped:
  assumes "Limit now rl = (b, rl')"
  shows "unat (rl_allowance rl') + (if b then 0 else unat (rl_unit rl)) \<le> unat (rl_max rl)"
proof -
  define cur where "cur = rl_allowance rl + (now - rl_lastCheck rl) * rl_rate rl"
  define cur2 where "cur2 = (if cur > rl_max rl then rl_max rl else cur)"
  have "b = (cur2 < rl_unit rl)" "rl_allowance rl' = (if b then cur2 else cur2 - rl_unit rl)"
    using assms by (auto simp: Limit_def Let_def cur_def cur2_def split: if_splits)
  moreover have "unat (cur2 - rl_unit rl) + unat (rl_unit rl) = unat cur2" if "\<not> cur2 < rl_unit rl"
    using that by (simp add: unat_sub word_le_nat_alt word_less_nat_alt not_less)
  moreover have "unat cur2 \<le> unat (rl_max rl)" by (auto simp: cur2_def word_less_nat_alt)
  ultimately show ?thesis by auto
qed

lemma Limits_fields:
  "rl_rate (snd (Limits ts rl)) = rl_rate rl \<and> rl_max (snd (Limits ts rl)) = rl_max rl \<and> rl_unit (snd (Limits ts rl)) = rl_unit rl"
proof (induction ts arbitrary: rl)
  case (Cons t ts)
  obtain b rl' where L: "Limit t rl = (b, rl')" by fastforce
  show ?case using Cons.IH [of rl'] Limit_fields [OF L] L by (auto split: prod.split)
qed simp

text \<open>A period begins with one of its calls; only what the cap left counts from before it.\<close>

lemma Limits_period:
  assumes "sorted (t # ts)"
    and "unat (rl_max rl) + (unat (last (t # ts)) - unat t) * unat (rl_rate rl) < 2 ^ 64"
  shows "fst (Limits (t # ts) rl) * unat (rl_unit rl) \<le> unat (rl_max rl) + (unat (last (t # ts)) - unat t) * unat (rl_rate rl)"
proof -
  obtain b rl' where L: "Limit t rl = (b, rl')" by fastforce
  have f: "rl_rate rl' = rl_rate rl" "rl_unit rl' = rl_unit rl" "rl_lastCheck rl' = t"
    using Limit_fields [OF L] by auto
  have cap: "unat (rl_allowance rl') + (if b then 0 else unat (rl_unit rl)) \<le> unat (rl_max rl)" by (rule Limit_capped [OF L])
  have "fst (Limits ts rl') * unat (rl_unit rl) \<le> unat (rl_allowance rl') + (unat (last (t # ts)) - unat t) * unat (rl_rate rl)"
    using Limits_bound [of rl' ts] assms f cap by (simp split: if_splits)
  with cap L show ?thesis by (auto split: prod.split if_splits)
qed

section \<open>Properties\<close>

text \<open>C31. The limiter keeps its promise in every period: after any history of calls, at whatever times, of the calls of a
  period that begins with the first of them at most \<^verbatim>\<open>rate\<close> pass, the burst, plus those that the refill since then pays
  for, as long as burst and refill of the period fit the 64-bit counters.\<close>

theorem rate_limit_bound:
  assumes "1 \<le> rate" "rate * second < 2 ^ 64" "sorted (t # ts)"
    and "nat rate * nat second + (unat (last (t # ts)) - unat t) * nat rate < 2 ^ 64"
  shows "fst (Limits (t # ts) (snd (Limits history (RateLimiter_New rate (word_of_int second) t0)))) * nat second \<le>
     nat rate * nat second + (unat (last (t # ts)) - unat t) * nat rate"
proof -
  let ?rl = "snd (Limits history (RateLimiter_New rate (word_of_int second) t0))"
  have rl: "rate < 2 ^ 64" using assms(1,2) by (simp add: second_def)
  have r: "unat (word_of_int rate :: u64) = nat rate"
    using assms(1) rl by (simp add: unat_eq_nat_uint uint_word_of_int take_bit_int_eq_self)
  have s: "unat (word_of_int second :: u64) = nat second" by (simp add: second_def)
  have m: "unat (word_of_int rate * word_of_int second :: u64) = nat rate * nat second"
    using assms(1,2) by (simp add: unat_word_ariths r s nat_mult_distrib [symmetric] nat_less_iff)
  have "\<not> (word_of_int second :: u64) < 1" by (simp add: second_def)
  then have "unat (rl_rate ?rl) = nat rate" "unat (rl_max ?rl) = nat rate * nat second" "unat (rl_unit ?rl) = nat second"
    using Limits_fields [of history "RateLimiter_New rate (word_of_int second) t0"] assms(1)
    by (simp_all add: RateLimiter_New_def Let_def r s m)
  with Limits_period [OF assms(3), of ?rl] assms(4) show ?thesis by simp
qed

theorem rate_limit_bound_witness:
  "fst (Limits [900, 901, 907] (snd (Limits [5, 6] (RateLimiter_New 2 (word_of_int second) 0)))) * nat second \<le> 2 * nat second + 14"
  using rate_limit_bound [of 2 900 "[901, 907]" "[5, 6]" 0] by (simp add: second_def)

end
