(* ===== verification/Query_Cache.thy ===== *)
theory Query_Cache
  imports Cache_Shard Cache_Deadline Rate_Limiter
begin

text \<open>
  The query cache (\<^verbatim>\<open>cache/query_cache.go\<close>): whole answers by question key, sharded and
  bounded like the error cache, with a rate limiter per entry. \<^verbatim>\<open>Get\<close> counts the TTLs of the
  answer and authority records down in place and drops the entry when a record is overdue.
  The records of an entry are copies, so that neither the stored message nor a served one
  shares objects with it.
\<close>

record item =
  it_Rcode :: int
  it_Authoritative :: bool
  it_AuthenticatedData :: bool
  it_RecursionAvailable :: bool
  it_Answer :: "rr list"
  it_Ns :: "rr list"
  it_Extra :: "rr list"

record query_entry =
  qe_Item :: item
  qe_RateLimit :: rate_limiter
  qe_UpdateTime :: time

record query_cache =
  qc_shards :: "query_entry shard list"
  qc_rate :: int

definition NewQueryCache :: "int \<Rightarrow> int \<Rightarrow> query_cache" where
  "NewQueryCache sz ratelimit =
     \<lparr>qc_shards = replicate shardSize (newShard (shard_part sz)), qc_rate = ratelimit\<rparr>"

definition newItem :: "msg \<Rightarrow> item" where
  "newItem m = \<lparr>it_Rcode = m_Rcode m, it_Authoritative = m_Authoritative m,
     it_AuthenticatedData = m_AuthenticatedData m, it_RecursionAvailable = m_RecursionAvailable m,
     it_Answer = map rr_Copy (m_Answer m), it_Ns = map rr_Copy (m_Ns m), it_Extra = map rr_Copy (m_Extra m)\<rparr>"

definition toMsg :: "item \<Rightarrow> msg \<Rightarrow> msg" where
  "toMsg i m = (SetReply msg_zero m)\<lparr>m_Authoritative := False,
     m_AuthenticatedData := it_AuthenticatedData i, m_RecursionAvailable := it_RecursionAvailable i,
     m_Rcode := it_Rcode i, m_Answer := map rr_Copy (it_Answer i), m_Ns := map rr_Copy (it_Ns i),
     m_Extra := map rr_Copy (it_Extra i)\<rparr>"

definition QueryCache_Remove :: "u64 \<Rightarrow> query_cache \<Rightarrow> query_cache" where
  "QueryCache_Remove key c =
     (let shard = shard_index key
      in c\<lparr>qc_shards := (qc_shards c)[shard := shard_Remove key (qc_shards c ! shard)]\<rparr>)"

text \<open>The countdown loop over one section; \<open>None\<close> when a record is overdue.\<close>

fun age_section :: "u32 \<Rightarrow> rr list \<Rightarrow> rr list option" where
  "age_section elapsed [] = Some []"
| "age_section elapsed (r # rs) =
     (if elapsed > rr_ttl r then None
      else map_option ((#) (rr_setTtl (rr_ttl r - elapsed) r)) (age_section elapsed rs))"

definition QueryCache_Get ::
  "time \<Rightarrow> u64 \<Rightarrow> msg \<Rightarrow> query_cache \<Rightarrow> (cache_err + msg \<times> rate_limiter) \<times> query_cache" where
  "QueryCache_Get clock key req c =
     (let shard = shard_index key
      in case shard_Get (qc_shards c ! shard) key of
           None \<Rightarrow> (Inl ErrCacheNotFound, c)
         | Some query \<Rightarrow>
             (let now = trunc_sec clock;
                  elapsed = elapsed_sec now (qe_UpdateTime query);
                  it = qe_Item query
              in case age_section elapsed (it_Answer it) of
                   None \<Rightarrow> (Inl ErrCacheExpired, QueryCache_Remove key c)
                 | Some answer \<Rightarrow>
                     (case age_section elapsed (it_Ns it) of
                        None \<Rightarrow> (Inl ErrCacheExpired, QueryCache_Remove key c)
                      | Some ns \<Rightarrow>
                          (let query' = query\<lparr>qe_Item := it\<lparr>it_Answer := answer, it_Ns := ns\<rparr>,
                                              qe_UpdateTime := now\<rparr>;
                               sh = qc_shards c ! shard
                           in (Inr (toMsg (qe_Item query') req, qe_RateLimit query'),
                               c\<lparr>qc_shards := (qc_shards c)[shard :=
                                   sh\<lparr>sh_items := gmap_set key query' (sh_items sh)\<rparr>]\<rparr>)))))"

text \<open>\<^verbatim>\<open>Set\<close>: the limiter of the entry reads the clock in Unix nanoseconds.\<close>

definition QueryCache_Set :: "nat \<Rightarrow> time \<Rightarrow> u64 \<Rightarrow> msg \<Rightarrow> query_cache \<Rightarrow> query_cache" where
  "QueryCache_Set r clock key m c =
     (let shard = shard_index key;
          q = \<lparr>qe_Item = newItem m,
               qe_RateLimit = RateLimiter_New (qc_rate c) (word_of_int second) (word_of_int clock),
               qe_UpdateTime = trunc_sec clock\<rparr>
      in c\<lparr>qc_shards := (qc_shards c)[shard := shard_Set r key q (qc_shards c ! shard)]\<rparr>)"

text \<open>\<^verbatim>\<open>rl.Limit()\<close> on the limiter that \<^verbatim>\<open>Get\<close> returned: it belongs to the cached entry.\<close>

definition QueryCache_Limit :: "time \<Rightarrow> u64 \<Rightarrow> query_cache \<Rightarrow> bool \<times> query_cache" where
  "QueryCache_Limit clock key c =
     (let shard = shard_index key; sh = qc_shards c ! shard
      in case shard_Get sh key of
           None \<Rightarrow> (False, c)
         | Some q \<Rightarrow>
             (case Limit (word_of_int clock) (qe_RateLimit q) of (b, rl) \<Rightarrow>
                (b, c\<lparr>qc_shards := (qc_shards c)[shard :=
                        sh\<lparr>sh_items := gmap_set key (q\<lparr>qe_RateLimit := rl\<rparr>) (sh_items sh)\<rparr>]\<rparr>)))"

definition QueryCache_Len :: "query_cache \<Rightarrow> int" where
  "QueryCache_Len c = sum_list (map shard_Len (qc_shards c))"

definition qc_lookup :: "query_cache \<Rightarrow> u64 \<Rightarrow> query_entry option" where
  "qc_lookup c key = shard_Get (qc_shards c ! shard_index key) key"

definition query_cache_inv :: "int \<Rightarrow> query_cache \<Rightarrow> bool" where
  "query_cache_inv n c \<longleftrightarrow>
     length (qc_shards c) = shardSize \<and> (\<forall>s \<in> set (qc_shards c). shard_inv s \<and> sh_size s = n)"

section \<open>Aging\<close>

lemma age_section_None: "age_section el rs = None \<longleftrightarrow> (\<exists>r \<in> set rs. rr_ttl r < el)"
  by (induction rs) auto

lemma age_section_Some:
  "age_section el rs = Some rs' \<Longrightarrow>
     rs' = map (\<lambda>r. rr_setTtl (rr_ttl r - el) r) rs \<and> (\<forall>r \<in> set rs. el \<le> rr_ttl r)"
  by (induction rs arbitrary: rs') (auto split: if_splits)

lemma age_section_zero: "age_section 0 rs = Some rs"
  by (induction rs) (auto simp: rr_setTtl_def)

definition qe_ttls :: "query_entry \<Rightarrow> int list" where
  "qe_ttls q = map (\<lambda>r. uint (rr_ttl r)) (it_Answer (qe_Item q) @ it_Ns (qe_Item q))"

definition query_probe :: "time \<Rightarrow> query_entry \<Rightarrow> query_entry option" where
  "query_probe clock q =
     (let now = trunc_sec clock; el = elapsed_sec now (qe_UpdateTime q); it = qe_Item q
      in case age_section el (it_Answer it) of
           None \<Rightarrow> None
         | Some an \<Rightarrow> (case age_section el (it_Ns it) of
             None \<Rightarrow> None
           | Some ns \<Rightarrow> Some (q\<lparr>qe_Item := it\<lparr>it_Answer := an, it_Ns := ns\<rparr>, qe_UpdateTime := now\<rparr>)))"

definition query_deadline :: "query_entry \<Rightarrow> int" where
  "query_deadline q = qe_UpdateTime q div second + Min (set (qe_ttls q)) + 1"

definition query_entry_wf :: "query_entry \<Rightarrow> bool" where
  "query_entry_wf q \<longleftrightarrow> qe_UpdateTime q mod second = 0 \<and> qe_ttls q \<noteq> []"

lemma query_probe_None:
  "query_probe clock q = None \<longleftrightarrow> (\<exists>n \<in> set (qe_ttls q). n < uint (elapsed_sec (trunc_sec clock) (qe_UpdateTime q)))"
  by (auto simp: query_probe_def Let_def qe_ttls_def age_section_None word_less_def split: option.splits
      dest!: age_section_Some) (force simp: word_le_def)+

lemma query_probe_Some:
  assumes "query_probe clock q = Some q'"
  shows "qe_UpdateTime q' = trunc_sec clock \<and>
    qe_ttls q' = map (\<lambda>n. n - uint (elapsed_sec (trunc_sec clock) (qe_UpdateTime q))) (qe_ttls q)"
proof -
  let ?el = "elapsed_sec (trunc_sec clock) (qe_UpdateTime q)"
  obtain an ns where a: "age_section ?el (it_Answer (qe_Item q)) = Some an"
    "age_section ?el (it_Ns (qe_Item q)) = Some ns"
    "q' = q\<lparr>qe_Item := (qe_Item q)\<lparr>it_Answer := an, it_Ns := ns\<rparr>, qe_UpdateTime := trunc_sec clock\<rparr>"
    using assms by (auto simp: query_probe_def Let_def split: option.splits)
  have "uint (rr_ttl r - ?el) = uint (rr_ttl r) - uint ?el" if "?el \<le> rr_ttl r" for r
    using that by (simp add: uint_minus_simple_alt)
  with age_section_Some [OF a(1)] age_section_Some [OF a(2)] a(3) show ?thesis
    by (auto simp: qe_ttls_def)
qed

interpretation qen: deadline_entry query_probe qe_UpdateTime query_deadline query_entry_wf
proof unfold_locales
  fix e :: query_entry and now :: time
  assume *: "query_entry_wf e" "qe_UpdateTime e \<le> now" "now - qe_UpdateTime e < second * 2 ^ 32"
  then have wf: "qe_UpdateTime e mod second = 0" and ne: "qe_ttls e \<noteq> []"
    by (simp_all add: query_entry_wf_def)
  have el: "uint (elapsed_sec (trunc_sec now) (qe_UpdateTime e)) = now div second - qe_UpdateTime e div second"
    using * wf by (intro elapsed_since_stamp)
  have "query_probe now e \<noteq> None \<longleftrightarrow> (\<forall>n \<in> set (qe_ttls e). now div second - qe_UpdateTime e div second \<le> n)"
    unfolding query_probe_None el by auto
  also have "\<dots> \<longleftrightarrow> now div second - qe_UpdateTime e div second \<le> Min (set (qe_ttls e))"
    using ne by simp
  finally show "query_probe now e \<noteq> None \<longleftrightarrow> now div second < query_deadline e"
    by (auto simp: query_deadline_def)
  fix e' assume "query_probe now e = Some e'"
  from query_probe_Some [OF this] have e': "qe_UpdateTime e' = trunc_sec now"
    "qe_ttls e' = map (\<lambda>n. n - (now div second - qe_UpdateTime e div second)) (qe_ttls e)"
    unfolding el by auto
  have "Min (set (qe_ttls e')) = Min (set (qe_ttls e)) - (now div second - qe_UpdateTime e div second)"
    using mono_Min_commute [of "\<lambda>n. n - (now div second - qe_UpdateTime e div second)" "set (qe_ttls e)"] ne
    by (simp add: e' monoI)
  moreover have "qe_UpdateTime e \<le> trunc_sec now"
    using wf *(2) trunc_sec_mono [of "qe_UpdateTime e" now] by (simp add: trunc_sec_def)
  ultimately show "query_entry_wf e' \<and> query_deadline e' = query_deadline e \<and>
      qe_UpdateTime e \<le> qe_UpdateTime e' \<and> qe_UpdateTime e' \<le> now"
    using e' ne by (simp add: query_entry_wf_def query_deadline_def trunc_sec_div trunc_sec_le)
qed

lemma QueryCache_Get_probe:
  "QueryCache_Get clock key req c =
     (case qc_lookup c key of
        None \<Rightarrow> (Inl ErrCacheNotFound, c)
      | Some q \<Rightarrow> (case query_probe clock q of
            None \<Rightarrow> (Inl ErrCacheExpired, QueryCache_Remove key c)
          | Some q' \<Rightarrow> (Inr (toMsg (qe_Item q') req, qe_RateLimit q'),
              c\<lparr>qc_shards := (qc_shards c)[shard_index key := (qc_shards c ! shard_index key)
                 \<lparr>sh_items := gmap_set key q' (sh_items (qc_shards c ! shard_index key))\<rparr>]\<rparr>)))"
  by (simp add: QueryCache_Get_def query_probe_def qc_lookup_def Let_def split: option.split)

section \<open>The invariant\<close>

lemma query_cache_inv_array: "query_cache_inv n c \<longleftrightarrow> sh.array_ok n (qc_shards c)"
  by (simp add: query_cache_inv_def sh.array_ok_def shardSize_def)

lemma query_cache_inv_new [inv_intros]: "query_cache_inv (shard_part sz) (NewQueryCache sz rate)"
  using shard_array_new by (simp add: query_cache_inv_array NewQueryCache_def)

lemma query_cache_inv_Remove [inv_intros]: "query_cache_inv n c \<Longrightarrow> query_cache_inv n (QueryCache_Remove key c)"
  by (simp add: query_cache_inv_array QueryCache_Remove_def Let_def sh.array_ok_remove)

lemma query_cache_inv_Set [inv_intros]: "query_cache_inv n c \<Longrightarrow> query_cache_inv n (QueryCache_Set r t key m c)"
  by (simp add: query_cache_inv_array QueryCache_Set_def Let_def sh.array_ok_put)

text \<open>Storing into an entry that exists keeps the shard within its size.\<close>

lemma shard_inv_overwrite:
  "shard_inv s \<Longrightarrow> shard_Get s key = Some w \<Longrightarrow> shard_inv (s\<lparr>sh_items := gmap_set key v (sh_items s)\<rparr>)"
  by (auto simp: shard_inv_def shard_Get_def shard_Len_def length_gmap_set_old)

lemma query_cache_inv_overwrite:
  assumes "query_cache_inv n c" "qc_lookup c key = Some w"
  shows "query_cache_inv n (c\<lparr>qc_shards := (qc_shards c)[shard_index key := (qc_shards c ! shard_index key)
                 \<lparr>sh_items := gmap_set key q' (sh_items (qc_shards c ! shard_index key))\<rparr>]\<rparr>)"
proof -
  have "shard_inv (qc_shards c ! shard_index key)" "sh_size (qc_shards c ! shard_index key) = n"
    using sh.array_nth [of n "qc_shards c" key] assms(1) by (auto simp: query_cache_inv_array)
  then have "shard_inv ((qc_shards c ! shard_index key)\<lparr>sh_items := gmap_set key q' (sh_items (qc_shards c ! shard_index key))\<rparr>)"
    using assms(2) by (intro shard_inv_overwrite) (auto simp: qc_lookup_def)
  with assms(1) \<open>sh_size _ = n\<close> show ?thesis
    by (auto simp: query_cache_inv_def dest!: set_update_subset_insert [THEN subsetD])
qed

lemma query_cache_inv_Get [inv_intros]:
  "query_cache_inv n c \<Longrightarrow> query_cache_inv n (snd (QueryCache_Get t key req c))"
  by (auto simp: QueryCache_Get_probe intro: query_cache_inv_overwrite query_cache_inv_Remove split: option.split)

lemma query_cache_inv_Limit [inv_intros]:
  "query_cache_inv n c \<Longrightarrow> query_cache_inv n (snd (QueryCache_Limit t key c))"
  by (auto simp: QueryCache_Limit_def Let_def qc_lookup_def [symmetric] intro!: query_cache_inv_overwrite
      split: option.split prod.split)

lemma qc_lookup_Set_same:
  "query_cache_inv n c \<Longrightarrow> qc_lookup (QueryCache_Set r t key m c) key = Some
     \<lparr>qe_Item = newItem m, qe_RateLimit = RateLimiter_New (qc_rate c) (word_of_int second) (word_of_int t),
      qe_UpdateTime = trunc_sec t\<rparr>"
  by (simp add: qc_lookup_def QueryCache_Set_def Let_def query_cache_inv_array sh.array_get_put_same)

lemma qc_lookup_Set_other:
  "query_cache_inv n c \<Longrightarrow> k \<noteq> key \<Longrightarrow> qc_lookup (QueryCache_Set r t key m c) k \<in> {qc_lookup c k, None}"
  using sh.array_get_put_other [of n "qc_shards c" k key r]
  by (simp add: qc_lookup_def QueryCache_Set_def Let_def query_cache_inv_array)

lemma qc_lookup_Remove:
  "query_cache_inv n c \<Longrightarrow> qc_lookup (QueryCache_Remove key c) k = (if k = key then None else qc_lookup c k)"
  using sh.array_get_remove [of n "qc_shards c" key k]
  by (simp add: qc_lookup_def QueryCache_Remove_def Let_def query_cache_inv_array)

text \<open>
  A predicate on the stored items that survives the countdown holds of everything the cache
  serves, if it holds of everything that is stored.
\<close>

definition qc_items :: "(item \<Rightarrow> bool) \<Rightarrow> query_cache \<Rightarrow> bool" where
  "qc_items P c \<longleftrightarrow> (\<forall>k q. qc_lookup c k = Some q \<longrightarrow> P (qe_Item q))"

definition ages :: "(item \<Rightarrow> bool) \<Rightarrow> bool" where
  "ages P \<longleftrightarrow> (\<forall>it el an ns. P it \<longrightarrow> age_section el (it_Answer it) = Some an \<longrightarrow> age_section el (it_Ns it) = Some ns \<longrightarrow>
     P (it\<lparr>it_Answer := an, it_Ns := ns\<rparr>))"

lemma qc_lookup_overwrite:
  assumes "query_cache_inv n c"
  shows "qc_lookup (c\<lparr>qc_shards := (qc_shards c)[shard_index key := (qc_shards c ! shard_index key)
      \<lparr>sh_items := gmap_set key q' (sh_items (qc_shards c ! shard_index key))\<rparr>]\<rparr>) k =
    (if k = key then Some q' else qc_lookup c k)"
  using assms shard_index_less [of key]
  by (auto simp: qc_lookup_def shard_Get_def query_cache_inv_def shardSize_def nth_list_update)

lemma qc_items_new: "qc_items P (NewQueryCache sz rate)"
  by (simp add: qc_items_def qc_lookup_def NewQueryCache_def shardSize_def newShard_def shard_Get_def)

lemma qc_items_Set:
  assumes "query_cache_inv n c" "qc_items P c" "P (newItem m)"
  shows "qc_items P (QueryCache_Set r t key m c)"
  unfolding qc_items_def
proof (intro allI impI)
  fix k q
  assume q: "qc_lookup (QueryCache_Set r t key m c) k = Some q"
  show "P (qe_Item q)"
  proof (cases "k = key")
    case True
    with q assms(3) qc_lookup_Set_same [OF assms(1), of r t key m] show ?thesis by auto
  next
    case False
    with q qc_lookup_Set_other [OF assms(1) False, of r t m] assms(2) show ?thesis
      by (auto simp: qc_items_def)
  qed
qed

lemma query_probe_item:
  "ages P \<Longrightarrow> P (qe_Item q) \<Longrightarrow> query_probe t q = Some q' \<Longrightarrow> P (qe_Item q')"
  by (auto simp: query_probe_def ages_def Let_def split: option.splits)

lemma qc_items_Get:
  assumes "query_cache_inv n c" "qc_items P c" "ages P"
  shows "qc_items P (snd (QueryCache_Get t key req c))"
proof (cases "qc_lookup c key")
  case None
  with assms(2) show ?thesis by (simp add: QueryCache_Get_probe)
next
  case (Some q)
  show ?thesis
  proof (cases "query_probe t q")
    case None
    with Some assms(2) show ?thesis
      by (auto simp: QueryCache_Get_probe qc_items_def qc_lookup_Remove [OF assms(1)] split: if_splits)
  next
    case q': (Some q')
    with Some assms(2) query_probe_item [OF assms(3) _ q'] show ?thesis
      by (auto simp: QueryCache_Get_probe qc_items_def qc_lookup_overwrite [OF assms(1)] split: if_splits)
  qed
qed

lemma QueryCache_Get_item:
  assumes "qc_items P c" "ages P" "fst (QueryCache_Get t key req c) = Inr (m, rl)"
  shows "\<exists>it. P it \<and> m = toMsg it req"
  using assms query_probe_item [OF assms(2)]
  by (auto simp: QueryCache_Get_probe qc_items_def split: option.splits) blast

datatype qc_op = QGet time u64 msg | QSet nat time u64 msg | QRemove u64 | QLimit time u64

fun qc_step :: "query_cache \<Rightarrow> qc_op \<Rightarrow> query_cache" where
  "qc_step c (QGet t k req) = snd (QueryCache_Get t k req c)"
| "qc_step c (QSet r t k m) = QueryCache_Set r t k m c"
| "qc_step c (QRemove k) = QueryCache_Remove k c"
| "qc_step c (QLimit t k) = snd (QueryCache_Limit t k c)"

lemma query_cache_inv_run: "query_cache_inv n c \<Longrightarrow> query_cache_inv n (foldl qc_step c xs)"
proof (induction xs arbitrary: c)
  case (Cons x xs)
  then have "query_cache_inv n (qc_step c x)" by (cases x) (simp_all add: inv_intros)
  with Cons.IH show ?case by simp
qed simp

section \<open>Properties\<close>

text \<open>C8. The query cache stays within its bound over every run of its operations, whatever entries the evictions pick: each of
  the 256 shards has at most a 256th of the configured size and the whole cache at most the configured size, where sizes below
  1024 count as 1024 (four entries for each shard).\<close>

theorem query_cache_bounded:
  "list_all (\<lambda>s. shard_Len s \<le> max 4 (sz div 256)) (qc_shards (foldl qc_step (NewQueryCache sz rate) xs)) \<and>
   length (qc_shards (foldl qc_step (NewQueryCache sz rate) xs)) = 256 \<and>
   QueryCache_Len (foldl qc_step (NewQueryCache sz rate) xs) \<le> max 1024 sz"
proof -
  let ?c = "foldl qc_step (NewQueryCache sz rate) xs"
  have inv: "query_cache_inv (max 4 (sz div 256)) ?c"
    unfolding shard_part_max [symmetric] by (intro query_cache_inv_run query_cache_inv_new)
  then have "QueryCache_Len ?c \<le> 256 * max 4 (sz div 256)"
    unfolding QueryCache_Len_def query_cache_inv_array by (rule sh.array_len_bound)
  moreover have "256 * max 4 (sz div 256) \<le> max 1024 sz" by simp
  moreover have "list_all (\<lambda>s. shard_Len s \<le> max 4 (sz div 256)) (qc_shards ?c)" "length (qc_shards ?c) = 256"
    using inv by (auto simp: query_cache_inv_def shard_inv_def list_all_iff shardSize_def)
  ultimately show ?thesis by simp
qed

text \<open>C7. What is stored is what is served, with the TTLs counted down: a lookup after a store answers the
  stored message for the new request while no answer or authority record is overdue (its code, its
  AD and RA flags, copies of its records with the elapsed seconds taken off the answer and authority
  TTLs, never marked authoritative), and fails and drops the entry as soon as one is overdue. The additional
  records are copied with the TTLs they were stored with, and never make an entry overdue.\<close>

theorem query_cache_roundtrip:
  assumes "query_cache_inv n c" "t0 \<le> t" "t - trunc_sec t0 < second * 2 ^ 32"
  defines "aged \<equiv> map (\<lambda>r. rr_setTtl (rr_ttl r - word_of_int (t div second - t0 div second)) (rr_Copy r))"
  shows "(case fst (QueryCache_Get t key req (QueryCache_Set r t0 key m c)) of
     Inl e \<Rightarrow> e = ErrCacheExpired \<and>
       (\<exists>x \<in> set (m_Answer m @ m_Ns m). uint (rr_ttl x) < t div second - t0 div second) \<and>
       qc_lookup (snd (QueryCache_Get t key req (QueryCache_Set r t0 key m c))) key = None
   | Inr (resp, rl) \<Rightarrow>
       (\<forall>x \<in> set (m_Answer m @ m_Ns m). t div second - t0 div second \<le> uint (rr_ttl x)) \<and>
       resp = (SetReply msg_zero req)\<lparr>m_Authoritative := False, m_AuthenticatedData := m_AuthenticatedData m,
         m_RecursionAvailable := m_RecursionAvailable m, m_Rcode := m_Rcode m, m_Answer := aged (m_Answer m),
         m_Ns := aged (m_Ns m), m_Extra := map rr_Copy (m_Extra m)\<rparr>)"
proof -
  define el where "el = elapsed_sec (trunc_sec t) (trunc_sec t0)"
  have elu: "uint el = t div second - t0 div second"
    using assms(2,3) elapsed_since_stamp [of "trunc_sec t0" t] trunc_sec_le [of t0]
    by (simp add: el_def trunc_sec_div)
  have elw: "el = word_of_int (t div second - t0 div second)" using elu by (metis word_of_int_uint)
  define q where "q = \<lparr>qe_Item = newItem m, qe_RateLimit = RateLimiter_New (qc_rate c) (word_of_int second) (word_of_int t0),
      qe_UpdateTime = trunc_sec t0\<rparr>"
  have lk: "qc_lookup (QueryCache_Set r t0 key m c) key = Some q"
    using qc_lookup_Set_same [OF assms(1)] by (simp add: q_def)
  have cp: "rr_Copy (rr_setTtl x (rr_Copy y)) = rr_setTtl x (rr_Copy y)" for x y
    by (cases y; cases "Rdata y") (auto simp: rr_setTtl_def)
  show ?thesis
  proof (cases "query_probe t q")
    case None
    then have "\<exists>x \<in> set (m_Answer m @ m_Ns m). uint (rr_ttl x) < uint el"
      unfolding query_probe_None by (auto simp: qe_ttls_def q_def newItem_def el_def)
    then show ?thesis
      using None lk qc_lookup_Remove [OF query_cache_inv_Set [OF assms(1)]]
      by (simp add: QueryCache_Get_probe elu)
  next
    case (Some q')
    then obtain an ns where a: "age_section el (map rr_Copy (m_Answer m)) = Some an"
      "age_section el (map rr_Copy (m_Ns m)) = Some ns"
      "q' = q\<lparr>qe_Item := (newItem m)\<lparr>it_Answer := an, it_Ns := ns\<rparr>, qe_UpdateTime := trunc_sec t\<rparr>"
      by (auto simp: query_probe_def Let_def q_def newItem_def el_def split: option.splits)
    note sec = age_section_Some [OF a(1)] age_section_Some [OF a(2)]
    have "\<forall>x \<in> set (m_Answer m @ m_Ns m). uint el \<le> uint (rr_ttl x)"
      using sec by (auto simp: word_le_def)
    moreover have "an = aged (m_Answer m)" "ns = aged (m_Ns m)"
      using sec by (auto simp: aged_def elw)
    moreover have "map rr_Copy (aged xs) = aged xs" for xs by (simp add: aged_def cp)
    ultimately show ?thesis
      using Some lk a(3) by (simp add: QueryCache_Get_probe elu toMsg_def newItem_def q_def)
  qed
qed

theorem query_cache_roundtrip_witness:
  "fst (QueryCache_Get second 7 msg_zero (QueryCache_Set 0 0 7 (msg_zero\<lparr>m_Answer := [RR \<lparr>rh_Name = ''a.'', rh_Rrtype = 1,
     rh_Class = 1, rh_Ttl = 0\<rparr> (A_rd [])]\<rparr>) (NewQueryCache 1024 0))) = Inl ErrCacheExpired"
  using query_cache_roundtrip [OF query_cache_inv_new [of 1024 0], where t = second and ?t0.0 = 0 and key = 7
      and req = msg_zero and r = 0 and
      m = "msg_zero\<lparr>m_Answer := [RR \<lparr>rh_Name = ''a.'', rh_Rrtype = 1, rh_Class = 1, rh_Ttl = 0\<rparr> (A_rd [])]\<rparr>"]
  by (simp add: second_def trunc_sec_def split: sum.splits prod.splits)

end
