(* ===== verification/Lookup_Queue.thy ===== *)
theory Lookup_Queue
  imports Cache_Hash
begin

text \<open>
  The lookup queue (\<^verbatim>\<open>cache/lookup_queue.go\<close>), which lets concurrent requests for one question
  wait for the first of them. A channel is a number; \<^verbatim>\<open>make(chan struct{})\<close> takes a fresh
  one and closing a closed channel panics, as in Go.

  Beside the operations, the section on interleavings models any number of goroutines as stacks of calls: \<^verbatim>\<open>query\<close> of
  the handler (\<^verbatim>\<open>Wait\<close>, the cache check, \<^verbatim>\<open>Add\<close>, the resolution, the retry over TCP with its own \<^verbatim>\<open>Done\<close>, the deferred
  \<^verbatim>\<open>Done\<close>), \<^verbatim>\<open>lookupNSAddr\<close> of the resolver (\<^verbatim>\<open>Get\<close>, \<^verbatim>\<open>Add\<close>, the retry, the deferred \<^verbatim>\<open>Done\<close>), nested in each other as
  \<^verbatim>\<open>Resolve\<close> nests them, and the priming. Steps of different goroutines interleave freely. No interleaving closes a channel
  twice or leaves a key behind; a channel that \<^verbatim>\<open>Add\<close> overwrites is never closed, so its waiters are only released by
  their timeout.
\<close>

section \<open>The queue\<close>

record lqueue =
  lq_delay :: "(u64, nat) gmap"
  lq_closed :: "nat list"
  lq_next :: nat

definition NewLookupQueue :: lqueue where
  "NewLookupQueue = \<lparr>lq_delay = [], lq_closed = [], lq_next = 0\<rparr>"

definition LQueue_Get :: "u64 \<Rightarrow> lqueue \<Rightarrow> nat option" where
  "LQueue_Get key q = gmap_get (lq_delay q) key"

definition LQueue_Add :: "u64 \<Rightarrow> lqueue \<Rightarrow> lqueue" where
  "LQueue_Add key q = q\<lparr>lq_delay := gmap_set key (lq_next q) (lq_delay q), lq_next := Suc (lq_next q)\<rparr>"

definition chan_close :: "nat \<Rightarrow> lqueue \<Rightarrow> lqueue go" where
  "chan_close c q = (if c \<in> set (lq_closed q) then Panic ''close of closed channel''
                     else Ret (q\<lparr>lq_closed := c # lq_closed q\<rparr>))"

definition LQueue_Done :: "u64 \<Rightarrow> lqueue \<Rightarrow> lqueue go" where
  "LQueue_Done key q =
     go_bind (case gmap_get (lq_delay q) key of Some c \<Rightarrow> chan_close c q | None \<Rightarrow> Ret q)
       (\<lambda>q1. Ret (q1\<lparr>lq_delay := gmap_del key (lq_delay q1)\<rparr>))"

text \<open>\<^verbatim>\<open>Wait\<close> returns at once when the key is absent; otherwise it blocks on the channel until it is
  closed or ten seconds have passed.\<close>

definition wait_timeout :: time where
  "wait_timeout = 10 * second"

definition LQueue_Wait :: "u64 \<Rightarrow> lqueue \<Rightarrow> nat option" where
  "LQueue_Wait key q = gmap_get (lq_delay q) key"

definition wait_over :: "nat \<Rightarrow> time \<Rightarrow> lqueue \<Rightarrow> bool" where
  "wait_over c waited q \<longleftrightarrow> c \<in> set (lq_closed q) \<or> waited \<ge> wait_timeout"

definition gmap_vals :: "('k, 'v) gmap \<Rightarrow> 'v set" where
  "gmap_vals m = set (map snd m)"

definition lqueue_inv :: "lqueue \<Rightarrow> bool" where
  "lqueue_inv q \<longleftrightarrow> gmap_ok (lq_delay q) \<and> distinct (map snd (lq_delay q)) \<and>
     (\<forall>c \<in> gmap_vals (lq_delay q). c < lq_next q \<and> c \<notin> set (lq_closed q)) \<and>
     (\<forall>c \<in> set (lq_closed q). c < lq_next q)"

section \<open>Lemmas\<close>

lemma gmap_vals_get: "gmap_get m k = Some c \<Longrightarrow> c \<in> gmap_vals m"
  by (force simp: gmap_vals_def dest: map_of_SomeD)

lemma gmap_vals_set: "gmap_vals (gmap_set k v m) \<subseteq> insert v (gmap_vals m)"
  by (induction m) (auto simp: gmap_vals_def)

lemma gmap_vals_del: "gmap_vals (gmap_del k m) \<subseteq> gmap_vals m"
  by (induction m) (auto simp: gmap_vals_def)

lemma distinct_vals_set:
  "distinct (map snd m) \<Longrightarrow> v \<notin> gmap_vals m \<Longrightarrow> distinct (map snd (gmap_set k v m))"
proof (induction m)
  case (Cons p m)
  then show ?case using gmap_vals_set [of k v m] by (cases p) (auto simp: gmap_vals_def)
qed simp

lemma distinct_vals_del: "distinct (map snd m) \<Longrightarrow> distinct (map snd (gmap_del k m))"
proof (induction m)
  case (Cons p m)
  then show ?case using gmap_vals_del [of k m] by (cases p) (auto simp: gmap_vals_def)
qed simp

lemma gmap_vals_Cons: "gmap_vals (p # m) = insert (snd p) (gmap_vals m)"
  by (simp add: gmap_vals_def)

lemma deleted_val_gone:
  "distinct (map snd m) \<Longrightarrow> gmap_ok m \<Longrightarrow> gmap_get m k = Some c \<Longrightarrow> c \<notin> gmap_vals (gmap_del k m)"
proof (induction m)
  case (Cons p m)
  have "snd p \<notin> gmap_vals m" using Cons.prems by (simp add: gmap_vals_def)
  show ?case
  proof (cases "fst p = k")
    case True
    with Cons.prems have "snd p = c" by (cases p) simp
    with True \<open>snd p \<notin> _\<close> gmap_vals_del [of k m] show ?thesis by (cases p) auto
  next
    case False
    with Cons.prems have "gmap_get m k = Some c" by (cases p) simp
    with False Cons gmap_vals_get [OF this] \<open>snd p \<notin> _\<close> show ?thesis
      by (cases p) (auto simp: gmap_vals_Cons)
  qed
qed simp

lemma overwritten_val_gone:
  "distinct (map snd m) \<Longrightarrow> gmap_ok m \<Longrightarrow> gmap_get m k = Some c \<Longrightarrow> c \<noteq> v \<Longrightarrow> c \<notin> gmap_vals (gmap_set k v m)"
proof (induction m)
  case (Cons p m)
  have "snd p \<notin> gmap_vals m" using Cons.prems by (simp add: gmap_vals_def)
  show ?case
  proof (cases "fst p = k")
    case True
    with Cons.prems \<open>snd p \<notin> _\<close> show ?thesis by (cases p) (simp add: gmap_vals_Cons)
  next
    case False
    with Cons.prems have "gmap_get m k = Some c" by (cases p) simp
    with False Cons gmap_vals_get [OF this] \<open>snd p \<notin> _\<close> show ?thesis
      by (cases p) (auto simp: gmap_vals_Cons)
  qed
qed simp

lemma lqueue_invD:
  assumes "lqueue_inv q"
  shows "gmap_ok (lq_delay q)" "distinct (map snd (lq_delay q))"
    "c \<in> gmap_vals (lq_delay q) \<Longrightarrow> c < lq_next q \<and> c \<notin> set (lq_closed q)"
    "c \<in> set (lq_closed q) \<Longrightarrow> c < lq_next q"
  using assms by (auto simp: lqueue_inv_def)

lemma lqueue_inv_new [inv_intros]: "lqueue_inv NewLookupQueue"
  by (simp add: lqueue_inv_def NewLookupQueue_def gmap_vals_def)

lemma lqueue_inv_Add [inv_intros]:
  assumes "lqueue_inv q"
  shows "lqueue_inv (LQueue_Add key q)"
proof -
  note D = lqueue_invD [OF assms]
  have new: "lq_next q \<notin> gmap_vals (lq_delay q)" "lq_next q \<notin> set (lq_closed q)"
    using D(3) [of "lq_next q"] D(4) [of "lq_next q"] by blast+
  moreover have "c < Suc (lq_next q) \<and> c \<notin> set (lq_closed q)"
    if "c \<in> gmap_vals (gmap_set key (lq_next q) (lq_delay q))" for c
    using that gmap_vals_set [of key "lq_next q" "lq_delay q"] D(3) [of c] new by auto
  ultimately show ?thesis
    using D(1,2,4) by (auto simp: lqueue_inv_def LQueue_Add_def distinct_vals_set less_SucI)
qed

lemma LQueue_Done_Ret:
  assumes "lqueue_inv q"
  shows "LQueue_Done key q =
     Ret (q\<lparr>lq_delay := gmap_del key (lq_delay q),
            lq_closed := (case gmap_get (lq_delay q) key of Some c \<Rightarrow> [c] | None \<Rightarrow> []) @ lq_closed q\<rparr>)"
proof (cases "gmap_get (lq_delay q) key")
  case (Some c)
  then show ?thesis
    using lqueue_invD(3) [OF assms gmap_vals_get [OF Some]] by (simp add: LQueue_Done_def chan_close_def)
qed (simp add: LQueue_Done_def)

lemma lqueue_inv_Done [inv_intros]:
  assumes "lqueue_inv q" and "LQueue_Done key q = Ret q'"
  shows "lqueue_inv q'"
proof -
  let ?m = "lq_delay q"
  note D = lqueue_invD [OF assms(1)]
  have q': "q' = q\<lparr>lq_delay := gmap_del key ?m,
      lq_closed := (case gmap_get ?m key of Some c \<Rightarrow> [c] | None \<Rightarrow> []) @ lq_closed q\<rparr>"
    using assms LQueue_Done_Ret [OF assms(1)] by simp
  show ?thesis
  proof (cases "gmap_get ?m key")
    case None
    with assms(1) q' show ?thesis by (simp add: lqueue_inv_def gmap_del_absent)
  next
    case (Some c)
    have "c < lq_next q" using D(3) gmap_vals_get [OF Some] by blast
    moreover have "x < lq_next q \<and> x \<noteq> c \<and> x \<notin> set (lq_closed q)" if "x \<in> gmap_vals (gmap_del key ?m)" for x
      using that gmap_vals_del [of key ?m] D(3) [of x] deleted_val_gone [OF D(2,1) Some] by blast
    ultimately show ?thesis
      using Some q' D by (simp add: lqueue_inv_def distinct_vals_del)
  qed
qed

section \<open>Sequences of operations\<close>

datatype lq_op = LAdd u64 | LDone u64

fun lq_run :: "lq_op list \<Rightarrow> lqueue \<Rightarrow> lqueue go" where
  "lq_run [] q = Ret q"
| "lq_run (LAdd k # xs) q = lq_run xs (LQueue_Add k q)"
| "lq_run (LDone k # xs) q = go_bind (LQueue_Done k q) (lq_run xs)"

lemma lq_run_inv: "lqueue_inv q \<Longrightarrow> \<exists>q'. lq_run xs q = Ret q' \<and> lqueue_inv q'"
proof (induction xs q rule: lq_run.induct)
  case (3 k xs q)
  obtain q1 where "LQueue_Done k q = Ret q1" using LQueue_Done_Ret [OF 3(2)] by simp
  with 3 lqueue_inv_Done [OF 3(2) this] show ?case by simp
qed (simp_all add: inv_intros)

definition orphan :: "nat \<Rightarrow> lqueue \<Rightarrow> bool" where
  "orphan c q \<longleftrightarrow> c < lq_next q \<and> c \<notin> set (lq_closed q) \<and> c \<notin> gmap_vals (lq_delay q)"

lemma orphan_Add: "orphan c q \<Longrightarrow> orphan c (LQueue_Add k q)"
  using gmap_vals_set [of k "lq_next q" "lq_delay q"] by (auto simp: orphan_def LQueue_Add_def)

lemma orphan_Done: "lqueue_inv q \<Longrightarrow> orphan c q \<Longrightarrow> LQueue_Done k q = Ret q' \<Longrightarrow> orphan c q'"
  using gmap_vals_del [of k "lq_delay q"]
  by (auto simp: LQueue_Done_Ret orphan_def dest: gmap_vals_get split: option.splits)

lemma orphan_run: "lqueue_inv q \<Longrightarrow> orphan c q \<Longrightarrow> lq_run xs q = Ret q' \<Longrightarrow> orphan c q'"
proof (induction xs q rule: lq_run.induct)
  case (3 k xs q)
  obtain q1 where q1: "LQueue_Done k q = Ret q1" using LQueue_Done_Ret [OF 3(2)] by simp
  have "orphan c q'"
    by (rule 3(1) [of q1]) (use q1 3 lqueue_inv_Done [OF 3(2) q1] orphan_Done [OF 3(2,3) q1] in simp_all)
  then show ?case .
qed (simp_all add: inv_intros orphan_Add)

text \<open>Overwriting a key that is being waited for makes its channel an orphan.\<close>

lemma overwritten_orphan:
  assumes "lqueue_inv q" "LQueue_Get k q = Some c"
  shows "orphan c (LQueue_Add k q)"
proof -
  note D = lqueue_invD [OF assms(1)]
  have get: "gmap_get (lq_delay q) k = Some c" using assms(2) by (simp add: LQueue_Get_def)
  then have c: "c < lq_next q" "c \<notin> set (lq_closed q)"
    using D(3) [OF gmap_vals_get [OF get]] by simp_all
  with overwritten_val_gone [OF D(2,1) get, of "lq_next q"] show ?thesis
    by (simp add: orphan_def LQueue_Add_def)
qed

section \<open>Interleavings of goroutines\<close>

text \<open>
  A goroutine is its stack of calls, the running one first. \<open>Query_start\<close> is \<^verbatim>\<open>DNSHandler.query\<close> before \<^verbatim>\<open>Wait\<close>,
  \<open>Query_waits\<close> blocked in it, \<open>Query_checks\<close> between \<^verbatim>\<open>Wait\<close> and \<^verbatim>\<open>Add\<close>, \<open>Query_hits\<close> a cache hit that follows an alias,
  \<open>Query_resolves\<close> after \<^verbatim>\<open>Add\<close>, and \<open>Query_leaves\<close> returning, with the deferred \<^verbatim>\<open>Done\<close> still to run. The \<open>NS\<close> frames are
  those of \<^verbatim>\<open>Resolver.lookupNSAddr\<close>, and \<open>Primes\<close> is \<^verbatim>\<open>checkPriming\<close>. Between the calls of the queue a frame may call
  \<^verbatim>\<open>Resolve\<close>, which calls \<^verbatim>\<open>lookupNSAddr\<close> for any names. The panic of a call unwinds its frames as a return does, through
  the deferred \<^verbatim>\<open>Done\<close>.
\<close>

datatype lq_frame =
    Query_start u64 | Query_waits u64 nat | Query_checks u64 | Query_hits u64 | Query_resolves u64 | Query_leaves u64
  | NS_start u64 | NS_checks u64 | NS_resolves u64 | NS_leaves u64 | Primes

text \<open>The frames that replace the running one, and the queue after the step. The retry over TCP of a truncated answer runs
  \<^verbatim>\<open>Done\<close> at once and again, deferred, when the second call has returned.\<close>

inductive query_frame :: "lqueue \<Rightarrow> lq_frame \<Rightarrow> lq_frame list \<Rightarrow> lqueue \<Rightarrow> bool" where
  refuse: "query_frame q (Query_start k) [] q"
| pass: "LQueue_Wait k q = None \<Longrightarrow> query_frame q (Query_start k) [Query_checks k] q"
| block: "LQueue_Wait k q = Some c \<Longrightarrow> query_frame q (Query_start k) [Query_waits k c] q"
| wake: "wait_over c waited q \<Longrightarrow> query_frame q (Query_waits k c) [Query_checks k] q"
| answered: "query_frame q (Query_checks k) [] q"
| hit: "query_frame q (Query_checks k) [Query_hits k] q"
| hit_calls: "query_frame q (Query_hits k) [NS_start k', Query_hits k] q"
| hit_returns: "query_frame q (Query_hits k) [] q"
| add: "query_frame q (Query_checks k) [Query_resolves k] (LQueue_Add k q)"
| calls: "query_frame q (Query_resolves k) [NS_start k', Query_resolves k] q"
| retry: "LQueue_Done k q = Ret q' \<Longrightarrow> query_frame q (Query_resolves k) [Query_start k, Query_leaves k] q'"
| returns: "query_frame q (Query_resolves k) [Query_leaves k] q"
| deferred: "LQueue_Done k q = Ret q' \<Longrightarrow> query_frame q (Query_leaves k) [] q'"

inductive nsaddr_frame :: "lqueue \<Rightarrow> lq_frame \<Rightarrow> lq_frame list \<Rightarrow> lqueue \<Rightarrow> bool" where
  loop: "LQueue_Get k q = Some c \<Longrightarrow> nsaddr_frame q (NS_start k) [] q"
| absent: "LQueue_Get k q = None \<Longrightarrow> nsaddr_frame q (NS_start k) [NS_checks k] q"
| cached: "nsaddr_frame q (NS_checks k) [] q"
| add: "nsaddr_frame q (NS_checks k) [NS_resolves k] (LQueue_Add k q)"
| calls: "nsaddr_frame q (NS_resolves k) [NS_start k', NS_resolves k] q"
| retry: "LQueue_Done k q = Ret q' \<Longrightarrow> nsaddr_frame q (NS_resolves k) [NS_start k, NS_leaves k] q'"
| returns: "nsaddr_frame q (NS_resolves k) [NS_leaves k] q"
| deferred: "LQueue_Done k q = Ret q' \<Longrightarrow> nsaddr_frame q (NS_leaves k) [] q'"

record lq_sys =
  sys_q :: lqueue
  sys_stack :: "nat \<Rightarrow> lq_frame list"

definition lq_init :: lq_sys where
  "lq_init = \<lparr>sys_q = NewLookupQueue, sys_stack = (\<lambda>_. [])\<rparr>"

definition sys_replace :: "nat \<Rightarrow> lq_frame list \<Rightarrow> lqueue \<Rightarrow> lq_sys \<Rightarrow> lq_sys" where
  "sys_replace g fs q s = s\<lparr>sys_q := q, sys_stack := (sys_stack s)(g := fs)\<rparr>"

text \<open>A step of any goroutine, the arrival of a request or a tick of the priming ticker. Each queue operation holds the lock,
  so it is one step.\<close>

inductive lq_step :: "lq_sys \<Rightarrow> lq_sys \<Rightarrow> bool" where
  arrives: "sys_stack s g = [] \<Longrightarrow> lq_step s (sys_replace g [Query_start k] (sys_q s) s)"
| ticks: "sys_stack s g = [] \<Longrightarrow> lq_step s (sys_replace g [Primes] (sys_q s) s)"
| query: "sys_stack s g = f # fs \<Longrightarrow> query_frame (sys_q s) f gs q' \<Longrightarrow> lq_step s (sys_replace g (gs @ fs) q' s)"
| nsaddr: "sys_stack s g = f # fs \<Longrightarrow> nsaddr_frame (sys_q s) f gs q' \<Longrightarrow> lq_step s (sys_replace g (gs @ fs) q' s)"
| primes: "sys_stack s g = Primes # fs \<Longrightarrow> lq_step s (sys_replace g (NS_start k # Primes # fs) (sys_q s) s)"
| primed: "sys_stack s g = Primes # fs \<Longrightarrow> lq_step s (sys_replace g fs (sys_q s) s)"

abbreviation lq_steps :: "lq_sys \<Rightarrow> lq_sys \<Rightarrow> bool" where
  "lq_steps \<equiv> lq_step\<^sup>*\<^sup>*"

section \<open>The invariant of the interleavings\<close>

text \<open>The frames that still run \<^verbatim>\<open>Done\<close> for a key. Every key of the queue has one.\<close>

fun holds_key :: "u64 \<Rightarrow> lq_frame \<Rightarrow> bool" where
  "holds_key k (Query_resolves k') = (k' = k)"
| "holds_key k (Query_leaves k') = (k' = k)"
| "holds_key k (NS_resolves k') = (k' = k)"
| "holds_key k (NS_leaves k') = (k' = k)"
| "holds_key k _ = False"

definition held :: "u64 \<Rightarrow> lq_sys \<Rightarrow> bool" where
  "held k s \<longleftrightarrow> (\<exists>g. list_ex (holds_key k) (sys_stack s g))"

definition lq_sys_inv :: "lq_sys \<Rightarrow> bool" where
  "lq_sys_inv s \<longleftrightarrow> lqueue_inv (sys_q s) \<and> (\<forall>k c. LQueue_Get k (sys_q s) = Some c \<longrightarrow> held k s)"

lemma LQueue_Get_Add: "LQueue_Get k (LQueue_Add k' q) = (if k = k' then Some (lq_next q) else LQueue_Get k q)"
  by (simp add: LQueue_Get_def LQueue_Add_def gmap_get_set)

lemma LQueue_Get_Done:
  "lqueue_inv q \<Longrightarrow> LQueue_Done k' q = Ret q' \<Longrightarrow> LQueue_Get k q' = (if k = k' then None else LQueue_Get k q)"
  by (auto simp: LQueue_Done_Ret LQueue_Get_def gmap_get_del lqueue_inv_def)

text \<open>What a step of the running frame does to the queue: the invariant stays, and a key that is queued afterwards is held by
  the new frames, unless it was queued before and the frame did not hold it.\<close>

definition frame_ok :: "lqueue \<Rightarrow> lq_frame \<Rightarrow> lq_frame list \<Rightarrow> lqueue \<Rightarrow> bool" where
  "frame_ok q f gs q' \<longleftrightarrow> lqueue_inv q' \<and>
     (\<forall>k c. LQueue_Get k q' = Some c \<longrightarrow> list_ex (holds_key k) gs \<or> (\<not> holds_key k f \<and> LQueue_Get k q \<noteq> None))"

lemma query_frame_ok: "query_frame q f gs q' \<Longrightarrow> lqueue_inv q \<Longrightarrow> frame_ok q f gs q'"
  by (induction rule: query_frame.induct)
     (auto simp: frame_ok_def LQueue_Get_Add LQueue_Get_Done lqueue_inv_Add intro: lqueue_inv_Done split: if_split_asm)

lemma nsaddr_frame_ok: "nsaddr_frame q f gs q' \<Longrightarrow> lqueue_inv q \<Longrightarrow> frame_ok q f gs q'"
  by (induction rule: nsaddr_frame.induct)
     (auto simp: frame_ok_def LQueue_Get_Add LQueue_Get_Done lqueue_inv_Add intro: lqueue_inv_Done split: if_split_asm)

lemma held_replace:
  "held k (sys_replace g fs q s) \<longleftrightarrow> list_ex (holds_key k) fs \<or> (\<exists>h. h \<noteq> g \<and> list_ex (holds_key k) (sys_stack s h))"
  by (auto simp: held_def sys_replace_def)

lemma held_split: "held k s \<longleftrightarrow> list_ex (holds_key k) (sys_stack s g) \<or> (\<exists>h. h \<noteq> g \<and> list_ex (holds_key k) (sys_stack s h))"
  by (auto simp: held_def)

lemma lq_sys_inv_frame:
  assumes "lq_sys_inv s" "sys_stack s g = f # fs" "frame_ok (sys_q s) f gs q'"
  shows "lq_sys_inv (sys_replace g (gs @ fs) q' s)"
proof -
  have "held k (sys_replace g (gs @ fs) q' s)" if "LQueue_Get k q' = Some c" for k c
    using that assms held_split [of k s g] by (fastforce simp: held_replace frame_ok_def lq_sys_inv_def)
  with assms(3) show ?thesis by (simp add: lq_sys_inv_def frame_ok_def sys_replace_def)
qed

lemma frame_ok_same: "lqueue_inv q \<Longrightarrow> (\<And>k. \<not> holds_key k f) \<Longrightarrow> frame_ok q f gs q"
  by (simp add: frame_ok_def)

lemma lq_step_inv: "lq_step s t \<Longrightarrow> lq_sys_inv s \<Longrightarrow> lq_sys_inv t"
proof (induction rule: lq_step.induct)
  case (arrives s g k)
  then show ?case by (auto simp: lq_sys_inv_def held_replace held_split [of _ s g]) (simp_all add: sys_replace_def)
next
  case (ticks s g)
  then show ?case by (auto simp: lq_sys_inv_def held_replace held_split [of _ s g]) (simp_all add: sys_replace_def)
next
  case (query s g f fs gs q')
  then show ?case by (auto intro: lq_sys_inv_frame query_frame_ok simp: lq_sys_inv_def [of s])
next
  case (nsaddr s g f fs gs q')
  then show ?case by (auto intro: lq_sys_inv_frame nsaddr_frame_ok simp: lq_sys_inv_def [of s])
next
  case (primes s g fs k)
  then show ?case using lq_sys_inv_frame [OF primes(2,1) frame_ok_same, of "[NS_start k, Primes]"] by (simp add: lq_sys_inv_def)
next
  case (primed s g fs)
  then show ?case using lq_sys_inv_frame [OF primed(2,1) frame_ok_same, of "[]"] by (simp add: lq_sys_inv_def)
qed

lemma lq_init_inv: "lq_sys_inv lq_init"
  by (simp add: lq_sys_inv_def lq_init_def lqueue_inv_new) (simp add: LQueue_Get_def NewLookupQueue_def)

lemma lq_steps_inv: "lq_steps s t \<Longrightarrow> lq_sys_inv s \<Longrightarrow> lq_sys_inv t"
  by (induction rule: rtranclp_induct) (auto intro: lq_step_inv)

text \<open>The running frame can always be left by steps of its own goroutine alone, whatever the others do meanwhile.\<close>

lemma lq_sys_inv_Done: "lq_sys_inv s \<Longrightarrow> \<exists>q'. LQueue_Done k (sys_q s) = Ret q'"
  by (simp add: lq_sys_inv_def LQueue_Done_Ret)

lemma sys_replace_sel [simp]:
  "sys_q (sys_replace g fs q s) = q" "sys_stack (sys_replace g fs q s) h = (if h = g then fs else sys_stack s h)"
  by (simp_all add: sys_replace_def)

fun frame_work :: "lq_frame \<Rightarrow> nat" where
  "frame_work (Query_waits _ _) = 2"
| "frame_work (Query_resolves _) = 2"
| "frame_work (NS_start _) = 2"
| "frame_work (NS_resolves _) = 2"
| "frame_work _ = 1"

lemma frame_runs:
  assumes "lq_sys_inv s" "sys_stack s g = f # fs"
  shows "\<exists>gs q'. lq_step s (sys_replace g (gs @ fs) q' s) \<and> sum_list (map frame_work gs) < frame_work f"
proof -
  let ?P = "\<exists>gs q'. lq_step s (sys_replace g (gs @ fs) q' s) \<and> sum_list (map frame_work gs) < frame_work f"
  have query: ?P if "query_frame (sys_q s) f gs q'" "sum_list (map frame_work gs) < frame_work f" for gs q'
    using lq_step.query [OF assms(2) that(1)] that(2) by blast
  have nsaddr: ?P if "nsaddr_frame (sys_q s) f gs q'" "sum_list (map frame_work gs) < frame_work f" for gs q'
    using lq_step.nsaddr [OF assms(2) that(1)] that(2) by blast
  obtain d where d: "\<And>k. LQueue_Done k (sys_q s) = Ret (d k)" using lq_sys_inv_Done [OF assms(1)] by metis
  have over: "wait_over c wait_timeout (sys_q s)" for c by (simp add: wait_over_def)
  show ?P
  proof (cases f)
    case (NS_start k)
    show ?thesis
    proof (cases "LQueue_Get k (sys_q s)")
      case None
      with NS_start nsaddr [of "[NS_checks k]" "sys_q s"] show ?thesis by (simp add: nsaddr_frame.absent)
    next
      case (Some c)
      with NS_start nsaddr [of "[]" "sys_q s"] show ?thesis by (simp add: nsaddr_frame.loop)
    qed
  next
    case Primes
    with lq_step.primed [of s g fs] assms(2) have "lq_step s (sys_replace g ([] @ fs) (sys_q s) s)" by simp
    with Primes show ?thesis by (metis frame_work.simps list.map(1) sum_list.Nil zero_less_one)
  next
    case (Query_waits k c)
    with query [of "[Query_checks k]" "sys_q s"] show ?thesis by (simp add: query_frame.wake [OF over])
  next
    case (Query_resolves k)
    with query [of "[Query_leaves k]" "sys_q s"] show ?thesis by (simp add: query_frame.returns)
  next
    case (NS_resolves k)
    with nsaddr [of "[NS_leaves k]" "sys_q s"] show ?thesis by (simp add: nsaddr_frame.returns)
  next
    case (Query_leaves k)
    with query [of "[]" "d k"] show ?thesis by (simp add: query_frame.deferred [OF d])
  next
    case (NS_leaves k)
    with nsaddr [of "[]" "d k"] show ?thesis by (simp add: nsaddr_frame.deferred [OF d])
  qed (use query [of "[]" "sys_q s"] nsaddr [of "[]" "sys_q s"] in \<open>simp_all add: query_frame.intros nsaddr_frame.intros\<close>)
qed

lemma goroutine_ends:
  "lq_sys_inv s \<Longrightarrow> \<exists>t. lq_steps s t \<and> sys_stack t g = [] \<and> (\<forall>h. h \<noteq> g \<longrightarrow> sys_stack t h = sys_stack s h)"
proof (induction "sum_list (map frame_work (sys_stack s g))" arbitrary: s rule: less_induct)
  case less
  show ?case
  proof (cases "sys_stack s g")
    case (Cons f fs)
    obtain gs q' where st: "lq_step s (sys_replace g (gs @ fs) q' s)" "sum_list (map frame_work gs) < frame_work f"
      using frame_runs [OF less(2) Cons] by blast
    have "sum_list (map frame_work (sys_stack (sys_replace g (gs @ fs) q' s) g)) < sum_list (map frame_work (sys_stack s g))"
      using st(2) Cons by simp
    from less(1) [OF this lq_step_inv [OF st(1) less(2)]] obtain t where
      "lq_steps (sys_replace g (gs @ fs) q' s) t" "sys_stack t g = []" "\<forall>h. h \<noteq> g \<longrightarrow> sys_stack t h = sys_stack s h" by auto
    with st(1) show ?thesis by (meson converse_rtranclp_into_rtranclp)
  qed auto
qed

section \<open>Properties\<close>

text \<open>C27. No channel is closed twice, no goroutine is stuck and no key is forgotten. In every state that any interleaving of
  request, priming and name-server lookups reaches, with retries that run \<^verbatim>\<open>Done\<close> twice and lookups nested in each other,
  \<^verbatim>\<open>Done\<close> on any key returns instead of panicking; every goroutine can return from all its calls by steps of its own, a
  waiting one by its timeout at the latest; and a key that is in the queue belongs to a call that has its \<^verbatim>\<open>Done\<close> still to
  run, so that the queue is empty once all goroutines have ended.\<close>

theorem lookup_queue_no_double_close:
  assumes "lq_steps lq_init s"
  shows "(\<exists>q'. LQueue_Done key (sys_q s) = Ret q') \<and>
    (\<exists>t. lq_steps s t \<and> sys_stack t g = [] \<and> (\<forall>h. h \<noteq> g \<longrightarrow> sys_stack t h = sys_stack s h)) \<and>
    (LQueue_Get key (sys_q s) \<noteq> None \<longrightarrow> (\<exists>h. \<exists>f \<in> set (sys_stack s h). f \<in> {Query_resolves key, Query_leaves key, NS_resolves key, NS_leaves key}))"
proof -
  have inv: "lq_sys_inv s" by (rule lq_steps_inv [OF assms lq_init_inv])
  have "f \<in> {Query_resolves key, Query_leaves key, NS_resolves key, NS_leaves key}" if "holds_key key f" for f
    using that by (cases f) auto
  then have "\<exists>h. \<exists>f \<in> set (sys_stack s h). f \<in> {Query_resolves key, Query_leaves key, NS_resolves key, NS_leaves key}"
    if "LQueue_Get key (sys_q s) \<noteq> None" using that inv by (fastforce simp: lq_sys_inv_def held_def list_ex_iff)
  with lq_sys_inv_Done [OF inv] goroutine_ends [OF inv] show ?thesis by blast
qed

text \<open>A request whose truncated answer is retried: \<^verbatim>\<open>Done\<close> has run once and its frame waits for the second call to return.\<close>

definition demo_retry :: lq_sys where
  "demo_retry = sys_replace 0 [Query_start 5, Query_leaves 5] \<lparr>lq_delay = [], lq_closed = [0], lq_next = 1\<rparr> lq_init"

lemma demo_retry_reachable: "lq_steps lq_init demo_retry"
proof -
  define at where "at fs q = sys_replace 0 fs q lq_init" for fs q
  have at: "sys_stack (at fs q) 0 = fs" "sys_q (at fs q) = q" "sys_replace 0 fs' q' (at fs q) = at fs' q'" for fs fs' q q'
    by (simp_all add: at_def) (simp add: sys_replace_def)
  have run: "lq_step (at (f # fs) q) (at (gs @ fs) q')" if "query_frame q f gs q'" for f fs gs q q'
    using lq_step.query [of "at (f # fs) q" 0 f fs gs q'] that by (simp add: at)
  have s1: "lq_step lq_init (at [Query_start 5] NewLookupQueue)"
    using lq_step.arrives [of lq_init 0 5] by (simp add: at_def lq_init_def)
  have s2: "lq_step (at [Query_start 5] NewLookupQueue) (at [Query_checks 5] NewLookupQueue)"
    using run [OF query_frame.pass [of 5 NewLookupQueue], of "[]"] by (simp add: LQueue_Wait_def NewLookupQueue_def)
  have s3: "lq_step (at [Query_checks 5] NewLookupQueue) (at [Query_resolves 5] (LQueue_Add 5 NewLookupQueue))"
    using run [OF query_frame.add [of NewLookupQueue 5], of "[]"] by simp
  have d: "LQueue_Done 5 (LQueue_Add 5 NewLookupQueue) = Ret \<lparr>lq_delay = [], lq_closed = [0], lq_next = 1\<rparr>"
    by (simp add: LQueue_Done_def LQueue_Add_def NewLookupQueue_def chan_close_def)
  have s4: "lq_step (at [Query_resolves 5] (LQueue_Add 5 NewLookupQueue)) demo_retry"
    using run [OF query_frame.retry [OF d], of "[]"] by (simp add: demo_retry_def at_def)
  show ?thesis by (meson s1 s2 s3 s4 r_into_rtranclp rtranclp.rtrancl_into_rtrancl)
qed

theorem lookup_queue_no_double_close_witness:
  "(\<exists>q'. LQueue_Done 5 (sys_q demo_retry) = Ret q') \<and> (\<exists>t. lq_steps demo_retry t \<and> sys_stack t 0 = [])"
  using lookup_queue_no_double_close [OF demo_retry_reachable, of 5 0] by blast

text \<open>C28. A waiter can be forgotten: if \<^verbatim>\<open>Add\<close> runs for a key that already has a channel (two requests
  that both passed \<^verbatim>\<open>Wait\<close> before either ran \<^verbatim>\<open>Add\<close>), the old channel is never closed, whatever
  sequence of \<^verbatim>\<open>Add\<close> and \<^verbatim>\<open>Done\<close> calls follows, so whoever waits on it is released by the ten-second
  timeout only.\<close>

theorem lookup_queue_overwritten_never_closed:
  assumes "lqueue_inv q" "LQueue_Get key q = Some c" "lq_run xs (LQueue_Add key q) = Ret q'"
  shows "wait_over c waited q' \<longleftrightarrow> wait_timeout \<le> waited"
proof -
  have "orphan c q'"
    using orphan_run [OF lqueue_inv_Add [OF assms(1)] overwritten_orphan [OF assms(1,2)] assms(3)] .
  then show ?thesis by (simp add: orphan_def wait_over_def)
qed

theorem lookup_queue_overwritten_never_closed_witness:
  "wait_over 0 3 (\<lparr>lq_delay = [], lq_closed = [1], lq_next = 2\<rparr>) \<longleftrightarrow> wait_timeout \<le> 3"
  by (rule lookup_queue_overwritten_never_closed [of "LQueue_Add 7 NewLookupQueue" 7 0 "[LDone 7, LDone 7]"])
     (simp_all add: inv_intros, simp_all add: LQueue_Add_def LQueue_Get_def NewLookupQueue_def LQueue_Done_def chan_close_def)

end
