(* ===== verification/Block_Cache.thy ===== *)
theory Block_Cache
  imports Dns_Labels
begin

text \<open>
  The block list (\<^verbatim>\<open>cache/block_cache.go\<close>), a map from lower-cased names. Its users (the
  handler, the HTTP API and the list updater) see it through the locale \<open>name_set\<close>: a set of
  names up to ASCII case. The interpretation \<open>bl\<close> discharges the laws for the model.
\<close>

record block_cache =
  bc_m :: "(string, bool) gmap"

definition NewBlockCache :: block_cache where
  "NewBlockCache = \<lparr>bc_m = []\<rparr>"

text \<open>\<^verbatim>\<open>Get\<close> answers the value and whether there was no error.\<close>

definition BlockCache_Get :: "string \<Rightarrow> block_cache \<Rightarrow> bool \<times> bool" where
  "BlockCache_Get key c =
     (let key = to_lower key
      in case gmap_get (bc_m c) key of None \<Rightarrow> (False, False) | Some v \<Rightarrow> (v, True))"

definition BlockCache_Remove :: "string \<Rightarrow> block_cache \<Rightarrow> block_cache" where
  "BlockCache_Remove key c = (let key = to_lower key in c\<lparr>bc_m := gmap_del key (bc_m c)\<rparr>)"

definition BlockCache_Set :: "string \<Rightarrow> block_cache \<Rightarrow> block_cache" where
  "BlockCache_Set key c = (let key = to_lower key in c\<lparr>bc_m := gmap_set key True (bc_m c)\<rparr>)"

definition BlockCache_Exists :: "string \<Rightarrow> block_cache \<Rightarrow> bool" where
  "BlockCache_Exists key c = (let key = to_lower key in gmap_get (bc_m c) key \<noteq> None)"

definition BlockCache_Length :: "block_cache \<Rightarrow> int" where
  "BlockCache_Length c = int (length (bc_m c))"

text \<open>Every value is true, and every key is lower-cased and occurs once.\<close>

definition block_cache_inv :: "block_cache \<Rightarrow> bool" where
  "block_cache_inv c \<longleftrightarrow> gmap_ok (bc_m c) \<and> (\<forall>(k, v) \<in> set (bc_m c). v \<and> to_lower k = k)"

section \<open>Lemmas\<close>

lemma BlockCache_Exists_Set [simp]:
  "BlockCache_Exists k (BlockCache_Set key c) \<longleftrightarrow> to_lower k = to_lower key \<or> BlockCache_Exists k c"
  by (auto simp: BlockCache_Exists_def BlockCache_Set_def Let_def)

lemma BlockCache_Exists_Remove [simp]:
  "BlockCache_Exists k (BlockCache_Remove key c) \<longleftrightarrow> to_lower k \<noteq> to_lower key \<and> BlockCache_Exists k c"
  by (auto simp: BlockCache_Exists_def BlockCache_Remove_def Let_def)

lemma BlockCache_Exists_new [simp]: "\<not> BlockCache_Exists k NewBlockCache"
  by (simp add: BlockCache_Exists_def NewBlockCache_def)

lemma bc_set_entries: "(k, v) \<in> set (gmap_set k' v' m) \<Longrightarrow> (k, v) = (k', v') \<or> (k, v) \<in> set m"
  by (induction m) (auto split: if_splits)

lemma bc_del_entries: "(k, v) \<in> set (gmap_del k' m) \<Longrightarrow> (k, v) \<in> set m"
  by (induction m) (auto split: if_splits)

lemma block_cache_inv_new [inv_intros]: "block_cache_inv NewBlockCache"
  by (simp add: block_cache_inv_def NewBlockCache_def)

lemma block_cache_inv_Set [inv_intros]: "block_cache_inv c \<Longrightarrow> block_cache_inv (BlockCache_Set k c)"
  by (auto simp: block_cache_inv_def BlockCache_Set_def Let_def dest!: bc_set_entries)

lemma block_cache_inv_Remove [inv_intros]: "block_cache_inv c \<Longrightarrow> block_cache_inv (BlockCache_Remove k c)"
  by (auto simp: block_cache_inv_def BlockCache_Remove_def Let_def dest!: bc_del_entries)

lemma BlockCache_Get_inv:
  "block_cache_inv c \<Longrightarrow> BlockCache_Get k c = (BlockCache_Exists k c, BlockCache_Exists k c)"
  by (force simp: BlockCache_Get_def BlockCache_Exists_def block_cache_inv_def Let_def
      split: option.split dest: map_of_SomeD)

section \<open>The interface\<close>

locale name_set =
  fixes mem :: "string \<Rightarrow> 'c \<Rightarrow> bool"
    and ins :: "string \<Rightarrow> 'c \<Rightarrow> 'c"
    and del :: "string \<Rightarrow> 'c \<Rightarrow> 'c"
  assumes mem_ins: "mem k (ins k' c) \<longleftrightarrow> to_lower k = to_lower k' \<or> mem k c"
    and mem_del: "mem k (del k' c) \<longleftrightarrow> to_lower k \<noteq> to_lower k' \<and> mem k c"
    and mem_fold: "to_lower k = to_lower k' \<Longrightarrow> mem k c = mem k' c"
begin

lemma mem_insert_all: "mem k (fold ins ks c) \<longleftrightarrow> mem k c \<or> to_lower k \<in> to_lower ` set ks"
  by (induction ks arbitrary: c) (auto simp: mem_ins)

text \<open>Inserting what is neither present nor exempted, as the list updater does.\<close>

lemma mem_insert_unless:
  "mem k (fold (\<lambda>h c. if \<not> mem h c \<and> h \<notin> W then ins h c else c) hs c) \<longleftrightarrow>
     mem k c \<or> (\<exists>h \<in> set hs. h \<notin> W \<and> to_lower h = to_lower k)"
proof (induction hs arbitrary: c)
  case (Cons h hs)
  have "mem k (if \<not> mem h c \<and> h \<notin> W then ins h c else c) \<longleftrightarrow> mem k c \<or> (h \<notin> W \<and> to_lower h = to_lower k)"
    using mem_fold [of h k c] by (auto simp: mem_ins)
  with Cons.IH show ?case by auto
qed simp

end

interpretation bl: name_set BlockCache_Exists BlockCache_Set BlockCache_Remove
proof unfold_locales
  fix k k' :: string and c :: block_cache
  assume "to_lower k = to_lower k'"
  then show "BlockCache_Exists k c = BlockCache_Exists k' c" by (simp add: BlockCache_Exists_def)
qed simp_all

end
