(* ===== verification/Block_Api.thy ===== *)
theory Block_Api
  imports Block_Cache
begin

text \<open>
  The handlers of the HTTP API (\<^verbatim>\<open>api.go\<close>): four routes over the block list. A response is
  its status code and its JSON object. The routing and the JSON encoding belong to the web
  framework and are left out; the handlers' own behaviour, and how the routes compose over
  the shared block list, is modelled.
\<close>

datatype json = JBool string bool | JString string string

type_synonym response = "int \<times> json"

definition existsBlock :: "string \<Rightarrow> block_cache \<Rightarrow> response \<times> block_cache" where
  "existsBlock key bl = ((200, JBool ''exists'' (BlockCache_Exists key bl)), bl)"

definition getBlock :: "string \<Rightarrow> block_cache \<Rightarrow> response \<times> block_cache" where
  "getBlock key bl =
     (let (ok, _) = BlockCache_Get (Fqdn key) bl
      in if \<not> ok then ((404, JString ''error'' (key @ '' not found'')), bl)
         else ((200, JBool ''success'' ok), bl))"

definition removeBlock :: "string \<Rightarrow> block_cache \<Rightarrow> response \<times> block_cache" where
  "removeBlock key bl = ((200, JBool ''success'' True), BlockCache_Remove (Fqdn key) bl)"

definition setBlock :: "string \<Rightarrow> block_cache \<Rightarrow> response \<times> block_cache" where
  "setBlock key bl = ((200, JBool ''success'' True), BlockCache_Set (Fqdn key) bl)"

text \<open>The routes of \<^verbatim>\<open>/api/v1/block\<close>.\<close>

datatype api_call = ApiExists string | ApiGet string | ApiRemove string | ApiSet string

fun api_serve :: "api_call \<Rightarrow> block_cache \<Rightarrow> response \<times> block_cache" where
  "api_serve (ApiExists k) bl = existsBlock k bl"
| "api_serve (ApiGet k) bl = getBlock k bl"
| "api_serve (ApiRemove k) bl = removeBlock k bl"
| "api_serve (ApiSet k) bl = setBlock k bl"

fun api_run :: "api_call list \<Rightarrow> block_cache \<Rightarrow> block_cache" where
  "api_run [] bl = bl"
| "api_run (x # xs) bl = api_run xs (snd (api_serve x bl))"

section \<open>Lemmas\<close>

lemma api_serve_inv: "block_cache_inv bl \<Longrightarrow> block_cache_inv (snd (api_serve x bl))"
  by (cases x) (simp_all add: existsBlock_def getBlock_def removeBlock_def setBlock_def inv_intros split: prod.split)

lemma api_run_inv: "block_cache_inv bl \<Longrightarrow> block_cache_inv (api_run xs bl)"
  by (induction xs arbitrary: bl) (simp_all add: api_serve_inv)

text \<open>The last of the calls that set or remove the name decides.\<close>

fun api_effect :: "string \<Rightarrow> bool \<Rightarrow> api_call \<Rightarrow> bool" where
  "api_effect n b (ApiSet k) = (b \<or> to_lower (Fqdn k) = to_lower n)"
| "api_effect n b (ApiRemove k) = (b \<and> to_lower (Fqdn k) \<noteq> to_lower n)"
| "api_effect n b _ = b"

lemma api_serve_Exists:
  "BlockCache_Exists n (snd (api_serve x bl)) = api_effect n (BlockCache_Exists n bl) x"
  by (cases x) (auto simp: existsBlock_def getBlock_def removeBlock_def setBlock_def split: prod.split)

lemma api_run_Exists:
  "BlockCache_Exists n (api_run xs bl) = foldl (api_effect n) (BlockCache_Exists n bl) xs"
  by (induction xs arbitrary: bl) (simp_all add: api_serve_Exists)

section \<open>Properties\<close>

text \<open>C33. The API implements a set of names up to case: after any sequence of calls on a well-formed block
  list, \<^verbatim>\<open>get\<close> answers 200 with success exactly when the last \<^verbatim>\<open>set\<close> or \<^verbatim>\<open>remove\<close> for that
  name (with its final dot, ignoring case) was a \<^verbatim>\<open>set\<close> or the name was blocked before and not
  removed, and 404 otherwise.\<close>

theorem api_get_after_run:
  assumes "block_cache_inv bl"
  shows "fst (getBlock key (api_run xs bl)) =
    (if foldl (api_effect (Fqdn key)) (BlockCache_Exists (Fqdn key) bl) xs
     then (200, JBool ''success'' True) else (404, JString ''error'' (key @ '' not found'')))"
  using BlockCache_Get_inv [OF api_run_inv [OF assms]]
  by (simp add: getBlock_def api_run_Exists)

theorem api_get_after_run_witness:
  "fst (getBlock ''Test.com'' (api_run [ApiSet ''test.com''] NewBlockCache)) = (200, JBool ''success'' True)"
proof -
  have "to_lower (Fqdn ''test.com'') = to_lower (Fqdn ''Test.com'')" by code_simp
  then show ?thesis
    using api_get_after_run [OF block_cache_inv_new, of "''Test.com''" "[ApiSet ''test.com'']"] by simp
qed

text \<open>The \<^verbatim>\<open>exists\<close> route disagrees with the others: it looks the key up as it is, while \<^verbatim>\<open>set\<close>,
  \<^verbatim>\<open>get\<close> and \<^verbatim>\<open>remove\<close> add the final dot. After \<^verbatim>\<open>set\<close> of a name without its final dot on a list
  of fully qualified names, \<^verbatim>\<open>get\<close> finds the name and \<^verbatim>\<open>exists\<close> denies it.\<close>

theorem api_exists_misses_set:
  assumes "block_cache_inv bl" "\<not> BlockCache_Exists key bl" "\<not> IsFqdn key"
  shows "fst (getBlock key (snd (setBlock key bl))) = (200, JBool ''success'' True) \<and>
    fst (existsBlock key (snd (setBlock key bl))) = (200, JBool ''exists'' False)"
proof -
  have "length (to_lower (Fqdn key)) \<noteq> length (to_lower key)"
    using assms(3) by (simp add: Fqdn_def)
  then have "to_lower (Fqdn key) \<noteq> to_lower key" by metis
  then show ?thesis
    using assms BlockCache_Get_inv [OF block_cache_inv_Set [OF assms(1)]]
    by (simp add: getBlock_def setBlock_def existsBlock_def eq_commute [of "to_lower key"])
qed

theorem api_exists_misses_set_witness:
  "fst (existsBlock ''test.com'' (snd (setBlock ''test.com'' NewBlockCache))) = (200, JBool ''exists'' False)"
  using api_exists_misses_set [OF block_cache_inv_new, of "''test.com''"] by (simp add: IsFqdn_def)

end
