(* ===== verification/Blocklist_Updater.thy ===== *)
theory Blocklist_Updater
  imports Block_Cache
begin

text \<open>
  The block-list updater (\<^verbatim>\<open>updater.go\<close>) and the job of \<^verbatim>\<open>main.go\<close> that runs it: the manual lists of
  the configuration, the download of remote lists into files whose names count the lists of
  each host, and the reading of every file of the directory as a hosts file.

  The network, the file system's errors and the parsing of a URL are arguments; files are a map
  from paths to contents. The whitespace of \<^verbatim>\<open>strings.TrimSpace\<close> and \<^verbatim>\<open>strings.Fields\<close> is that of
  ASCII.
\<close>

section \<open>Parsing a hosts file\<close>

definition is_space :: "char \<Rightarrow> bool" where
  "is_space c \<longleftrightarrow> (of_char c :: nat) \<in> {9, 10, 11, 12, 13, 32}"

definition TrimSpace :: "string \<Rightarrow> string" where
  "TrimSpace s = rev (dropWhile is_space (rev (dropWhile is_space s)))"

function Fields :: "string \<Rightarrow> string list" where
  "Fields s =
     (case dropWhile is_space s of
        [] \<Rightarrow> []
      | c # cs \<Rightarrow> takeWhile (\<lambda>x. \<not> is_space x) (c # cs) # Fields (dropWhile (\<lambda>x. \<not> is_space x) cs))"
  by pat_completeness auto
termination
proof (relation "measure length")
  fix s x21 x22
  assume "dropWhile is_space s = x21 # x22"
  then have "length (x21 # x22) \<le> length s" by (metis length_dropWhile_le)
  moreover have "length (dropWhile (\<lambda>x. \<not> is_space x) x22) \<le> length x22" by (rule length_dropWhile_le)
  ultimately show "(dropWhile (\<lambda>x. \<not> is_space x) x22, s) \<in> measure length" by simp
qed simp

declare Fields.simps [simp del]

text \<open>One line of the loop of \<^verbatim>\<open>parseHostFile\<close>: the name it lists, if it is not empty and no
  comment.\<close>

definition line_host :: "string \<Rightarrow> string option go" where
  "line_host ln =
     (let line = TrimSpace ln; isComment = has_prefix line ''#''
      in if \<not> isComment \<and> line \<noteq> [] then
           (let fields = Fields line
            in if length fields > 1 \<and> \<not> has_prefix (fields ! 1) ''#'' then Ret (Some (Fqdn (fields ! 1)))
               else if fields = [] then Panic ''index out of range''
               else Ret (Some (Fqdn (fields ! 0))))
         else Ret None)"

text \<open>The scanner: lines up to 65535 bytes without their line end, and whether it stopped at a
  longer one.\<close>

fun split_nl :: "string \<Rightarrow> string list" where
  "split_nl [] = [[]]"
| "split_nl (c # cs) =
     (if (of_char c :: nat) = 10 then [] # split_nl cs
      else (c # hd (split_nl cs)) # tl (split_nl cs))"

definition scan_fragments :: "string \<Rightarrow> string list" where
  "scan_fragments s = (let fs = split_nl s in if last fs = [] then butlast fs else fs)"

definition drop_cr :: "string \<Rightarrow> string" where
  "drop_cr l = (if l \<noteq> [] \<and> (of_char (last l) :: nat) = 13 then butlast l else l)"

definition scan_lines :: "string \<Rightarrow> string list \<times> bool" where
  "scan_lines s =
     (let fs = scan_fragments s
      in (map drop_cr (takeWhile (\<lambda>l. length l \<le> 65535) fs), \<not> list_all (\<lambda>l. length l \<le> 65535) fs))"

record updater =
  up_block :: block_cache
  up_white :: "(string, bool) gmap"
  up_seen :: "(string, nat) gmap"

definition whitelisted :: "updater \<Rightarrow> string \<Rightarrow> bool" where
  "whitelisted u line = (case gmap_get (up_white u) line of Some b \<Rightarrow> b | None \<Rightarrow> False)"

fun parse_lines :: "string list \<Rightarrow> updater \<Rightarrow> updater go" where
  "parse_lines [] u = Ret u"
| "parse_lines (ln # rest) u =
     go_bind (line_host ln)
       (\<lambda>h. case h of
          None \<Rightarrow> parse_lines rest u
        | Some line \<Rightarrow>
            parse_lines rest
              (if \<not> BlockCache_Exists line (up_block u) \<and> \<not> whitelisted u line
               then u\<lparr>up_block := BlockCache_Set line (up_block u)\<rparr> else u))"

text \<open>\<^verbatim>\<open>parseHostFile\<close>: whether the scan ended without an error, and the state.\<close>

definition parseHostFile :: "string \<Rightarrow> updater \<Rightarrow> (bool \<times> updater) go" where
  "parseHostFile file u =
     (case scan_lines file of (lines, err) \<Rightarrow>
        go_bind (parse_lines lines u) (\<lambda>u'. Ret (\<not> err, u')))"

section \<open>Fetching the lists\<close>

definition list_file_name :: "string \<Rightarrow> nat \<Rightarrow> string" where
  "list_file_name host n = host @ ''.'' @ itoa n @ ''.tmp''"

datatype download = GetFails | Body string bool

type_synonym files = "(string, string) gmap"

text \<open>\<^verbatim>\<open>downloadBlocklist\<close>: the file is created before the request is made, so a failed request leaves it
  empty and a broken body leaves what was copied.\<close>

definition downloadBlocklist ::
  "(string \<Rightarrow> bool) \<Rightarrow> (string \<Rightarrow> download) \<Rightarrow> string \<Rightarrow> string \<Rightarrow> string \<Rightarrow> files \<Rightarrow> bool \<times> files" where
  "downloadBlocklist creatable web uri path name fs =
     (let filePath = path @ ''/'' @ name
      in if \<not> creatable filePath then (False, fs)
         else (case web uri of
                 GetFails \<Rightarrow> (False, gmap_set filePath [] fs)
               | Body content complete \<Rightarrow> (complete, gmap_set filePath content fs)))"

text \<open>\<^verbatim>\<open>fetchBlocklist\<close>: the downloads run concurrently in the code; they write to different files
  (\<open>list_file_names_distinct\<close>), so they are done in order here. A URL that does not parse has no
  host to read.\<close>

fun fetchBlocklist ::
  "(string \<Rightarrow> string option) \<Rightarrow> (string \<Rightarrow> bool) \<Rightarrow> (string \<Rightarrow> download) \<Rightarrow> string \<Rightarrow> string list
   \<Rightarrow> updater \<Rightarrow> files \<Rightarrow> (updater \<times> files) go" where
  "fetchBlocklist url_host creatable web path [] u fs = Ret (u, fs)"
| "fetchBlocklist url_host creatable web path (uri # uris) u fs =
     (case url_host uri of
        None \<Rightarrow> Panic ''nil pointer dereference''
      | Some host \<Rightarrow>
          (let n = (case gmap_get (up_seen u) host of Some k \<Rightarrow> k | None \<Rightarrow> 0) + 1;
               fileName = list_file_name host n
           in fetchBlocklist url_host creatable web path uris (u\<lparr>up_seen := gmap_set host n (up_seen u)\<rparr>)
                (snd (downloadBlocklist creatable web uri path fileName fs))))"

text \<open>\<^verbatim>\<open>updateBlocklists\<close>: \<open>dir_exists\<close> and \<open>mkdir_ok\<close> are what the file system answers.\<close>

definition updateBlocklists ::
  "(string \<Rightarrow> string option) \<Rightarrow> (string \<Rightarrow> bool) \<Rightarrow> (string \<Rightarrow> download) \<Rightarrow> bool \<Rightarrow> bool \<Rightarrow> string
   \<Rightarrow> string list \<Rightarrow> string list \<Rightarrow> string list \<Rightarrow> updater \<Rightarrow> files \<Rightarrow> (bool \<times> updater \<times> files) go" where
  "updateBlocklists url_host creatable web dir_exists mkdir_ok path whites blocks uris u fs =
     (if \<not> dir_exists \<and> \<not> mkdir_ok then Ret (False, u, fs)
      else let u1 = u\<lparr>up_white := fold (\<lambda>e. gmap_set (Fqdn e) True) whites (up_white u)\<rparr>;
               u2 = u1\<lparr>up_block := fold (\<lambda>e. BlockCache_Set (Fqdn e)) blocks (up_block u1)\<rparr>
           in go_bind (fetchBlocklist url_host creatable web path uris u2 fs)
                (\<lambda>(u3, fs3). Ret (True, u3, fs3)))"

section \<open>Reading the directory\<close>

datatype walk_entry = WDir string | WFile string | WError string

definition ext_tmp :: "string \<Rightarrow> bool" where
  "ext_tmp path \<longleftrightarrow> has_suffix path ''.tmp''"

text \<open>The callback of \<^verbatim>\<open>filepath.Walk\<close>, folded over the entries in the order the walk visits them; the
  first error ends the walk. For an entry that cannot be read the callback gets no file
  information and dereferences nil.\<close>

fun read_walk :: "walk_entry list \<Rightarrow> updater \<Rightarrow> files \<Rightarrow> (bool \<times> updater \<times> files) go" where
  "read_walk [] u fs = Ret (True, u, fs)"
| "read_walk (WDir p # es) u fs = read_walk es u fs"
| "read_walk (WError p # es) u fs = Panic ''nil pointer dereference''"
| "read_walk (WFile p # es) u fs =
     (case gmap_get fs p of
        None \<Rightarrow> Ret (False, u, fs)
      | Some content \<Rightarrow>
          go_bind (parseHostFile content u)
            (\<lambda>(ok, u'). if \<not> ok then Ret (False, u', fs)
                        else read_walk es u' (if ext_tmp p then gmap_del p fs else fs)))"

definition readBlocklists :: "bool \<Rightarrow> walk_entry list \<Rightarrow> updater \<Rightarrow> files \<Rightarrow> (bool \<times> updater \<times> files) go" where
  "readBlocklists dir_exists es u fs = (if \<not> dir_exists then Ret (True, u, fs) else read_walk es u fs)"

section \<open>Lemmas on parsing\<close>

lemma dropWhile_rev_ne: "x \<in> set s \<Longrightarrow> \<not> P x \<Longrightarrow> dropWhile P s \<noteq> []"
  by (metis dropWhile_eq_Nil_conv)

lemma TrimSpace_nonspace: "TrimSpace s \<noteq> [] \<Longrightarrow> \<exists>c \<in> set (TrimSpace s). \<not> is_space c"
  unfolding TrimSpace_def
  by (metis dropWhile_eq_Nil_conv hd_dropWhile hd_in_set rev_is_Nil_conv set_rev)

lemma Fields_ne: "\<exists>c \<in> set s. \<not> is_space c \<Longrightarrow> Fields s \<noteq> []"
proof -
  assume "\<exists>c \<in> set s. \<not> is_space c"
  then have "dropWhile is_space s \<noteq> []" by (metis dropWhile_eq_Nil_conv)
  then show ?thesis by (subst Fields.simps) (auto split: list.splits)
qed

lemma line_host_Ret: "\<exists>h. line_host ln = Ret h"
  using TrimSpace_nonspace [of ln] Fields_ne [of "TrimSpace ln"]
  by (auto simp: line_host_def Let_def)

definition host_of :: "string \<Rightarrow> string option" where
  "host_of ln = (case line_host ln of Ret h \<Rightarrow> h | Panic _ \<Rightarrow> None)"

lemma line_host_of: "line_host ln = Ret (host_of ln)"
  using line_host_Ret [of ln] by (auto simp: host_of_def)

text \<open>The effect of the lines on the block list, in terms of the interface \<open>name_set\<close>.\<close>

lemma parse_lines_fold:
  "parse_lines lines u = Ret (u\<lparr>up_block :=
     fold (\<lambda>h c. if \<not> BlockCache_Exists h c \<and> h \<notin> {h. whitelisted u h} then BlockCache_Set h c else c)
       (List.map_filter host_of lines) (up_block u)\<rparr>)"
proof (induction lines arbitrary: u)
  case (Cons l ls)
  have w: "whitelisted (u\<lparr>up_block := b\<rparr>) h = whitelisted u h" for b h
    by (simp add: whitelisted_def)
  show ?case
    by (cases "host_of l") (simp_all add: line_host_of Cons.IH w List.map_filter_simps)
qed (simp add: List.map_filter_simps)

lemma parse_lines_Exists:
  "\<exists>u'. parse_lines lines u = Ret u' \<and> up_white u' = up_white u \<and> up_seen u' = up_seen u \<and>
     (\<forall>k. BlockCache_Exists k (up_block u') \<longleftrightarrow> BlockCache_Exists k (up_block u) \<or>
        (\<exists>h \<in> set (List.map_filter host_of lines). \<not> whitelisted u h \<and> to_lower h = to_lower k))"
  using bl.mem_insert_unless [of _ "{h. whitelisted u h}" "List.map_filter host_of lines" "up_block u"]
  unfolding parse_lines_fold by simp

section \<open>Lemmas on file names\<close>

definition undigits :: "string \<Rightarrow> nat" where
  "undigits s = foldl (\<lambda>a c. 10 * a + (of_char c - 48)) 0 s"

lemma undigits_itoa: "undigits (itoa n) = n"
proof (induction n rule: itoa.induct)
  case (1 n)
  show ?case
  proof (cases "n < 10")
    case True
    then show ?thesis by (subst itoa.simps) (simp add: undigits_def)
  next
    case False
    then have "undigits (itoa (n div 10) @ [char_of (48 + n mod 10)]) = 10 * (n div 10) + n mod 10"
      using 1 by (simp add: undigits_def)
    with False show ?thesis by (subst itoa.simps) simp
  qed
qed

lemma itoa_no_dot: "dot \<notin> set (itoa n)"
proof (induction n rule: itoa.induct)
  case (1 n)
  have "dot \<noteq> char_of (48 + k)" if "k < 10" for k :: nat
  proof
    assume "dot = char_of (48 + k)"
    then have "(of_char dot :: nat) = of_char (char_of (48 + k))" by simp
    with that show False by simp
  qed
  then have d: "dot \<noteq> char_of (48 + n)" if "n < 10" "dot \<noteq> char_of (48 + n mod 10)"
    using that by blast
  show ?case
    using 1 \<open>\<And>k. k < 10 \<Longrightarrow> dot \<noteq> char_of (48 + k)\<close> by (subst itoa.simps) auto
qed

lemma split_last_dot:
  "dot \<notin> set ys \<Longrightarrow> dot \<notin> set ys' \<Longrightarrow> xs @ dot # ys = xs' @ dot # ys' \<Longrightarrow> xs = xs' \<and> ys = ys'"
  by (induction ys arbitrary: ys' rule: rev_induct; case_tac ys' rule: rev_cases) auto

lemma list_file_name_inj: "list_file_name h n = list_file_name h' n' \<longleftrightarrow> h = h' \<and> n = n'"
proof
  assume "list_file_name h n = list_file_name h' n'"
  then have "(h @ dot # itoa n) @ ''.tmp'' = (h' @ dot # itoa n') @ ''.tmp''"
    by (simp add: list_file_name_def)
  then have "h @ dot # itoa n = h' @ dot # itoa n'" by (simp only: append_same_eq)
  then have "h = h' \<and> itoa n = itoa n'"
    using split_last_dot itoa_no_dot by blast
  then show "h = h' \<and> n = n'" by (metis undigits_itoa)
qed simp

text \<open>The names the loop of \<^verbatim>\<open>fetchBlocklist\<close> uses, for the hosts in order.\<close>

fun list_files :: "string list \<Rightarrow> (string, nat) gmap \<Rightarrow> (string \<times> nat) list" where
  "list_files [] seen = []"
| "list_files (host # hs) seen =
     (let n = (case gmap_get seen host of Some k \<Rightarrow> k | None \<Rightarrow> 0) + 1
      in (host, n) # list_files hs (gmap_set host n seen))"

lemma list_files_above:
  "(h, n) \<in> set (list_files hs seen) \<Longrightarrow> (case gmap_get seen h of Some k \<Rightarrow> k | None \<Rightarrow> 0) < n"
proof (induction hs seen rule: list_files.induct)
  case (2 host hs seen)
  then show ?case by (cases "h = host") (auto simp: Let_def)
qed simp

lemma list_files_distinct: "distinct (list_files hs seen)"
proof (induction hs seen rule: list_files.induct)
  case (2 host hs seen)
  then show ?case using list_files_above by (fastforce simp: Let_def)
qed simp

lemma list_file_names_distinct:
  "distinct (map (\<lambda>(h, n). list_file_name h n) (list_files hosts seen))"
  unfolding distinct_map
  by (auto simp: list_files_distinct inj_on_def list_file_name_inj)

fun downloaded :: "download \<Rightarrow> string" where
  "downloaded GetFails = []"
| "downloaded (Body content complete) = content"

lemma length_list_files [simp]: "length (list_files hs seen) = length hs"
  by (induction hs seen rule: list_files.induct) (auto simp: Let_def)

lemma downloadBlocklist_get:
  "creatable (path @ ''/'' @ name) \<Longrightarrow> gmap_get (snd (downloadBlocklist creatable web uri path name fs)) p =
     (if p = path @ ''/'' @ name then Some (downloaded (web uri)) else gmap_get fs p)"
  by (simp add: downloadBlocklist_def Let_def split: download.split)

lemma fetchBlocklist_frame:
  assumes "fetchBlocklist url_host creatable web path uris u fs = Ret (u', fs')" "\<forall>p. creatable p"
    and "name \<notin> (\<lambda>(h, n). list_file_name h n) ` set (list_files (map (\<lambda>x. the (url_host x)) uris) (up_seen u))"
  shows "gmap_get fs' (path @ ''/'' @ name) = gmap_get fs (path @ ''/'' @ name)"
  using assms
proof (induction uris arbitrary: u fs)
  case (Cons uri uris)
  then obtain host where "url_host uri = Some host" by (auto split: option.splits)
  with Cons show ?case by (auto simp: Let_def downloadBlocklist_get)
qed simp

lemma fetchBlocklist_contents:
  assumes "fetchBlocklist url_host creatable web path uris u fs = Ret (u', fs')" "\<forall>p. creatable p"
  shows "\<forall>i < length uris. gmap_get fs' (path @ ''/'' @
     map (\<lambda>(h, n). list_file_name h n) (list_files (map (\<lambda>x. the (url_host x)) uris) (up_seen u)) ! i)
     = Some (downloaded (web (uris ! i)))"
  using assms
proof (induction uris arbitrary: u fs)
  case (Cons uri uris)
  then obtain host where h: "url_host uri = Some host" by (auto split: option.splits)
  define n where "n = (case gmap_get (up_seen u) host of Some k \<Rightarrow> k | None \<Rightarrow> 0) + 1"
  define u1 where "u1 = u\<lparr>up_seen := gmap_set host n (up_seen u)\<rparr>"
  define fs1 where "fs1 = snd (downloadBlocklist creatable web uri path (list_file_name host n) fs)"
  have rest: "fetchBlocklist url_host creatable web path uris u1 fs1 = Ret (u', fs')"
    using Cons.prems(1) h by (simp add: Let_def n_def u1_def fs1_def)
  let ?l = "list_files (map (\<lambda>x. the (url_host x)) uris) (up_seen u1)"
  have l: "list_files (map (\<lambda>x. the (url_host x)) (uri # uris)) (up_seen u) = (host, n) # ?l"
    by (simp add: h Let_def n_def u1_def)
  have "list_file_name host n \<notin> (\<lambda>(h, n). list_file_name h n) ` set ?l"
    using list_file_names_distinct [of "map (\<lambda>x. the (url_host x)) (uri # uris)" "up_seen u"] by (simp only: l) auto
  from fetchBlocklist_frame [OF rest Cons.prems(2) this] Cons.prems(2)
  have "gmap_get fs' (path @ ''/'' @ list_file_name host n) = Some (downloaded (web uri))"
    by (simp add: fs1_def downloadBlocklist_get)
  with Cons.IH [OF rest Cons.prems(2)] show ?case
    by (simp only: l) (auto simp: nth_Cons split: nat.split)
qed simp

section \<open>Properties\<close>

text \<open>C32. A hosts file blocks what it lists: parsing never panics, leaves the other state alone, and a
  name is blocked afterwards exactly when it was blocked before or some scanned line lists a host
  equal to it up to case and not on the whitelist.\<close>

theorem parseHostFile_blocks:
  "\<exists>ok u'. parseHostFile file u = Ret (ok, u') \<and> up_white u' = up_white u \<and> up_seen u' = up_seen u \<and>
     (\<forall>k. BlockCache_Exists k (up_block u') \<longleftrightarrow> BlockCache_Exists k (up_block u) \<or>
        (\<exists>ln \<in> set (fst (scan_lines file)). \<exists>h. line_host ln = Ret (Some h) \<and>
            \<not> whitelisted u h \<and> to_lower h = to_lower k))"
proof -
  obtain lines err where sl: "scan_lines file = (lines, err)" by fastforce
  obtain u' where "parse_lines lines u = Ret u'" "up_white u' = up_white u" "up_seen u' = up_seen u"
    "\<forall>k. BlockCache_Exists k (up_block u') \<longleftrightarrow> BlockCache_Exists k (up_block u) \<or>
        (\<exists>h \<in> set (List.map_filter host_of lines). \<not> whitelisted u h \<and> to_lower h = to_lower k)"
    using parse_lines_Exists [of lines u] by blast
  moreover have "h \<in> set (List.map_filter host_of lines) \<longleftrightarrow> (\<exists>ln \<in> set lines. host_of ln = Some h)" for h
    by (force simp: List.map_filter_def)
  ultimately show ?thesis
    using sl by (auto simp: parseHostFile_def line_host_of)
qed

text \<open>Downloads never overwrite each other: when the URLs parse and the files can be created, every list
  of the configuration ends up in a file of its own, which after the whole update holds what that
  list's server sent (nothing, if the request failed), with the counters of any earlier update.\<close>

theorem fetchBlocklist_keeps_every_list:
  assumes "fetchBlocklist url_host creatable web path uris u fs = Ret (u', fs')" "\<forall>p. creatable p"
  shows "\<exists>names. length names = length uris \<and> distinct names \<and>
     (\<forall>i < length uris. gmap_get fs' (path @ ''/'' @ names ! i) = Some (downloaded (web (uris ! i))))"
proof -
  let ?names = "map (\<lambda>(h, n). list_file_name h n) (list_files (map (\<lambda>x. the (url_host x)) uris) (up_seen u))"
  have "\<forall>i < length uris. gmap_get fs' (path @ ''/'' @ ?names ! i) = Some (downloaded (web (uris ! i)))"
    by (rule fetchBlocklist_contents [OF assms])
  then show ?thesis
    using list_file_names_distinct by (intro exI [of _ ?names]) simp
qed

theorem fetchBlocklist_keeps_every_list_witness:
  "\<exists>names. length names = length [''a'', ''b''] \<and> distinct names \<and>
     (\<forall>i < length [''a'', ''b'']. gmap_get [(''d/h.1.tmp'', ''x''), (''d/h.2.tmp'', ''x'')] (''d'' @ ''/'' @ names ! i) =
        Some (downloaded (Body ''x'' True)))"
proof (rule fetchBlocklist_keeps_every_list)
  show "fetchBlocklist (\<lambda>_. Some ''h'') (\<lambda>_. True) (\<lambda>_. Body ''x'' True) ''d'' [''a'', ''b'']
      \<lparr>up_block = NewBlockCache, up_white = [], up_seen = []\<rparr> [] =
    Ret (\<lparr>up_block = NewBlockCache, up_white = [], up_seen = [(''h'', 2)]\<rparr>,
      [(''d/h.1.tmp'', ''x''), (''d/h.2.tmp'', ''x'')])"
    by code_simp
qed simp

text \<open>The whitelist is compared with its case: a host that a list spells in lower case is blocked,
  although the configuration exempts the same name in upper case.\<close>

theorem whitelist_is_case_sensitive:
  assumes "line_host ln = Ret (Some h)" "\<not> whitelisted u h" "to_lower w = to_lower h" "whitelisted u w"
  shows "\<exists>u'. parse_lines [ln] u = Ret u' \<and> BlockCache_Exists w (up_block u')"
  using assms parse_lines_Exists [of "[ln]" u]
  by (auto simp: line_host_of List.map_filter_simps)

theorem whitelist_is_case_sensitive_witness:
  "\<exists>u'. parse_lines [''0.0.0.0 ads.com''] \<lparr>up_block = NewBlockCache, up_white = [(''Ads.com.'', True)], up_seen = []\<rparr> = Ret u'
     \<and> BlockCache_Exists ''Ads.com.'' (up_block u')"
proof (rule whitelist_is_case_sensitive)
  show "line_host ''0.0.0.0 ads.com'' = Ret (Some ''ads.com.'')" by code_simp
  show "to_lower ''Ads.com.'' = to_lower ''ads.com.''" by code_simp
qed (simp_all add: whitelisted_def)

end
