(* ===== verification/Nsec3.thy ===== *)
theory Nsec3
  imports Dns_Msg
begin

text \<open>
  Authenticated denial with NSEC3 (\<^verbatim>\<open>nsec3.go\<close>) and NSEC (\<^verbatim>\<open>verifyNSEC\<close> of \<^verbatim>\<open>utils.go\<close>), over
  \<^verbatim>\<open>Match\<close> and \<^verbatim>\<open>Cover\<close> of the vendored DNS library. The hash of a name (\<^verbatim>\<open>HashName\<close>, iterated SHA-1) is
  an argument \<open>H\<close> of every definition; nothing is assumed of it. A type assertion on a record that
  is not an NSEC3 (NSEC) record panics.

  The lemmas say which records justify each verdict: the closest encloser is the longest
  label suffix of the name with a matching record, and an accepted delegation or negative
  answer rests on a matching record without the forbidden types or on an opt-out record that
  covers the next closer name.
\<close>

type_synonym name_hash = "string \<Rightarrow> u8 \<Rightarrow> u16 \<Rightarrow> string \<Rightarrow> string"

datatype nsec_err =
    errNSECMismatch | errNSECTypeExists | errNSECMultipleCoverage | errNSECMissingCoverage
  | errNSECBadDelegation | errNSECNSMissing | errNSECOptOut

section \<open>Matching and covering\<close>

definition owner_hash :: "string \<Rightarrow> string" where
  "owner_hash owner = take (Split owner ! 1 - 1) owner"

definition owner_zone :: "string \<Rightarrow> string" where
  "owner_zone owner = drop (Split owner ! 1) owner"

definition string_lt :: "string \<Rightarrow> string \<Rightarrow> bool" where
  "string_lt s t \<longleftrightarrow> string_le s t \<and> s \<noteq> t"

definition nsec3_Match :: "name_hash \<Rightarrow> rr_header \<Rightarrow> rr_NSEC3 \<Rightarrow> string \<Rightarrow> bool" where
  "nsec3_Match H h n name =
     (let nameHash = H name (n3_Hash n) (n3_Iterations n) (n3_Salt n);
          owner = to_upper (rh_Name h)
      in if length (Split owner) < 2 then False
         else if \<not> IsSubDomain (owner_zone owner) (to_upper name) then False
         else owner_hash owner = nameHash)"

definition nsec3_Cover :: "name_hash \<Rightarrow> rr_header \<Rightarrow> rr_NSEC3 \<Rightarrow> string \<Rightarrow> bool" where
  "nsec3_Cover H h n name =
     (let nameHash = H name (n3_Hash n) (n3_Iterations n) (n3_Salt n);
          owner = to_upper (rh_Name h)
      in if length (Split owner) < 2 then False
         else if \<not> IsSubDomain (owner_zone owner) (to_upper name) then False
         else let ownerHash = owner_hash owner; nextHash = n3_NextDomain n
              in if ownerHash = nextHash then True
                 else if string_lt nextHash ownerHash then
                   (if string_lt ownerHash nameHash then True else string_lt nameHash nextHash)
                 else if string_lt nameHash ownerHash then False
                 else string_lt nameHash nextHash)"

section \<open>The checks\<close>

definition typesSet :: "u16 list \<Rightarrow> u16 list \<Rightarrow> bool" where
  "typesSet set_types types = list_ex (\<lambda>t. t \<in> set types) set_types"

fun findMatching :: "name_hash \<Rightarrow> string \<Rightarrow> rr list \<Rightarrow> (nsec_err + u16 list) go" where
  "findMatching H name [] = Ret (Inl errNSECMissingCoverage)"
| "findMatching H name (RR h (NSEC3_rd n) # rrs) =
     (if nsec3_Match H h n name then Ret (Inr (n3_TypeBitMap n)) else findMatching H name rrs)"
| "findMatching H name (r # rrs) = Panic ''interface conversion''"

fun findCoverer :: "name_hash \<Rightarrow> string \<Rightarrow> rr list \<Rightarrow> (nsec_err + u16 list \<times> bool) go" where
  "findCoverer H name [] = Ret (Inl errNSECMissingCoverage)"
| "findCoverer H name (RR h (NSEC3_rd n) # rrs) =
     (if nsec3_Cover H h n name then Ret (Inr (n3_TypeBitMap n, (n3_Flags n AND 1) = 1))
      else findCoverer H name rrs)"
| "findCoverer H name (r # rrs) = Panic ''interface conversion''"

text \<open>The loop of \<^verbatim>\<open>findClosestEncloser\<close> over the label offsets; \<open>nc\<close> is the suffix before.\<close>

fun fce_loop :: "name_hash \<Rightarrow> string \<Rightarrow> rr list \<Rightarrow> string \<Rightarrow> nat list \<Rightarrow> (string \<times> string) go" where
  "fce_loop H name nsec nc [] = Ret ([], [])"
| "fce_loop H name nsec nc (i # idx) =
     (let z = drop i name
      in go_bind (findMatching H z nsec)
           (\<lambda>m. case m of Inl _ \<Rightarrow> fce_loop H name nsec z idx | Inr _ \<Rightarrow> Ret (z, nc)))"

definition findClosestEncloser :: "name_hash \<Rightarrow> string \<Rightarrow> rr list \<Rightarrow> (string \<times> string) go" where
  "findClosestEncloser H name nsec = fce_loop H name nsec name (Split name)"

definition verifyNameError :: "name_hash \<Rightarrow> question \<Rightarrow> rr list \<Rightarrow> nsec_err option go" where
  "verifyNameError H q nsec =
     go_bind (findClosestEncloser H (q_Name q) nsec)
       (\<lambda>(ce, _). if ce = [] then Ret (Some errNSECMissingCoverage)
                  else go_bind (findCoverer H (''*.'' @ ce) nsec)
                         (\<lambda>c. case c of Inl e \<Rightarrow> Ret (Some e) | Inr _ \<Rightarrow> Ret None))"

text \<open>The opt-out proof that \<^verbatim>\<open>verifyNODATA\<close> and \<^verbatim>\<open>verifyDelegation\<close> fall back to.\<close>

definition verifyOptOut :: "name_hash \<Rightarrow> string \<Rightarrow> rr list \<Rightarrow> nsec_err option go" where
  "verifyOptOut H name nsec =
     go_bind (findClosestEncloser H name nsec)
       (\<lambda>(ce, nc). if ce = [] then Ret (Some errNSECMissingCoverage)
                   else go_bind (findCoverer H nc nsec)
                          (\<lambda>c. case c of
                                 Inl e \<Rightarrow> Ret (Some e)
                               | Inr (_, optOut) \<Rightarrow> if \<not> optOut then Ret (Some errNSECOptOut) else Ret None))"

definition verifyNODATA :: "name_hash \<Rightarrow> question \<Rightarrow> rr list \<Rightarrow> nsec_err option go" where
  "verifyNODATA H q nsec =
     go_bind (findMatching H (q_Name q) nsec)
       (\<lambda>m. case m of
          Inl err \<Rightarrow> if q_Qtype q \<noteq> TypeDS then Ret (Some err) else verifyOptOut H (q_Name q) nsec
        | Inr types \<Rightarrow> if typesSet types [q_Qtype q, TypeCNAME] then Ret (Some errNSECTypeExists) else Ret None)"

definition verifyDelegation :: "name_hash \<Rightarrow> string \<Rightarrow> rr list \<Rightarrow> nsec_err option go" where
  "verifyDelegation H delegation nsec =
     go_bind (findMatching H delegation nsec)
       (\<lambda>m. case m of
          Inl err \<Rightarrow> verifyOptOut H delegation nsec
        | Inr types \<Rightarrow>
            if \<not> typesSet types [TypeNS] then Ret (Some errNSECNSMissing)
            else if typesSet types [TypeDS, TypeSOA] then Ret (Some errNSECBadDelegation)
            else Ret None)"

text \<open>\<^verbatim>\<open>verifyNSEC\<close>: whether some record lists the type of the question.\<close>

fun verifyNSEC :: "question \<Rightarrow> rr list \<Rightarrow> bool go" where
  "verifyNSEC q [] = Ret False"
| "verifyNSEC q (RR h (NSEC_rd nxt bitmap) # rrs) =
     go_bind (verifyNSEC q rrs) (\<lambda>b. Ret (list_ex (\<lambda>t. t = q_Qtype q) bitmap \<or> b))"
| "verifyNSEC q (r # rrs) = Panic ''interface conversion''"

section \<open>Lemmas\<close>

fun is_NSEC3 :: "rr \<Rightarrow> bool" where
  "is_NSEC3 (RR h (NSEC3_rd n)) = True"
| "is_NSEC3 _ = False"

fun is_NSEC :: "rr \<Rightarrow> bool" where
  "is_NSEC (RR h (NSEC_rd n b)) = True"
| "is_NSEC _ = False"

definition matches :: "name_hash \<Rightarrow> rr list \<Rightarrow> string \<Rightarrow> bool" where
  "matches H nsec name \<longleftrightarrow> (\<exists>h n. RR h (NSEC3_rd n) \<in> set nsec \<and> nsec3_Match H h n name)"

lemma is_NSEC3E: "is_NSEC3 r \<Longrightarrow> (\<And>h n. r = RR h (NSEC3_rd n) \<Longrightarrow> P) \<Longrightarrow> P"
  by (cases r; cases "Rdata r") auto

lemma wf_NSEC3: "list_all rr_wf rrs \<Longrightarrow> list_all is_NSEC3 (extractRRSet rrs name [TypeNSEC3])"
proof -
  have "rr_wf r \<Longrightarrow> rr_type r = TypeNSEC3 \<Longrightarrow> is_NSEC3 r" for r
    by (cases r; cases "Rdata r") (auto simp: rr_wf_def)
  then show "list_all rr_wf rrs \<Longrightarrow> list_all is_NSEC3 (extractRRSet rrs name [TypeNSEC3])"
    by (auto simp: list_all_iff extractRRSet_set)
qed

lemma wf_NSEC: "list_all rr_wf rrs \<Longrightarrow> list_all is_NSEC (extractRRSet rrs name [TypeNSEC])"
proof -
  have "rr_wf r \<Longrightarrow> rr_type r = TypeNSEC \<Longrightarrow> is_NSEC r" for r
    by (cases r; cases "Rdata r") (auto simp: rr_wf_def)
  then show "list_all rr_wf rrs \<Longrightarrow> list_all is_NSEC (extractRRSet rrs name [TypeNSEC])"
    by (auto simp: list_all_iff extractRRSet_set)
qed

lemma findMatching_cases:
  assumes "list_all is_NSEC3 nsec"
  shows "(findMatching H name nsec = Ret (Inl errNSECMissingCoverage) \<and> \<not> matches H nsec name) \<or>
    (\<exists>h n. findMatching H name nsec = Ret (Inr (n3_TypeBitMap n)) \<and> RR h (NSEC3_rd n) \<in> set nsec \<and> nsec3_Match H h n name)"
  using assms
proof (induction nsec)
  case (Cons r rrs)
  from Cons.prems obtain h n where r: "r = RR h (NSEC3_rd n)" by (auto elim: is_NSEC3E)
  show ?case
  proof (cases "nsec3_Match H h n name")
    case True
    then show ?thesis unfolding r by (intro disjI2 exI [of _ h] exI [of _ n]) simp
  next
    case False
    have "matches H (r # rrs) name \<longleftrightarrow> matches H rrs name"
      using False r by (auto simp: matches_def)
    with False r Cons show ?thesis by auto
  qed
qed (simp add: matches_def)

lemma findCoverer_cases:
  assumes "list_all is_NSEC3 nsec"
  shows "findCoverer H name nsec = Ret (Inl errNSECMissingCoverage) \<or>
    (\<exists>h n. findCoverer H name nsec = Ret (Inr (n3_TypeBitMap n, (n3_Flags n AND 1) = 1)) \<and>
       RR h (NSEC3_rd n) \<in> set nsec \<and> nsec3_Cover H h n name)"
  using assms
proof (induction nsec)
  case (Cons r rrs)
  from Cons.prems obtain h n where r: "r = RR h (NSEC3_rd n)" by (auto elim: is_NSEC3E)
  show ?case
  proof (cases "nsec3_Cover H h n name")
    case True
    then show ?thesis unfolding r by (intro disjI2 exI [of _ h] exI [of _ n]) simp
  next
    case False
    with r Cons show ?thesis by auto
  qed
qed simp

lemma findMatching_iff:
  "list_all is_NSEC3 nsec \<Longrightarrow>
     (if matches H nsec name then \<exists>types. findMatching H name nsec = Ret (Inr types)
      else findMatching H name nsec = Ret (Inl errNSECMissingCoverage))"
  using findMatching_cases [of nsec H name] by (auto simp: matches_def)

text \<open>The closest encloser: the first of the suffixes that is matched.\<close>

lemma fce_loop_none:
  assumes "list_all is_NSEC3 nsec" and "\<forall>i \<in> set idx. \<not> matches H nsec (drop i name)"
  shows "fce_loop H name nsec nc idx = Ret ([], [])"
  using assms(2)
proof (induction idx arbitrary: nc)
  case (Cons i idx)
  with findMatching_iff [OF assms(1), of H "drop i name"] show ?case by simp
qed simp

lemma fce_loop_some:
  assumes "list_all is_NSEC3 nsec" and "matches H nsec (drop i name)"
    and "\<forall>j \<in> set before. \<not> matches H nsec (drop j name)"
  shows "fce_loop H name nsec nc (before @ i # rest) =
    Ret (drop i name, if before = [] then nc else drop (last before) name)"
  using assms(3)
proof (induction before arbitrary: nc)
  case Nil
  with findMatching_iff [OF assms(1), of H "drop i name"] assms(2) show ?case by auto
next
  case (Cons j before)
  with findMatching_iff [OF assms(1), of H "drop j name"] show ?case by auto
qed

lemma findClosestEncloser_cases:
  assumes "list_all is_NSEC3 nsec"
  obtains (none) "findClosestEncloser H name nsec = Ret ([], [])"
      "\<forall>i \<in> set (Split name). \<not> matches H nsec (drop i name)"
    | (some) before i rest where "Split name = before @ i # rest"
      "matches H nsec (drop i name)" "\<forall>j \<in> set before. \<not> matches H nsec (drop j name)"
      "findClosestEncloser H name nsec =
         Ret (drop i name, if before = [] then name else drop (last before) name)"
proof (cases "\<exists>i \<in> set (Split name). matches H nsec (drop i name)")
  case True
  then obtain before i rest where "Split name = before @ i # rest"
    "matches H nsec (drop i name)" "\<forall>j \<in> set before. \<not> matches H nsec (drop j name)"
    using split_list_first_prop [of "Split name" "\<lambda>i. matches H nsec (drop i name)"] by auto
  then show thesis
    using some fce_loop_some [OF assms] unfolding findClosestEncloser_def by metis
next
  case False
  then show thesis using none fce_loop_none [OF assms] unfolding findClosestEncloser_def by blast
qed

text \<open>
  On a fully qualified name the offsets are the label suffixes: the encloser is the first
  suffix that is matched, and the next closer name has one label more.
\<close>

definition closest_encloser :: "name_hash \<Rightarrow> string \<Rightarrow> rr list \<Rightarrow> nat \<Rightarrow> bool" where
  "closest_encloser H name nsec k \<longleftrightarrow>
     k < length (name_labels name) \<and> matches H nsec (label_suffix name k) \<and>
     (\<forall>j < k. \<not> matches H nsec (label_suffix name j))"

lemma fqdn_suffix_0: "IsFqdn s \<Longrightarrow> s \<noteq> ''.'' \<Longrightarrow> label_suffix s 0 = s"
  using Split_suffix [of s 0] by (simp add: Split_cuts)

lemma findClosestEncloser_spec:
  assumes "IsFqdn name" and "list_all is_NSEC3 nsec"
  shows "(\<exists>k. closest_encloser H name nsec k \<and>
            findClosestEncloser H name nsec = Ret (label_suffix name k, label_suffix name (k - 1))) \<or>
         (\<forall>k < length (name_labels name). \<not> matches H nsec (label_suffix name k)) \<and>
            findClosestEncloser H name nsec = Ret ([], [])"
  using assms(2)
proof (cases rule: findClosestEncloser_cases [where H = H and name = name])
  case none
  have "\<not> matches H nsec (label_suffix name k)" if "k < length (name_labels name)" for k
  proof (cases "name = ''.''")
    case True
    with that show ?thesis by (simp add: name_labels_def)
  next
    case False
    with that none(2) Split_suffix [OF assms(1), of k] show ?thesis
      by (metis assms(1) length_Split_labels nth_mem)
  qed
  with none(1) show ?thesis by blast
next
  case (some before i rest)
  then have nr: "name \<noteq> ''.''" by (auto simp: Split_def)
  have sfx: "drop (Split name ! j) name = label_suffix name j" if "j \<le> length before" for j
    using Split_suffix [OF assms(1) nr, of j] some(1) that by simp
  have i: "drop i name = label_suffix name (length before)"
    using sfx [of "length before"] some(1) by simp
  have before_nth: "drop (before ! j) name = label_suffix name j" if "j < length before" for j
    using sfx [of j] some(1) that by (simp add: nth_append)
  have "closest_encloser H name nsec (length before)"
    using some(1,2,3) i before_nth length_Split_labels [OF assms(1)]
    by (auto simp: closest_encloser_def) (metis nth_mem)
  moreover have "(if before = [] then name else drop (last before) name) = label_suffix name (length before - 1)"
    using before_nth [of "length before - 1"] fqdn_suffix_0 [OF assms(1) nr] by (simp add: last_conv_nth)
  ultimately show ?thesis using some(4) i by metis
qed

lemma closest_encloser_ne: "closest_encloser H name nsec k \<Longrightarrow> label_suffix name k \<noteq> []"
  by (auto simp: closest_encloser_def label_suffix_def)

lemma typesSet_iff [simp]: "typesSet ts types \<longleftrightarrow> (\<exists>t \<in> set ts. t \<in> set types)"
  by (auto simp: typesSet_def list_ex_iff)

lemma verifyOptOut_sound:
  assumes "IsFqdn name" and "list_all is_NSEC3 nsec" and "verifyOptOut H name nsec = Ret None"
  shows "\<exists>k h n. closest_encloser H name nsec k \<and> RR h (NSEC3_rd n) \<in> set nsec \<and>
    nsec3_Cover H h n (label_suffix name (k - 1)) \<and> (n3_Flags n AND 1) = 1"
  using findClosestEncloser_spec [OF assms(1,2), of H]
proof (elim disjE exE conjE)
  fix k
  assume k: "closest_encloser H name nsec k"
    and fce: "findClosestEncloser H name nsec = Ret (label_suffix name k, label_suffix name (k - 1))"
  from assms(3) fce closest_encloser_ne [OF k] findCoverer_cases [OF assms(2), of H "label_suffix name (k - 1)"]
  show ?thesis using k by (fastforce simp: verifyOptOut_def split: if_splits)
qed (use assms(3) in \<open>simp add: verifyOptOut_def\<close>)

lemma findCoverer_Ret: "list_all is_NSEC3 nsec \<Longrightarrow> \<exists>c. findCoverer H name nsec = Ret c"
  using findCoverer_cases [of nsec H name] by blast

lemma findClosestEncloser_Ret: "list_all is_NSEC3 nsec \<Longrightarrow> \<exists>p. findClosestEncloser H name nsec = Ret p"
  by (cases rule: findClosestEncloser_cases [where H = H and name = name and nsec = nsec]) auto

lemma verifyOptOut_Ret:
  assumes "list_all is_NSEC3 nsec"
  shows "\<exists>e. verifyOptOut H name nsec = Ret e"
proof -
  obtain ce nc where "findClosestEncloser H name nsec = Ret (ce, nc)"
    using findClosestEncloser_Ret [OF assms] by fastforce
  moreover obtain c where "findCoverer H nc nsec = Ret c" using findCoverer_Ret [OF assms] by blast
  ultimately show ?thesis by (auto simp: verifyOptOut_def split: sum.split)
qed

text \<open>None of the checks panics on proper records.\<close>

lemma findMatching_Ret: "list_all is_NSEC3 nsec \<Longrightarrow> \<exists>m. findMatching H name nsec = Ret m"
  using findMatching_cases [of nsec H name] by blast

lemma verifyNameError_Ret:
  assumes "list_all is_NSEC3 nsec"
  shows "\<exists>e. verifyNameError H q nsec = Ret e"
proof -
  obtain ce nc where "findClosestEncloser H (q_Name q) nsec = Ret (ce, nc)"
    using findClosestEncloser_Ret [OF assms] by fastforce
  moreover obtain c where "findCoverer H (''*.'' @ ce) nsec = Ret c" using findCoverer_Ret [OF assms] by blast
  ultimately show ?thesis by (auto simp: verifyNameError_def split: sum.split)
qed

lemma verifyNODATA_Ret: "list_all is_NSEC3 nsec \<Longrightarrow> \<exists>e. verifyNODATA H q nsec = Ret e"
  using findMatching_Ret [of nsec H "q_Name q"] verifyOptOut_Ret [of nsec H "q_Name q"]
  by (auto simp: verifyNODATA_def split: sum.split)

lemma verifyDelegation_Ret: "list_all is_NSEC3 nsec \<Longrightarrow> \<exists>e. verifyDelegation H d nsec = Ret e"
  using findMatching_Ret [of nsec H d] verifyOptOut_Ret [of nsec H d]
  by (auto simp: verifyDelegation_def split: sum.split)

lemma verifyNSEC_Ret: "list_all is_NSEC nsec \<Longrightarrow> \<exists>b. verifyNSEC q nsec = Ret b"
  by (induction q nsec rule: verifyNSEC.induct) auto

section \<open>Properties\<close>

text \<open>
  The records a verdict rests on. A delegation without a DS is accepted on a matching record that
  has the NS bit and neither the DS nor the SOA bit, or, when no record matches, on an opt-out
  record that covers the next closer name of the closest encloser.
\<close>

definition opt_out_proof :: "name_hash \<Rightarrow> string \<Rightarrow> rr list \<Rightarrow> bool" where
  "opt_out_proof H name nsec \<longleftrightarrow>
     (\<exists>k h n. closest_encloser H name nsec k \<and> RR h (NSEC3_rd n) \<in> set nsec \<and>
        nsec3_Cover H h n (label_suffix name (k - 1)) \<and> (n3_Flags n AND 1) = 1)"

text \<open>C19: for a fully qualified name and the NSEC3 records of a well-formed section,
  findClosestEncloser returns the longest label suffix of the name that a record matches, together
  with the suffix one label longer, or two empty strings when no suffix is matched; it never
  panics.\<close>

theorem closest_encloser_is_longest:
  assumes "IsFqdn name" and "list_all rr_wf rrs" and "nsec = extractRRSet rrs [] [TypeNSEC3]"
  shows "(\<exists>k. closest_encloser H name nsec k \<and>
            findClosestEncloser H name nsec = Ret (label_suffix name k, label_suffix name (k - 1))) \<or>
         (\<forall>k < length (name_labels name). \<not> matches H nsec (label_suffix name k)) \<and>
            findClosestEncloser H name nsec = Ret ([], [])"
  using findClosestEncloser_spec [OF assms(1) wf_NSEC3 [OF assms(2)]] unfolding assms(3) .

text \<open>C20: verifyDelegation returns (it never panics) on the NSEC3 records of a well-formed section,
  and when it accepts a delegation, some record matches the name with the NS bit set and the DS
  and SOA bits clear, or no record matches it and an opt-out record covers the next closer name.\<close>

theorem verifyDelegation_sound:
  assumes "IsFqdn d" and "list_all rr_wf rrs" and "nsec = extractRRSet rrs [] [TypeNSEC3]"
  shows "\<exists>e. verifyDelegation H d nsec = Ret e \<and>
    (e = None \<longrightarrow>
       (\<exists>h n. RR h (NSEC3_rd n) \<in> set nsec \<and> nsec3_Match H h n d \<and> TypeNS \<in> set (n3_TypeBitMap n) \<and>
          TypeDS \<notin> set (n3_TypeBitMap n) \<and> TypeSOA \<notin> set (n3_TypeBitMap n)) \<or>
       \<not> matches H nsec d \<and> opt_out_proof H d nsec)"
proof -
  have n3: "list_all is_NSEC3 nsec" unfolding assms(3) by (rule wf_NSEC3 [OF assms(2)])
  from findMatching_cases [OF n3, of H d] show ?thesis
  proof (elim disjE exE conjE)
    assume m: "findMatching H d nsec = Ret (Inl errNSECMissingCoverage)" and "\<not> matches H nsec d"
    obtain e where "verifyOptOut H d nsec = Ret e" using verifyOptOut_Ret [OF n3] by blast
    with m \<open>\<not> matches H nsec d\<close> verifyOptOut_sound [OF assms(1) n3, of H] show ?thesis
      by (auto simp: verifyDelegation_def opt_out_proof_def)
  next
    fix h n
    assume "findMatching H d nsec = Ret (Inr (n3_TypeBitMap n))"
      and "RR h (NSEC3_rd n) \<in> set nsec" and "nsec3_Match H h n d"
    then show ?thesis by (auto simp: verifyDelegation_def)
  qed
qed

text \<open>C21: verifyNODATA returns on the NSEC3 records of a well-formed section, and when it accepts
  the absence of a type, some record matches the name and lists neither that type nor CNAME, or
  the type is DS, no record matches and an opt-out record covers the next closer name.\<close>

theorem verifyNODATA_sound:
  assumes "IsFqdn (q_Name q)" and "list_all rr_wf rrs" and "nsec = extractRRSet rrs [] [TypeNSEC3]"
  shows "\<exists>e. verifyNODATA H q nsec = Ret e \<and>
    (e = None \<longrightarrow>
       (\<exists>h n. RR h (NSEC3_rd n) \<in> set nsec \<and> nsec3_Match H h n (q_Name q) \<and>
          q_Qtype q \<notin> set (n3_TypeBitMap n) \<and> TypeCNAME \<notin> set (n3_TypeBitMap n)) \<or>
       q_Qtype q = TypeDS \<and> \<not> matches H nsec (q_Name q) \<and> opt_out_proof H (q_Name q) nsec)"
proof -
  have n3: "list_all is_NSEC3 nsec" unfolding assms(3) by (rule wf_NSEC3 [OF assms(2)])
  from findMatching_cases [OF n3, of H "q_Name q"] show ?thesis
  proof (elim disjE exE conjE)
    assume m: "findMatching H (q_Name q) nsec = Ret (Inl errNSECMissingCoverage)"
      and "\<not> matches H nsec (q_Name q)"
    obtain e where "verifyOptOut H (q_Name q) nsec = Ret e" using verifyOptOut_Ret [OF n3] by blast
    with m \<open>\<not> matches H nsec (q_Name q)\<close> verifyOptOut_sound [OF assms(1) n3, of H] show ?thesis
      by (auto simp: verifyNODATA_def opt_out_proof_def)
  next
    fix h n
    assume "findMatching H (q_Name q) nsec = Ret (Inr (n3_TypeBitMap n))"
      and "RR h (NSEC3_rd n) \<in> set nsec" and "nsec3_Match H h n (q_Name q)"
    then show ?thesis by (auto simp: verifyNODATA_def)
  qed
qed

section \<open>Witnesses\<close>

text \<open>A zone \<open>x.\<close> with one opt-out record that matches the apex and covers every hash above it.\<close>

definition demo_hash :: name_hash where
  "demo_hash name h it salt = (if name = ''x.'' then ''A'' else ''B'')"

definition demo_nsec3 :: "u16 list \<Rightarrow> rr" where
  "demo_nsec3 types =
     RR \<lparr>rh_Name = ''a.x.'', rh_Rrtype = TypeNSEC3, rh_Class = 1, rh_Ttl = 60\<rparr>
        (NSEC3_rd \<lparr>n3_Hash = 1, n3_Flags = 1, n3_Iterations = 0, n3_Salt = [], n3_NextDomain = ''A'',
                   n3_TypeBitMap = types\<rparr>)"

lemma demo_facts:
  "IsFqdn ''b.x.''" "list_all rr_wf [demo_nsec3 types]"
  "extractRRSet [demo_nsec3 types] [] [TypeNSEC3] = [demo_nsec3 types]"
  by (simp_all add: IsFqdn_def rr_wf_def demo_nsec3_def extractRRSet_def)

lemma demo_accepted:
  "verifyDelegation demo_hash ''b.x.'' [demo_nsec3 []] = Ret None"
  "verifyNODATA demo_hash \<lparr>q_Name = ''b.x.'', q_Qtype = TypeDS, q_Qclass = 1\<rparr> [demo_nsec3 []] = Ret None"
  "findClosestEncloser demo_hash ''b.x.'' [demo_nsec3 []] = Ret (''x.'', ''b.x.'')"
  "findMatching demo_hash ''b.x.'' [demo_nsec3 []] = Ret (Inl errNSECMissingCoverage)"
  by code_simp+

lemma demo_unmatched: "\<not> matches demo_hash [demo_nsec3 []] ''b.x.''"
  using demo_accepted(4) findMatching_cases [of "[demo_nsec3 []]" demo_hash "''b.x.''"]
  by (auto simp: demo_nsec3_def)

theorem closest_encloser_is_longest_witness:
  "\<exists>k. closest_encloser demo_hash ''b.x.'' [demo_nsec3 []] k \<and> label_suffix ''b.x.'' k = ''x.''"
  using closest_encloser_is_longest [of "''b.x.''" "[demo_nsec3 []]" "[demo_nsec3 []]" demo_hash]
    demo_facts demo_accepted(3) by auto

theorem verifyDelegation_sound_witness:
  "verifyDelegation demo_hash ''b.x.'' [demo_nsec3 []] = Ret None \<and> opt_out_proof demo_hash ''b.x.'' [demo_nsec3 []]"
  using verifyDelegation_sound [of "''b.x.''" "[demo_nsec3 []]" "[demo_nsec3 []]" demo_hash]
    demo_facts demo_accepted(1) by (auto simp: demo_nsec3_def)

theorem verifyNODATA_sound_witness:
  "\<not> matches demo_hash [demo_nsec3 []] ''b.x.'' \<and> opt_out_proof demo_hash ''b.x.'' [demo_nsec3 []]"
  using verifyNODATA_sound [of "\<lparr>q_Name = ''b.x.'', q_Qtype = TypeDS, q_Qclass = 1\<rparr>"
      "[demo_nsec3 []]" "[demo_nsec3 []]" demo_hash] demo_facts demo_accepted(2) demo_unmatched
  by (auto simp: matches_def)

text \<open>verifyNameError looks only for a record that covers the wildcard at the closest
  encloser, never for one that covers the next closer name: it accepts a name error for a name
  that a record of the same response matches, that is, for a name that exists.\<close>

theorem verifyNameError_accepts_existing_name:
  "verifyNameError demo_hash \<lparr>q_Name = ''x.'', q_Qtype = TypeA, q_Qclass = 1\<rparr> [demo_nsec3 [TypeA]] = Ret None \<and>
   findMatching demo_hash ''x.'' [demo_nsec3 [TypeA]] = Ret (Inr [TypeA])"
  by (intro conjI; code_simp)

end
