(* ===== verification/Dnssec_Utils.thy ===== *)
theory Dnssec_Utils
  imports Dns_Msg
begin

unbundle bit_operations_syntax

text \<open>
  Signature checking (\<^verbatim>\<open>verifyDS\<close>, \<^verbatim>\<open>verifyRRSIG\<close>, \<^verbatim>\<open>fromBase64\<close> and \<^verbatim>\<open>checkExponent\<close> of
  \<^verbatim>\<open>utils.go\<close>; \<^verbatim>\<open>dsRRFromRootKeys\<close>, \<^verbatim>\<open>verifyRootKeys\<close> and the key collection of \<^verbatim>\<open>verifyDNSSEC\<close>
  in \<^verbatim>\<open>resolver.go\<close>). The cryptography of the vendored library, \<^verbatim>\<open>KeyTag\<close>, \<^verbatim>\<open>ToDS\<close> and
  \<^verbatim>\<open>Verify\<close>, is the argument \<open>cr\<close> of the definitions; nothing is assumed of it.
  \<^verbatim>\<open>ValidityPeriod\<close> is modelled, with the clock as an argument.

  The lemmas say what an accepted DS set and an accepted message rest on, and which messages
  are accepted without any signature being checked.
\<close>

type_synonym dnskey = "rr_header \<times> rr_DNSKEY"
type_synonym keymap = "(u16, dnskey) gmap"

record crypto =
  KeyTag :: "dnskey \<Rightarrow> u16"
  ToDS :: "dnskey \<Rightarrow> u8 \<Rightarrow> (rr_header \<times> rr_DS) option"
  Verify :: "rr_header \<Rightarrow> rr_RRSIG \<Rightarrow> dnskey \<Rightarrow> rr list \<Rightarrow> string option"

datatype dnssec_err =
    errNoDNSKEY | errMissingKSK | errFailedToConvertKSK | errMismatchingDS | errNoSignatures
  | errMissingDNSKEY | errInvalidSignaturePeriod | errBadAnswer | errMissingSigned
  | ErrVerify string

section \<open>The exponent of an RSA key\<close>

definition b64_digit :: "char \<Rightarrow> nat option" where
  "b64_digit c =
     (let n = of_char c :: nat
      in if 65 \<le> n \<and> n \<le> 90 then Some (n - 65)
         else if 97 \<le> n \<and> n \<le> 122 then Some (n - 71)
         else if 48 \<le> n \<and> n \<le> 57 then Some (n + 4)
         else if c = CHR ''+'' then Some 62
         else if c = CHR ''/'' then Some 63
         else None)"

definition b64_bytes :: "nat \<Rightarrow> nat \<Rightarrow> nat \<Rightarrow> nat \<Rightarrow> u8 list" where
  "b64_bytes a b c d =
     (let v = a * 2 ^ 18 + b * 2 ^ 12 + c * 2 ^ 6 + d
      in [of_nat (v div 2 ^ 16), of_nat (v div 2 ^ 8), of_nat v])"

text \<open>Quanta of four digits; the last may end in one or two padding characters.\<close>

fun b64_decode :: "string \<Rightarrow> u8 list option" where
  "b64_decode [] = Some []"
| "b64_decode (a # b # c # d # cs) =
     (case (b64_digit a, b64_digit b) of
        (Some x, Some y) \<Rightarrow>
          (case (b64_digit c, b64_digit d) of
             (Some z, Some w) \<Rightarrow> (case b64_decode cs of None \<Rightarrow> None | Some bs \<Rightarrow> Some (b64_bytes x y z w @ bs))
           | (Some z, None) \<Rightarrow> if d = CHR ''='' \<and> cs = [] then Some (take 2 (b64_bytes x y z 0)) else None
           | (None, _) \<Rightarrow>
               if c = CHR ''='' \<and> d = CHR ''='' \<and> cs = [] then Some (take 1 (b64_bytes x y 0 0)) else None)
      | _ \<Rightarrow> None)"
| "b64_decode _ = None"

text \<open>\<^verbatim>\<open>base64.StdEncoding.Decode\<close> skips line breaks; \<open>None\<close> is an error.\<close>

definition fromBase64 :: "string \<Rightarrow> u8 list option" where
  "fromBase64 s = b64_decode (filter (\<lambda>c. of_char c \<noteq> (10 :: nat) \<and> of_char c \<noteq> (13 :: nat)) s)"

definition checkExponent :: "string \<Rightarrow> bool" where
  "checkExponent key =
     (case fromBase64 key of
        None \<Rightarrow> True
      | Some keybuf \<Rightarrow>
          if length keybuf < 1 + 1 + 64 then True
          else let explen0 = ucast (keybuf ! 0) :: u16;
                   explen = (if explen0 = 0
                             then push_bit 8 (ucast (keybuf ! 1)) OR ucast (keybuf ! 2) else explen0);
                   keyoff = (if explen0 = 0 then 3 else 1)
               in \<not> (explen > 4 \<or> explen = 0 \<or> keybuf ! keyoff = 0))"

section \<open>Delegation signer records\<close>

fun verifyDS :: "crypto \<Rightarrow> keymap \<Rightarrow> rr list \<Rightarrow> dnssec_err option go" where
  "verifyDS cr keyMap [] = Ret (Some errMissingKSK)"
| "verifyDS cr keyMap (RR h (DS_rd parentDS) # rs) =
     (case gmap_get keyMap (ds_KeyTag parentDS) of
        None \<Rightarrow> verifyDS cr keyMap rs
      | Some ksk \<Rightarrow>
          (case ToDS cr ksk (ds_DigestType parentDS) of
             None \<Rightarrow> if rs \<noteq> [] then verifyDS cr keyMap rs else Ret (Some errFailedToConvertKSK)
           | Some (_, ds) \<Rightarrow>
               if ds_Digest ds \<noteq> ds_Digest parentDS
               then if rs \<noteq> [] then verifyDS cr keyMap rs else Ret (Some errMismatchingDS)
               else Ret None))"
| "verifyDS cr keyMap (RR h DS_nil_rd # rs) = Panic ''invalid memory address or nil pointer dereference''"
| "verifyDS cr keyMap (r # rs) = verifyDS cr keyMap rs"

section \<open>Signatures\<close>

definition year68 :: int where
  "year68 = 2 ^ 31"

definition ValidityPeriod :: "rr_RRSIG \<Rightarrow> time \<Rightarrow> bool" where
  "ValidityPeriod s now =
     (let utc = now div second;
          modi = go_quot (uint (sig_Inception s) - utc) year68;
          mode = go_quot (uint (sig_Expiration s) - utc) year68;
          ti = uint (sig_Inception s) + modi * year68;
          te = uint (sig_Expiration s) + mode * year68
      in ti \<le> utc \<and> utc \<le> te)"

text \<open>The type assertion on the extracted signatures.\<close>

fun as_sigs :: "rr list \<Rightarrow> (rr_header \<times> rr_RRSIG) list go" where
  "as_sigs [] = Ret []"
| "as_sigs (RR h (RRSIG_rd s) # rs) = go_bind (as_sigs rs) (\<lambda>ss. Ret ((h, s) # ss))"
| "as_sigs (r # rs) = Panic ''interface conversion''"

text \<open>The inner loop over the keys: whether some key does not belong to the signer.\<close>

definition skips_sig :: "keymap \<Rightarrow> rr_header \<Rightarrow> rr_RRSIG \<Rightarrow> bool" where
  "skips_sig keys h sig =
     list_ex (\<lambda>(_, kh, _). \<not> has_suffix (rh_Name h) (rh_Name kh) \<or> sig_SignerName sig \<noteq> rh_Name kh) keys"

definition rsa_algorithms :: "u8 list" where
  "rsa_algorithms = [5, 7, 8, 10, 1]"

text \<open>
  The loop over the signatures: \<open>types\<close> counts the signatures of each type, \<open>te\<close> is the map
  \<^verbatim>\<open>typesErrors\<close>.
\<close>

fun verify_sigs :: "crypto \<Rightarrow> time \<Rightarrow> keymap \<Rightarrow> rr list \<Rightarrow> (u16 \<Rightarrow> nat) \<Rightarrow> (u16 \<Rightarrow> bool) \<Rightarrow>
    (rr_header \<times> rr_RRSIG) list \<Rightarrow> dnssec_err + bool" where
  "verify_sigs cr now keys rrs types te [] = Inr True"
| "verify_sigs cr now keys rrs types te ((h, sig) # sigs) =
     (if skips_sig keys h sig then verify_sigs cr now keys rrs types te sigs
      else let rest = extractRRSet rrs (to_lower (rh_Name h)) [sig_TypeCovered sig]
           in if rest = [] then Inl errMissingSigned
              else case gmap_get keys (sig_KeyTag sig) of
                None \<Rightarrow> if sigs \<noteq> [] then verify_sigs cr now keys rrs types te sigs else Inl errMissingDNSKEY
              | Some k \<Rightarrow>
                  if dk_Algorithm (snd k) \<in> set rsa_algorithms \<and> \<not> checkExponent (dk_PublicKey (snd k))
                  then Inr False
                  else case Verify cr h sig k rest of
                    Some err \<Rightarrow>
                      if \<not> te (sig_TypeCovered sig) \<and> types (sig_TypeCovered sig) > 1
                      then verify_sigs cr now keys rrs types (te(sig_TypeCovered sig := True)) sigs
                      else Inl (ErrVerify err)
                  | None \<Rightarrow>
                      if \<not> ValidityPeriod sig now
                      then if types (sig_TypeCovered sig) > 1
                           then verify_sigs cr now keys rrs types te sigs
                           else Inl errInvalidSignaturePeriod
                      else verify_sigs cr now keys rrs types (te(sig_TypeCovered sig := False)) sigs)"

definition sig_count :: "(rr_header \<times> rr_RRSIG) list \<Rightarrow> u16 \<Rightarrow> nat" where
  "sig_count sigs t = length (filter (\<lambda>(_, s). sig_TypeCovered s = t) sigs)"

definition signed_section :: "msg \<Rightarrow> rr list" where
  "signed_section m = (if m_Answer m = [] then m_Ns m else m_Answer m)"

definition verifyRRSIG :: "crypto \<Rightarrow> time \<Rightarrow> keymap \<Rightarrow> msg \<Rightarrow> (dnssec_err + bool) go" where
  "verifyRRSIG cr now keys m =
     (let rrs = signed_section m; sigRRs = extractRRSet rrs [] [TypeRRSIG]
      in if sigRRs = [] then Ret (Inl errNoSignatures)
         else go_bind (as_sigs sigRRs)
                (\<lambda>sigs. Ret (verify_sigs cr now keys rrs (sig_count sigs) (\<lambda>_. False) sigs)))"

section \<open>Keys\<close>

text \<open>The loop that collects the zone keys of a DNSKEY response.\<close>

fun collect_keys :: "crypto \<Rightarrow> rr list \<Rightarrow> keymap \<Rightarrow> keymap go" where
  "collect_keys cr [] keys = Ret keys"
| "collect_keys cr (r # rs) keys =
     (if rr_type r = TypeDNSKEY
      then case Rdata r of
             DNSKEY_rd k \<Rightarrow>
               collect_keys cr rs
                 (if dk_Flags k = 256 \<or> dk_Flags k = 257 then gmap_set (KeyTag cr (Header r, k)) (Header r, k) keys else keys)
           | _ \<Rightarrow> Panic ''interface conversion''
      else collect_keys cr rs keys)"

text \<open>The DS records of the configured root keys; \<^verbatim>\<open>ToDS\<close> gets the number of RSASHA1, 5.\<close>

fun root_ds :: "crypto \<Rightarrow> rr list \<Rightarrow> rr list" where
  "root_ds cr [] = []"
| "root_ds cr (RR h (DNSKEY_rd k) # rs) =
     (case ToDS cr (h, k) 5 of Some (dh, ds) \<Rightarrow> RR dh (DS_rd ds) | None \<Rightarrow> RR h DS_nil_rd) # root_ds cr rs"
| "root_ds cr (r # rs) = root_ds cr rs"

definition dsRRFromRootKeys :: "crypto \<Rightarrow> rr list \<Rightarrow> rr list go" where
  "dsRRFromRootKeys cr rootkeys =
     (let dsset = root_ds cr rootkeys
      in if dsset = [] then Panic ''root zone dsset empty'' else Ret dsset)"

definition verifyRootKeys :: "crypto \<Rightarrow> time \<Rightarrow> rr list \<Rightarrow> msg \<Rightarrow> bool go" where
  "verifyRootKeys cr now rootkeys m =
     go_bind (collect_keys cr (m_Answer m) [])
       (\<lambda>keys. if keys = [] then Panic ''root zone keys empty''
               else let dsset = root_ds cr rootkeys
                    in if dsset = [] then Panic ''root zone dsset empty''
                       else go_bind (verifyDS cr keys dsset)
                              (\<lambda>e. if e \<noteq> None then Panic ''root zone DS not verified''
                                   else go_bind (verifyRRSIG cr now keys m)
                                          (\<lambda>v. case v of Inl _ \<Rightarrow> Panic ''root zone keys not verified''
                                                       | Inr _ \<Rightarrow> Ret True)))"

section \<open>Lemmas\<close>

text \<open>A DS record of the parent that a collected key answers.\<close>

definition ds_match :: "crypto \<Rightarrow> keymap \<Rightarrow> rr_DS \<Rightarrow> bool" where
  "ds_match cr keys d \<longleftrightarrow>
     (\<exists>k dh ds. gmap_get keys (ds_KeyTag d) = Some k \<and> ToDS cr k (ds_DigestType d) = Some (dh, ds) \<and>
        ds_Digest ds = ds_Digest d)"

lemma verifyDS_cases:
  "\<forall>r \<in> set rs. Rdata r \<noteq> DS_nil_rd \<Longrightarrow>
   \<exists>e. verifyDS cr keys rs = Ret e \<and> (e = None \<longleftrightarrow> (\<exists>h d. RR h (DS_rd d) \<in> set rs \<and> ds_match cr keys d))"
proof (induction rs)
  case (Cons r rs)
  then obtain e where IH: "verifyDS cr keys rs = Ret e"
    "e = None \<longleftrightarrow> (\<exists>h d. RR h (DS_rd d) \<in> set rs \<and> ds_match cr keys d)" by auto
  show ?case
  proof (cases "\<exists>h d. r = RR h (DS_rd d)")
    case True
    then obtain h d where r: "r = RR h (DS_rd d)" by blast
    show ?thesis
    proof (cases "ds_match cr keys d")
      case True
      then have "verifyDS cr keys (r # rs) = Ret None" by (auto simp: ds_match_def r)
      with True r show ?thesis by auto
    next
      case False
      then have "verifyDS cr keys (r # rs) = Ret e \<or> rs = [] \<and> (\<exists>e. verifyDS cr keys (r # rs) = Ret (Some e))"
        using IH(1) by (auto simp: ds_match_def r split: option.split prod.split)
      then show ?thesis
      proof (elim disjE conjE exE)
        assume "verifyDS cr keys (r # rs) = Ret e"
        with False IH(2) r show ?thesis by (intro exI [of _ e]) auto
      next
        fix e'
        assume "rs = []" "verifyDS cr keys (r # rs) = Ret (Some e')"
        with False r show ?thesis by (intro exI [of _ "Some e'"]) auto
      qed
    qed
  next
    case False
    then have "verifyDS cr keys (r # rs) = verifyDS cr keys rs"
      using Cons.prems by (cases r; cases "Rdata r") auto
    with IH False show ?thesis by auto
  qed
qed simp

lemma as_sigs_wf:
  assumes "list_all rr_wf rrs"
  shows "\<exists>sigs. as_sigs (extractRRSet rrs [] [TypeRRSIG]) = Ret sigs \<and>
    map (\<lambda>(h, s). RR h (RRSIG_rd s)) sigs = extractRRSet rrs [] [TypeRRSIG]"
proof -
  have "list_all (\<lambda>r. \<exists>h s. r = RR h (RRSIG_rd s)) (extractRRSet rrs [] [TypeRRSIG])"
  proof -
    have "rr_wf r \<Longrightarrow> rr_type r = TypeRRSIG \<Longrightarrow> \<exists>h s. r = RR h (RRSIG_rd s)" for r
      by (cases r; cases "Rdata r") (auto simp: rr_wf_def)
    with assms show ?thesis by (auto simp: list_all_iff extractRRSet_set)
  qed
  moreover have "list_all (\<lambda>r. \<exists>h s. r = RR h (RRSIG_rd s)) rs \<Longrightarrow>
      \<exists>sigs. as_sigs rs = Ret sigs \<and> map (\<lambda>(h, s). RR h (RRSIG_rd s)) sigs = rs" for rs
    by (induction rs) auto
  ultimately show ?thesis by blast
qed

lemma verify_sigs_all_skipped:
  "\<forall>(h, s) \<in> set sigs. skips_sig keys h s \<Longrightarrow> verify_sigs cr now keys rrs types te sigs = Inr True"
  by (induction sigs) auto

text \<open>A signature the loop has really checked.\<close>

definition checked_sig :: "crypto \<Rightarrow> time \<Rightarrow> keymap \<Rightarrow> rr list \<Rightarrow> rr_header \<Rightarrow> rr_RRSIG \<Rightarrow> bool" where
  "checked_sig cr now keys rrs h sig \<longleftrightarrow>
     (\<exists>k. gmap_get keys (sig_KeyTag sig) = Some k \<and>
        extractRRSet rrs (to_lower (rh_Name h)) [sig_TypeCovered sig] \<noteq> [] \<and>
        Verify cr h sig k (extractRRSet rrs (to_lower (rh_Name h)) [sig_TypeCovered sig]) = None \<and>
        ValidityPeriod sig now)"

lemma verify_sigs_sound:
  "verify_sigs cr now keys rrs types te sigs = Inr True \<Longrightarrow> (h, s) \<in> set sigs \<Longrightarrow>
   \<not> skips_sig keys h s \<Longrightarrow> gmap_get keys (sig_KeyTag s) \<noteq> None \<Longrightarrow> types (sig_TypeCovered s) = 1 \<Longrightarrow>
   checked_sig cr now keys rrs h s"
proof (induction sigs arbitrary: te)
  case (Cons x sigs)
  obtain h' sig where x: "x = (h', sig)" by (cases x)
  show ?case
  proof (cases "(h, s) = (h', sig)")
    case True
    with Cons.prems x show ?thesis
      by (auto simp: checked_sig_def Let_def split: if_splits option.splits)
  next
    case False
    with Cons.prems(2) x have "(h, s) \<in> set sigs" by auto
    then have "verify_sigs cr now keys rrs types te' sigs = Inr True \<Longrightarrow> ?thesis" for te'
      using Cons.IH Cons.prems(3-) by blast
    with Cons.prems(1) x show ?thesis by (auto simp: Let_def split: if_splits option.splits)
  qed
qed simp

text \<open>None of the checks panics on well-formed messages, apart from the explicit panics.\<close>

lemma verifyRRSIG_Ret:
  assumes "msg_wf m"
  shows "\<exists>v. verifyRRSIG cr now keys m = Ret v"
proof -
  have "list_all rr_wf (signed_section m)" using assms by (simp add: msg_wf_def signed_section_def)
  from as_sigs_wf [OF this] show ?thesis by (auto simp: verifyRRSIG_def Let_def)
qed

lemma collect_keys_Ret: "list_all rr_wf rs \<Longrightarrow> \<exists>keys'. collect_keys cr rs keys = Ret keys'"
proof (induction cr rs keys rule: collect_keys.induct)
  case (2 cr r rs keys)
  then show ?case by (cases r; cases "Rdata r") (auto simp: rr_wf_def)
qed simp

lemma root_ds_proper:
  "\<forall>h k. RR h (DNSKEY_rd k) \<in> set rootkeys \<longrightarrow> ToDS cr (h, k) 5 \<noteq> None \<Longrightarrow>
   r \<in> set (root_ds cr rootkeys) \<Longrightarrow> \<exists>h d. r = RR h (DS_rd d)"
  by (induction cr rootkeys rule: root_ds.induct) (auto split: option.splits)

lemma root_ds_ne: "RR h (DNSKEY_rd k) \<in> set rootkeys \<Longrightarrow> root_ds cr rootkeys \<noteq> []"
  by (induction cr rootkeys rule: root_ds.induct) auto

lemma ValidityPeriod_near:
  assumes "\<bar>uint (sig_Inception s) - now div second\<bar> < 2 ^ 31" and "\<bar>uint (sig_Expiration s) - now div second\<bar> < 2 ^ 31"
  shows "ValidityPeriod s now \<longleftrightarrow> uint (sig_Inception s) \<le> now div second \<and> now div second \<le> uint (sig_Expiration s)"
  using assms by (simp add: ValidityPeriod_def Let_def year68_def go_quot_0)

section \<open>Properties\<close>

text \<open>C16. The chain of trust: on a DS set without nil entries verifyDS never panics, and it accepts
  exactly when some DS record of the set has the key tag of a collected key and the digest that
  ToDS computes of that key; the order of the records and records of other types do not matter.\<close>

theorem verifyDS_iff:
  assumes "\<forall>r \<in> set dsset. Rdata r \<noteq> DS_nil_rd"
  shows "\<exists>e. verifyDS cr keys dsset = Ret e \<and>
    (e = None \<longleftrightarrow> (\<exists>h d. RR h (DS_rd d) \<in> set dsset \<and> ds_match cr keys d))"
  by (rule verifyDS_cases [OF assms])

text \<open>C17. What an accepted message rests on: verifyRRSIG returns on every well-formed message, and when
  it accepts one, every signature that the loop does not skip, whose key was collected and that is
  the only one of its type is checked: the records it covers are there, Verify accepts them under the
  key, and the clock is inside its validity period.\<close>

theorem verifyRRSIG_sound:
  assumes "msg_wf m"
  shows "\<exists>v. verifyRRSIG cr now keys m = Ret v \<and>
    (v = Inr True \<longrightarrow>
       (\<exists>sigs. map (\<lambda>(h, s). RR h (RRSIG_rd s)) sigs = extractRRSet (signed_section m) [] [TypeRRSIG] \<and> sigs \<noteq> [] \<and>
          (\<forall>(h, s) \<in> set sigs. \<not> skips_sig keys h s \<and> gmap_get keys (sig_KeyTag s) \<noteq> None \<and>
             sig_count sigs (sig_TypeCovered s) = 1 \<longrightarrow> checked_sig cr now keys (signed_section m) h s)))"
proof -
  have "list_all rr_wf (signed_section m)" using assms by (simp add: msg_wf_def signed_section_def)
  then obtain sigs where sigs: "as_sigs (extractRRSet (signed_section m) [] [TypeRRSIG]) = Ret sigs"
    "map (\<lambda>(h, s). RR h (RRSIG_rd s)) sigs = extractRRSet (signed_section m) [] [TypeRRSIG]"
    using as_sigs_wf by blast
  show ?thesis
  proof (cases "extractRRSet (signed_section m) [] [TypeRRSIG] = []")
    case True
    then show ?thesis by (simp add: verifyRRSIG_def)
  next
    case False
    with sigs have "sigs \<noteq> []" by auto
    with False sigs verify_sigs_sound show ?thesis
      by (fastforce simp: verifyRRSIG_def Let_def)
  qed
qed

text \<open>C39. Messages are accepted unchecked: when every signature of a well-formed message is signed in the
  name of another zone than some collected key, the loop skips all of them and verifyRRSIG answers
  true, whatever the cryptography would say of the signatures.\<close>

theorem verifyRRSIG_accepts_foreign_signatures:
  assumes "msg_wf m" and "extractRRSet (signed_section m) [] [TypeRRSIG] \<noteq> []"
    and "\<forall>h s. RR h (RRSIG_rd s) \<in> set (signed_section m) \<longrightarrow> skips_sig keys h s"
  shows "verifyRRSIG cr now keys m = Ret (Inr True)"
proof -
  have "list_all rr_wf (signed_section m)" using assms(1) by (simp add: msg_wf_def signed_section_def)
  then obtain sigs where sigs: "as_sigs (extractRRSet (signed_section m) [] [TypeRRSIG]) = Ret sigs"
    "map (\<lambda>(h, s). RR h (RRSIG_rd s)) sigs = extractRRSet (signed_section m) [] [TypeRRSIG]"
    using as_sigs_wf by blast
  have "\<forall>(h, s) \<in> set sigs. skips_sig keys h s"
  proof clarify
    fix h s
    assume "(h, s) \<in> set sigs"
    then have "RR h (RRSIG_rd s) \<in> set (map (\<lambda>(h, s). RR h (RRSIG_rd s)) sigs)" by force
    with sigs(2) assms(3) show "skips_sig keys h s" by (simp add: extractRRSet_set)
  qed
  with assms(2) sigs verify_sigs_all_skipped show ?thesis by (simp add: verifyRRSIG_def)
qed

text \<open>C18. The root keys are anchored: when verifyRootKeys returns, some configured root key gives a DS
  record whose tag and digest a zone or key signing key of the response has.\<close>

theorem verifyRootKeys_anchored:
  assumes "verifyRootKeys cr now rootkeys m = Ret ok"
    and "\<forall>h k. RR h (DNSKEY_rd k) \<in> set rootkeys \<longrightarrow> ToDS cr (h, k) 5 \<noteq> None"
  shows "\<exists>h d keys. RR h (DS_rd d) \<in> set (root_ds cr rootkeys) \<and>
    collect_keys cr (m_Answer m) [] = Ret keys \<and> ds_match cr keys d"
proof -
  obtain keys where keys: "collect_keys cr (m_Answer m) [] = Ret keys"
    using assms(1) by (cases "collect_keys cr (m_Answer m) []") (auto simp: verifyRootKeys_def)
  have "\<forall>r \<in> set (root_ds cr rootkeys). Rdata r \<noteq> DS_nil_rd"
    using assms(2) by (induction cr rootkeys rule: root_ds.induct) (auto split: option.split)
  from verifyDS_cases [OF this, of cr keys] assms(1) keys show ?thesis
    by (auto simp: verifyRootKeys_def Let_def split: if_splits)
qed

section \<open>Witnesses\<close>

text \<open>A zone \<open>x.\<close> with one key, an address record and its signature.\<close>

definition demo_header :: "u16 \<Rightarrow> rr_header" where
  "demo_header t = \<lparr>rh_Name = ''x.'', rh_Rrtype = t, rh_Class = 1, rh_Ttl = 60\<rparr>"

definition demo_dnskey :: rr_DNSKEY where
  "demo_dnskey = \<lparr>dk_Flags = 257, dk_Protocol = 3, dk_Algorithm = 13, dk_PublicKey = []\<rparr>"

definition demo_ds :: rr_DS where
  "demo_ds = \<lparr>ds_KeyTag = 7, ds_Algorithm = 13, ds_DigestType = 2, ds_Digest = ''ab''\<rparr>"

definition demo_sig :: "string \<Rightarrow> u32 \<Rightarrow> string \<Rightarrow> u16 \<Rightarrow> rr_RRSIG" where
  "demo_sig signer expiration signature t =
     \<lparr>sig_TypeCovered = t, sig_Algorithm = 13, sig_Labels = 1, sig_OrigTtl = 60,
      sig_Expiration = expiration, sig_Inception = 0, sig_KeyTag = 7, sig_SignerName = signer,
      sig_Signature = signature\<rparr>"

definition demo_crypto :: crypto where
  "demo_crypto =
     \<lparr>KeyTag = (\<lambda>_. 7), ToDS = (\<lambda>k h. Some (demo_header TypeDS, demo_ds)),
      Verify = (\<lambda>h s k rs. if sig_Signature s = ''bad'' then Some ''bad signature'' else None)\<rparr>"

definition demo_keys :: keymap where
  "demo_keys = [(7, (demo_header TypeDNSKEY, demo_dnskey))]"

definition demo_answer :: "rr_RRSIG list \<Rightarrow> msg" where
  "demo_answer sigs =
     msg_zero\<lparr>m_Answer := RR (demo_header TypeA) (A_rd [1, 2, 3, 4]) #
                map (\<lambda>s. RR (demo_header TypeRRSIG) (RRSIG_rd s)) sigs\<rparr>"

definition demo_root_answer :: msg where
  "demo_root_answer =
     msg_zero\<lparr>m_Answer := [RR (demo_header TypeDNSKEY) (DNSKEY_rd demo_dnskey),
                RR (demo_header TypeRRSIG) (RRSIG_rd (demo_sig ''x.'' 100 ''good'' TypeDNSKEY))]\<rparr>"

lemmas demo_defs = demo_header_def demo_dnskey_def demo_ds_def demo_sig_def demo_crypto_def demo_keys_def
  demo_answer_def demo_root_answer_def

lemma demo_answer_wf: "msg_wf (demo_answer sigs)"
  by (simp add: msg_wf_def demo_defs msg_zero_def rr_wf_def list_all_iff)

theorem verifyDS_iff_witness:
  "\<exists>e. verifyDS demo_crypto demo_keys [RR (demo_header TypeDS) (DS_rd demo_ds)] = Ret e \<and> e = None"
  using verifyDS_iff [of "[RR (demo_header TypeDS) (DS_rd demo_ds)]" demo_crypto demo_keys]
  by (auto simp: ds_match_def demo_defs)

lemma demo_verified:
  "verifyRRSIG demo_crypto (10 * second) demo_keys (demo_answer [demo_sig ''x.'' 100 ''good'' TypeA]) = Ret (Inr True)"
  "verifyRootKeys demo_crypto (10 * second) [RR (demo_header TypeDNSKEY) (DNSKEY_rd demo_dnskey)] demo_root_answer = Ret True"
  by code_simp+

theorem verifyRRSIG_sound_witness:
  "checked_sig demo_crypto (10 * second) demo_keys (signed_section (demo_answer [demo_sig ''x.'' 100 ''good'' TypeA]))
     (demo_header TypeRRSIG) (demo_sig ''x.'' 100 ''good'' TypeA)"
  using verifyRRSIG_sound [OF demo_answer_wf, of demo_crypto "10 * second" demo_keys "[demo_sig ''x.'' 100 ''good'' TypeA]"]
    demo_verified(1)
  by (auto simp: signed_section_def extractRRSet_def sig_count_def skips_sig_def has_suffix_def demo_defs)

theorem verifyRRSIG_accepts_foreign_signatures_witness:
  "verifyRRSIG demo_crypto 0 demo_keys (demo_answer [demo_sig ''evil.'' 100 ''bad'' TypeA]) = Ret (Inr True)"
  using verifyRRSIG_accepts_foreign_signatures
    [OF demo_answer_wf, of "[demo_sig ''evil.'' 100 ''bad'' TypeA]" demo_keys demo_crypto 0]
  by (auto simp: signed_section_def extractRRSet_def skips_sig_def demo_defs)

theorem verifyRootKeys_anchored_witness:
  "\<exists>h d keys. RR h (DS_rd d) \<in> set (root_ds demo_crypto [RR (demo_header TypeDNSKEY) (DNSKEY_rd demo_dnskey)]) \<and>
     collect_keys demo_crypto (m_Answer demo_root_answer) [] = Ret keys \<and> ds_match demo_crypto keys d"
  using verifyRootKeys_anchored [OF demo_verified(2)] by (simp add: demo_crypto_def)

text \<open>A message none of whose signatures is good can be accepted: of two signatures of one type
  the first fails to verify and is excused because there is another, the second verifies but has
  expired and is excused as well, and verifyRRSIG answers true.\<close>

theorem verifyRRSIG_accepts_bad_and_expired:
  "verifyRRSIG demo_crypto (10 * second) demo_keys
     (demo_answer [demo_sig ''x.'' 100 ''bad'' TypeA, demo_sig ''x.'' 5 ''good'' TypeA]) = Ret (Inr True) \<and>
   \<not> checked_sig demo_crypto (10 * second) demo_keys rrs (demo_header TypeRRSIG) (demo_sig ''x.'' 100 ''bad'' TypeA) \<and>
   \<not> checked_sig demo_crypto (10 * second) demo_keys rrs (demo_header TypeRRSIG) (demo_sig ''x.'' 5 ''good'' TypeA)"
proof (intro conjI)
  show "verifyRRSIG demo_crypto (10 * second) demo_keys
     (demo_answer [demo_sig ''x.'' 100 ''bad'' TypeA, demo_sig ''x.'' 5 ''good'' TypeA]) = Ret (Inr True)"
    by code_simp
  show "\<not> checked_sig demo_crypto (10 * second) demo_keys rrs (demo_header TypeRRSIG) (demo_sig ''x.'' 100 ''bad'' TypeA)"
    by (simp add: checked_sig_def demo_defs)
  have "\<not> ValidityPeriod (demo_sig ''x.'' 5 ''good'' TypeA) (10 * second)" by code_simp
  then show "\<not> checked_sig demo_crypto (10 * second) demo_keys rrs (demo_header TypeRRSIG) (demo_sig ''x.'' 5 ''good'' TypeA)"
    by (simp add: checked_sig_def)
qed

end
