(* ===== verification/Net_Util.thy ===== *)
theory Net_Util
  imports Dns_Msg
begin

unbundle bit_operations_syntax

text \<open>
  Addresses as the resolver writes them (\<^verbatim>\<open>net.IP.String\<close>, \<^verbatim>\<open>net.JoinHostPort\<close>), and the small
  helpers of \<^verbatim>\<open>utils.go\<close> over addresses and random choices: \<^verbatim>\<open>findLocalIPAddresses\<close>,
  \<^verbatim>\<open>isLocalIP\<close>, \<^verbatim>\<open>randInt\<close>, \<^verbatim>\<open>shuffleRR\<close> and \<^verbatim>\<open>shuffleStr\<close>. What the random generator and the
  operating system return are arguments.
\<close>

section \<open>Addresses\<close>

definition hex_digit :: "nat \<Rightarrow> char" where
  "hex_digit n = char_of (if n < 10 then 48 + n else 87 + n)"

fun to_hex :: "nat \<Rightarrow> string" where
  "to_hex n = (if n < 16 then [hex_digit n] else to_hex (n div 16) @ [hex_digit (n mod 16)])"

declare to_hex.simps [simp del]

definition dotted :: "ip \<Rightarrow> string" where
  "dotted a = strings_join (map (\<lambda>b. itoa (unat b)) a) ''.''"

definition To4 :: "ip \<Rightarrow> ip option" where
  "To4 a = (if length a = 4 then Some a
            else if length a = 16 \<and> take 10 a = replicate 10 0 \<and> a ! 10 = 255 \<and> a ! 11 = 255
            then Some (drop 12 a) else None)"

fun ip_groups :: "ip \<Rightarrow> nat list" where
  "ip_groups (a # b # r) = (unat a * 256 + unat b) # ip_groups r"
| "ip_groups _ = []"

text \<open>The first longest run of zero groups, as start and length.\<close>

fun zero_run :: "nat list \<Rightarrow> nat" where
  "zero_run (0 # gs) = Suc (zero_run gs)"
| "zero_run _ = 0"

fun longest_zeros :: "nat list \<Rightarrow> nat \<Rightarrow> nat \<times> nat \<Rightarrow> nat \<times> nat" where
  "longest_zeros [] i best = best"
| "longest_zeros (g # gs) i best =
     longest_zeros gs (Suc i) (if zero_run (g # gs) > snd best then (i, zero_run (g # gs)) else best)"

definition ip_String :: "ip \<Rightarrow> string" where
  "ip_String a =
     (if a = [] then ''<nil>''
      else case To4 a of
        Some v4 \<Rightarrow> dotted v4
      | None \<Rightarrow>
          if length a \<noteq> 16 then ''?'' @ concat (map (\<lambda>b. [hex_digit (unat b div 16), hex_digit (unat b mod 16)]) a)
          else let gs = ip_groups a; (z, n) = longest_zeros gs 0 (0, 0)
               in if n < 2 then strings_join (map to_hex gs) '':''
                  else strings_join (map to_hex (take z gs)) '':'' @ ''::'' @
                       strings_join (map to_hex (drop (z + n) gs)) '':'')"

definition JoinHostPort :: "string \<Rightarrow> string \<Rightarrow> string" where
  "JoinHostPort host port =
     (if CHR '':'' \<in> set host \<or> CHR ''%'' \<in> set host
      then ''['' @ host @ '']:'' @ port else host @ '':'' @ port)"

text \<open>\<^verbatim>\<open>net.SplitHostPort\<close>; on an error both results are empty.\<close>

fun last_colon :: "string \<Rightarrow> nat option" where
  "last_colon [] = None"
| "last_colon (c # cs) =
     (case last_colon cs of Some i \<Rightarrow> Some (Suc i) | None \<Rightarrow> if c = CHR '':'' then Some 0 else None)"

definition SplitHostPort :: "string \<Rightarrow> string \<times> string" where
  "SplitHostPort hostport =
     (case last_colon hostport of
        None \<Rightarrow> ([], [])
      | Some i \<Rightarrow>
          let port = drop (Suc i) hostport
          in if hd hostport = CHR ''[''
             then let inside = takeWhile (\<lambda>c. c \<noteq> CHR '']'') (tl hostport); stop = Suc (length inside)
                  in if CHR '']'' \<notin> set hostport \<or> Suc stop \<noteq> i then ([], [])
                     else if CHR ''['' \<in> set (tl hostport) \<or> CHR '']'' \<in> set (drop (Suc stop) hostport) then ([], [])
                     else (inside, port)
             else let host = take i hostport
                  in if CHR '':'' \<in> set host \<or> CHR ''['' \<in> set hostport \<or> CHR '']'' \<in> set hostport then ([], [])
                     else (host, port))"

section \<open>Local addresses\<close>

text \<open>An interface gives its addresses or an error; an address is an \<^verbatim>\<open>*net.IPNet\<close> or something else.\<close>

datatype iface = AddrsFail | Addrs "ip option list"

fun iface_addrs :: "ip option list \<Rightarrow> string list" where
  "iface_addrs [] = []"
| "iface_addrs (None # as) = iface_addrs as"
| "iface_addrs (Some a # as) =
     (case To4 a of None \<Rightarrow> iface_addrs as | Some v4 \<Rightarrow> ip_String v4 # iface_addrs as)"

fun findLocalIPAddresses_loop :: "iface list \<Rightarrow> string list option" where
  "findLocalIPAddresses_loop [] = Some []"
| "findLocalIPAddresses_loop (AddrsFail # ts) = None"
| "findLocalIPAddresses_loop (Addrs aa # ts) =
     (case findLocalIPAddresses_loop ts of None \<Rightarrow> None | Some l \<Rightarrow> Some (iface_addrs aa @ l))"

definition findLocalIPAddresses :: "iface list option \<Rightarrow> string list option" where
  "findLocalIPAddresses tt = (case tt of None \<Rightarrow> None | Some ts \<Rightarrow> findLocalIPAddresses_loop ts)"

definition isLocalIP :: "string list \<Rightarrow> string \<Rightarrow> bool" where
  "isLocalIP LocalIPs a = list_ex (\<lambda>lip. lip = a) LocalIPs"

section \<open>Random choices\<close>

text \<open>\<^verbatim>\<open>rand.Intn\<close> panics when its argument is not positive.\<close>

definition randInt :: "nat \<Rightarrow> int \<Rightarrow> int \<Rightarrow> int go" where
  "randInt r lo hi =
     (if lo = hi then Ret lo
      else if hi - lo \<le> 0 then Panic ''invalid argument to Intn''
      else Ret (int r mod (hi - lo) + lo))"

definition rand_Perm :: "nat \<Rightarrow> nat \<Rightarrow> nat list" where
  "rand_Perm r n = perm_by r [0..<n]"

definition shuffleRR :: "nat \<Rightarrow> rr list \<Rightarrow> rr list" where
  "shuffleRR r vals = map (\<lambda>randIndex. vals ! randIndex) (rand_Perm r (length vals))"

definition shuffleStr :: "nat \<Rightarrow> string list \<Rightarrow> string list" where
  "shuffleStr r vals = map (\<lambda>randIndex. vals ! randIndex) (rand_Perm r (length vals))"

section \<open>Lemmas\<close>

lemma mset_map_nth_perm: "mset (map (\<lambda>i. vals ! i) (rand_Perm r (length vals))) = mset vals"
proof -
  have "mset (map (\<lambda>i. vals ! i) (rand_Perm r (length vals))) = image_mset (\<lambda>i. vals ! i) (mset [0..<length vals])"
    by (metis mset_map mset_perm_by rand_Perm_def)
  also have "\<dots> = mset (map (\<lambda>i. vals ! i) [0..<length vals])" by simp
  finally show ?thesis by (simp only: map_nth)
qed

lemma shuffle_mset: "mset (shuffleRR r vals) = mset vals" "mset (shuffleStr r names) = mset names"
  unfolding shuffleRR_def shuffleStr_def by (rule mset_map_nth_perm)+

lemma randInt_range: "lo < hi \<Longrightarrow> \<exists>i. randInt r lo hi = Ret i \<and> lo \<le> i \<and> i < hi"
  by (simp add: randInt_def) (use pos_mod_bound [of "hi - lo" "int r"] in linarith)

lemma isLocalIP_iff [simp]: "isLocalIP ips a \<longleftrightarrow> a \<in> set ips"
  by (auto simp: isLocalIP_def list_ex_iff)

lemma ip_String_example: "ip_String [192, 0, 2, 1] = ''192.0.2.1''"
  by (simp add: ip_String_def To4_def dotted_def itoa.simps char_of_def bit_Suc_0_iff)

lemma last_colon_append: "CHR '':'' \<notin> set b \<Longrightarrow> last_colon (a @ CHR '':'' # b) = Some (length a)"
proof -
  assume "CHR '':'' \<notin> set b"
  then have "last_colon b = None" by (induction b) (auto split: option.split)
  then show ?thesis by (induction a) auto
qed

lemma SplitHostPort_Join_host:
  assumes "CHR ''['' \<notin> set host" "CHR '']'' \<notin> set host"
    and "CHR ''['' \<notin> set port" "CHR '']'' \<notin> set port" "CHR '':'' \<notin> set port"
  shows "SplitHostPort (JoinHostPort host port) = (host, port)"
proof (cases "CHR '':'' \<in> set host \<or> CHR ''%'' \<in> set host")
  case True
  have "takeWhile (\<lambda>c. c \<noteq> CHR '']'') (host @ CHR '']'' # CHR '':'' # port) = host"
    using assms(2) by (subst takeWhile_append2) auto
  moreover have "last_colon (CHR ''['' # host @ CHR '']'' # CHR '':'' # port) = Some (Suc (Suc (length host)))"
    using last_colon_append [OF assms(5), of "CHR ''['' # host @ [CHR '']'']"] by simp
  ultimately show ?thesis using True assms by (simp add: JoinHostPort_def SplitHostPort_def Let_def)
next
  case False
  have "hd (host @ CHR '':'' # port) \<noteq> CHR ''[''" using assms(1) by (cases host) auto
  with False assms last_colon_append [OF assms(5), of host] show ?thesis
    by (simp add: JoinHostPort_def SplitHostPort_def Let_def)
qed

text \<open>Joining a host and a port and splitting them again gives them back, for every host and port without
  brackets and every port without a colon, IPv6 addresses included.\<close>

theorem SplitHostPort_Join:
  assumes "CHR ''['' \<notin> set host" "CHR '']'' \<notin> set host"
    and "CHR ''['' \<notin> set port" "CHR '']'' \<notin> set port" "CHR '':'' \<notin> set port"
  shows "SplitHostPort (JoinHostPort host port) = (host, port)"
  by (rule SplitHostPort_Join_host [OF assms])

theorem SplitHostPort_Join_witness:
  "SplitHostPort (JoinHostPort ''2001:db8::1'' ''53'') = (''2001:db8::1'', ''53'')"
  by (rule SplitHostPort_Join) simp_all

end
