(* ===== verification/Resolver_State.thy ===== *)
theory Resolver_State
  imports Cache_Hash NS_Cache Query_Cache Error_Cache Lookup_Queue Nsec3 Dnssec_Utils Net_Util
begin

text \<open>
  The state of the resolver (\<^verbatim>\<open>resolver.go\<close>) and the calls that reach the network or a cache:
  \<^verbatim>\<open>exchange\<close>, \<^verbatim>\<open>lookup\<close>, \<^verbatim>\<open>searchCache\<close>.

  An operation is a function from the state to an outcome: \<open>Done\<close> with a result and the new
  state, \<open>Crash\<close> for a panic, or \<open>Stuck\<close> when the fuel of the recursion is used up. Server lists
  are objects that the caches and the globals share, so they live in a heap and are passed by
  address; addresses 0, 1 and 2 are \<^verbatim>\<open>rootservers\<close>, \<^verbatim>\<open>root6servers\<close> and \<^verbatim>\<open>fallbackservers\<close>. A request
  is mutated by the calls it is passed to and is returned by them. Every reading of the clock,
  every random choice and every exchange takes the next tick, so that the environment may answer
  differently each time. \<open>rs_sent\<close> records what was sent to which server.
\<close>

datatype rerr =
    errMaxDepth | errParentDetection | errRootServersDetection | errLoopDetection
  | errTimeout | errResolver | errDSRecords
  | ErrNsec nsec_err | ErrDnssec dnssec_err | ErrSocket string | ErrText string

record renv =
  ev_crypto :: crypto
  ev_hash :: name_hash
  ev_clock :: "nat \<Rightarrow> time"
  ev_rnd :: "nat \<Rightarrow> nat"
  ev_exchange :: "nat \<Rightarrow> string \<Rightarrow> string \<Rightarrow> msg \<Rightarrow> (string + msg) \<times> 64 word"
  ev_rootkeys :: "rr list"
  ev_LocalIPs :: "string list"
  ev_Maxdepth :: int

record rstate =
  rs_tick :: nat
  rs_heap :: "auth_servers list"
  rs_Lqueue :: lqueue
  rs_Qcache :: query_cache
  rs_Ncache :: ns_cache
  rs_Ecache :: error_cache
  rs_sent :: "(string \<times> string \<times> msg) list"

abbreviation (input) rootservers :: server_ref where "rootservers \<equiv> 0"
abbreviation (input) root6servers :: server_ref where "root6servers \<equiv> 1"
abbreviation (input) fallbackservers :: server_ref where "fallbackservers \<equiv> 2"
abbreviation (input) rootzone :: string where "rootzone \<equiv> ''.''"
abbreviation (input) DefaultMsgSize :: u16 where "DefaultMsgSize \<equiv> 1536"

section \<open>Outcomes\<close>

datatype ('a, 's) outcome = Done 'a 's | Crash string | Stuck

type_synonym 'a rm = "rstate \<Rightarrow> ('a, rstate) outcome"

definition rret :: "'a \<Rightarrow> 'a rm" where
  "rret x = (\<lambda>s. Done x s)"

definition rbind :: "'a rm \<Rightarrow> ('a \<Rightarrow> 'b rm) \<Rightarrow> 'b rm" where
  "rbind m f = (\<lambda>s. case m s of Done x s' \<Rightarrow> f x s' | Crash w \<Rightarrow> Crash w | Stuck \<Rightarrow> Stuck)"

definition rpanic :: "string \<Rightarrow> 'a rm" where
  "rpanic w = (\<lambda>s. Crash w)"

definition rstuck :: "'a rm" where
  "rstuck = (\<lambda>s. Stuck)"

definition rgo :: "'a go \<Rightarrow> 'a rm" where
  "rgo g = (case g of Ret x \<Rightarrow> rret x | Panic w \<Rightarrow> rpanic w)"

definition rget :: "(rstate \<Rightarrow> 'a) \<Rightarrow> 'a rm" where
  "rget f = (\<lambda>s. Done (f s) s)"

definition rtick :: "nat rm" where
  "rtick = (\<lambda>s. Done (rs_tick s) (s\<lparr>rs_tick := Suc (rs_tick s)\<rparr>))"

definition rnow :: "renv \<Rightarrow> time rm" where
  "rnow E = rbind rtick (\<lambda>t. rret (ev_clock E t))"

definition rrnd :: "renv \<Rightarrow> nat rm" where
  "rrnd E = rbind rtick (\<lambda>t. rret (ev_rnd E t))"

section \<open>Caches and server lists\<close>

definition Qcache_Get :: "renv \<Rightarrow> u64 \<Rightarrow> msg \<Rightarrow> (cache_err + msg \<times> rate_limiter) rm" where
  "Qcache_Get E key req =
     rbind (rnow E) (\<lambda>now s. case QueryCache_Get now key req (rs_Qcache s) of
       (r, c) \<Rightarrow> Done r (s\<lparr>rs_Qcache := c\<rparr>))"

definition Qcache_Set :: "renv \<Rightarrow> u64 \<Rightarrow> msg \<Rightarrow> unit rm" where
  "Qcache_Set E key m =
     rbind (rnow E) (\<lambda>now. rbind (rrnd E) (\<lambda>r s.
       Done () (s\<lparr>rs_Qcache := QueryCache_Set r now key m (rs_Qcache s)\<rparr>)))"

definition Ecache_Get :: "renv \<Rightarrow> u64 \<Rightarrow> cache_err option rm" where
  "Ecache_Get E key =
     rbind (rnow E) (\<lambda>now s. case ErrorCache_Get now key (rs_Ecache s) of
       (r, c) \<Rightarrow> Done r (s\<lparr>rs_Ecache := c\<rparr>))"

definition Ecache_Set :: "renv \<Rightarrow> u64 \<Rightarrow> unit rm" where
  "Ecache_Set E key =
     rbind (rnow E) (\<lambda>now. rbind (rrnd E) (\<lambda>r s.
       Done () (s\<lparr>rs_Ecache := ErrorCache_Set r now key (rs_Ecache s)\<rparr>)))"

definition Ncache_Get :: "renv \<Rightarrow> u64 \<Rightarrow> (cache_err + ns_entry) rm" where
  "Ncache_Get E key =
     rbind (rnow E) (\<lambda>now s. case NSCache_Get now key (rs_Ncache s) of
       (r, c) \<Rightarrow> Done r (s\<lparr>rs_Ncache := c\<rparr>))"

definition Ncache_Set :: "renv \<Rightarrow> u64 \<Rightarrow> rr list \<Rightarrow> u32 \<Rightarrow> server_ref \<Rightarrow> unit rm" where
  "Ncache_Set E key dsRR ttl servers =
     rbind (rnow E) (\<lambda>now s.
       Done () (s\<lparr>rs_Ncache := NSCache_Set now key dsRR ttl servers (rs_Ncache s)\<rparr>))"

definition Lqueue_Add :: "u64 \<Rightarrow> unit rm" where
  "Lqueue_Add key = (\<lambda>s. Done () (s\<lparr>rs_Lqueue := LQueue_Add key (rs_Lqueue s)\<rparr>))"

definition Lqueue_Done :: "u64 \<Rightarrow> unit rm" where
  "Lqueue_Done key = (\<lambda>s. case LQueue_Done key (rs_Lqueue s) of
     Ret q \<Rightarrow> Done () (s\<lparr>rs_Lqueue := q\<rparr>) | Panic w \<Rightarrow> Crash w)"

text \<open>A new \<^verbatim>\<open>AuthServers\<close> object for a list of hosts.\<close>

definition alloc_servers :: "string list \<Rightarrow> server_ref rm" where
  "alloc_servers hosts =
     (\<lambda>s. Done (length (rs_heap s)) (s\<lparr>rs_heap := rs_heap s @ [new_AuthServers hosts]\<rparr>))"

section \<open>Sending a query\<close>

definition record_rtt :: "server_ref \<Rightarrow> nat \<Rightarrow> 64 word \<Rightarrow> rstate \<Rightarrow> rstate" where
  "record_rtt a i rtt s =
     s\<lparr>rs_heap := (rs_heap s)[a := (rs_heap s ! a)\<lparr>as_List :=
         (as_List (rs_heap s ! a))[i := as_record rtt (as_List (rs_heap s ! a) ! i)]\<rparr>]\<rparr>"

text \<open>
  The deferred function of every activation of \<^verbatim>\<open>exchange\<close> records its own round-trip time when
  it returns, so that of a retry is recorded first. The client's network and the request,
  which the retries change, are part of the result.
\<close>

fun after_exchange :: "(rstate \<Rightarrow> rstate) \<Rightarrow> ('a, rstate) outcome \<Rightarrow> ('a, rstate) outcome" where
  "after_exchange f (Done x s) = Done x (f s)"
| "after_exchange f (Crash w) = Crash w"
| "after_exchange f Stuck = Stuck"

function exchange :: "renv \<Rightarrow> string \<Rightarrow> server_ref \<Rightarrow> nat \<Rightarrow> msg \<Rightarrow> ((rerr + msg) \<times> string \<times> msg) rm" where
  "exchange E net a i req s =
     (let host = as_Host (as_List (rs_heap s ! a) ! i);
          s1 = s\<lparr>rs_tick := Suc (rs_tick s), rs_sent := rs_sent s @ [(net, host, req)]\<rparr>
      in case ev_exchange E (rs_tick s) net host req of
           (Inl err, rtt) \<Rightarrow>
             if strings_contains err ''no route to host'' \<and> net = ''udp''
             then after_exchange (record_rtt a i rtt) (exchange E ''tcp'' a i req s1)
             else Done (Inl (ErrSocket err), net, req) (record_rtt a i rtt s1)
         | (Inr resp, rtt) \<Rightarrow>
             if m_Rcode resp = RcodeFormatError
             then case IsEdns0 req of
                    None \<Rightarrow> Done (Inr resp, net, req) (record_rtt a i rtt s1)
                  | Some opt \<Rightarrow>
                      if is_OPT opt
                      then after_exchange (record_rtt a i rtt) (exchange E net a i (clearOPT req) s1)
                      else Crash ''interface conversion''
             else Done (Inr resp, net, req) (record_rtt a i rtt s1))"
  by pat_completeness auto

lemma clearOPT_fewer: "IsEdns0 req = Some opt \<Longrightarrow> is_OPT opt \<Longrightarrow>
  length (filter is_OPT (m_Extra (clearOPT req))) < length (filter is_OPT (m_Extra req))"
  by (auto simp: IsEdns0_def clearOPT_def filter_empty_conv dest!: last_opt_Some)

termination exchange
proof (relation "measures [\<lambda>(E, net, a, i, req, s). if net = ''udp'' then 1 else 0,
    \<lambda>(E, net, a, i, req, s). length (filter is_OPT (m_Extra req))]", goal_cases)
qed (auto simp: clearOPT_fewer)

declare exchange.simps [simp del]

text \<open>The loop of \<^verbatim>\<open>lookup\<close> over the \<open>n\<close> servers of the list at address \<open>a\<close>.\<close>

function lookup_loop :: "renv \<Rightarrow> string \<Rightarrow> server_ref \<Rightarrow> nat \<Rightarrow> nat \<Rightarrow> msg \<Rightarrow> ((rerr + msg) \<times> msg) rm" where
  "lookup_loop E net a n i req =
     (if n \<le> i then rpanic ''looks like no root servers, check your config''
      else rbind (exchange E net a i req)
        (\<lambda>(r, net', req'). case r of
           Inl err \<Rightarrow> if n - 1 = i then rret (Inl err, req') else lookup_loop E net' a n (Suc i) req'
         | Inr resp \<Rightarrow>
             if m_Rcode resp \<noteq> RcodeSuccess \<and> n - 1 \<noteq> i then lookup_loop E net' a n (Suc i) req'
             else rret (Inr resp, req')))"
  by pat_completeness auto
termination
  by (relation "measure (\<lambda>(E, net, a, n, i, req). n - i)") auto

declare lookup_loop.simps [simp del]

definition try_sort :: "renv \<Rightarrow> server_ref \<Rightarrow> unit rm" where
  "try_sort E a =
     rbind (rrnd E) (\<lambda>r s. Done () (s\<lparr>rs_heap := (rs_heap s)[a := TrySort r (rs_heap s ! a)]\<rparr>))"

definition lookup :: "renv \<Rightarrow> string \<Rightarrow> msg \<Rightarrow> server_ref \<Rightarrow> ((rerr + msg) \<times> msg) rm" where
  "lookup E Net req servers =
     rbind (try_sort E servers)
       (\<lambda>_. rbind (rget (\<lambda>s. length (as_List (rs_heap s ! servers))))
              (\<lambda>n. lookup_loop E Net servers n 0 req))"

section \<open>The closest cached zone\<close>

text \<open>
  \<^verbatim>\<open>searchCache\<close> calls itself with the parent of the name until a zone is cached or the name is
  empty. On a name without a dot \<^verbatim>\<open>upperName\<close> is the identity and the calls never end; for every
  other name the fuel that \<open>Resolve\<close> gives it, one more than the length, is enough.
\<close>

fun searchCache :: "renv \<Rightarrow> nat \<Rightarrow> question \<Rightarrow> bool \<Rightarrow> (server_ref \<times> rr list) rm" where
  "searchCache E 0 q cd = rstuck"
| "searchCache E (Suc fuel) q cd =
     (let q1 = q\<lparr>q_Qtype := TypeNS\<rparr>; key = Hash q1 [cd]
      in rbind (Ncache_Get E key)
           (\<lambda>r. case r of
              Inr ns \<Rightarrow> rret (ns_Servers ns, ns_DSRR ns)
            | Inl _ \<Rightarrow>
                let q2 = q1\<lparr>q_Name := upperName (q_Name q1)\<rparr>
                in if q_Name q2 = [] then rret (rootservers, []) else searchCache E fuel q2 cd))"

end
