(* ===== verification/Resolver.thy ===== *)
theory Resolver
  imports Resolver_State
begin

text \<open>
  The recursive resolver (\<^verbatim>\<open>resolver.go\<close>): \<open>Resolve\<close>, \<open>lookupDS\<close>, \<open>lookupNSAddr\<close>, \<open>verifyDNSSEC\<close>,
  \<open>checkPriming\<close>. The first four call each other, and no argument decreases along every call, so
  each is written over the operations it calls (a record \<open>R\<close> of the four), and \<open>resolver E n\<close>
  ties the knot with \<open>n\<close> nested calls of fuel; a run that would nest deeper is \<open>Stuck\<close>.

  \<open>Resolve\<close> is cut at its returns into \<open>resolve_negative\<close>, \<open>resolve_answer\<close> and
  \<open>resolve_authority\<close>, and the walk up the DS records, which the source repeats for answers and
  for delegations, is \<open>ds_chain\<close>. Logging is left out, except that the argument of a log call
  that dereferences a nil error panics, as in the source.
\<close>

record resolver_ops =
  op_Resolve :: "string \<Rightarrow> msg \<Rightarrow> server_ref \<Rightarrow> bool \<Rightarrow> int \<Rightarrow> int \<Rightarrow> bool \<Rightarrow> rr list \<Rightarrow> bool \<Rightarrow>
    ((rerr + msg) \<times> msg) rm"
  op_lookupDS :: "string \<Rightarrow> string \<Rightarrow> int \<Rightarrow> (rerr + msg) rm"
  op_lookupNSAddr :: "string \<Rightarrow> string \<Rightarrow> int \<Rightarrow> bool \<Rightarrow> (rerr + string) rm"
  op_verifyDNSSEC :: "string \<Rightarrow> string \<Rightarrow> msg \<Rightarrow> rr list \<Rightarrow> (rerr + bool) rm"

abbreviation (input) nil_deref :: string where
  "nil_deref \<equiv> ''invalid memory address or nil pointer dereference''"

abbreviation (input) nil_err :: string where
  "nil_err \<equiv> ''invalid memory address or nil pointer dereference (err.Error)''"

section \<open>Requests of the resolver itself\<close>

definition new_query :: "renv \<Rightarrow> string \<Rightarrow> u16 \<Rightarrow> msg rm" where
  "new_query E name qtype =
     rbind (rrnd E) (\<lambda>ident.
       rret ((SetEdns0 (SetQuestion (of_nat ident) msg_zero name qtype) DefaultMsgSize True)
               \<lparr>m_RecursionDesired := True\<rparr>))"

section \<open>The DS records to validate with\<close>

text \<open>The owner name of \<^verbatim>\<open>parentdsrr[0].(*dns.DS)\<close>.\<close>

fun first_ds_name :: "rr list \<Rightarrow> string go" where
  "first_ds_name (RR h (DS_rd d) # rs) = Ret (to_lower (rh_Name h))"
| "first_ds_name (RR h DS_nil_rd # rs) = Panic nil_deref"
| "first_ds_name (r # rs) = Panic ''interface conversion''"
| "first_ds_name [] = Panic ''index out of range''"

text \<open>
  The walk down from the zone of the known DS records to the name, for an unsigned response. The
  fuel is the number of labels: each round adds one label.
\<close>

fun ds_walk :: "renv \<Rightarrow> resolver_ops \<Rightarrow> string \<Rightarrow> string \<Rightarrow> nat \<Rightarrow> nat \<Rightarrow> rr list \<Rightarrow> (rerr + rr list) rm" where
  "ds_walk E R Net name 0 n parentdsrr = rstuck"
| "ds_walk E R Net name (Suc fuel) n parentdsrr =
     (let nsplit = SplitDomainName name
      in if \<not> n < length nsplit then rret (Inr parentdsrr)
         else let candidate = Fqdn (strings_join (drop (length nsplit - n - 1) nsplit) ''.'')
              in rbind (op_lookupDS R Net candidate (ev_Maxdepth E))
                   (\<lambda>dsResp. case dsResp of
                      Inl err \<Rightarrow> rret (Inl err)
                    | Inr m \<Rightarrow>
                        let ds = extractRRSet (m_Answer m) candidate [TypeDS]
                        in if ds = [] then rret (Inr ds)
                           else ds_walk E R Net name fuel (CompareDomainName candidate name) ds))"

definition ds_chain :: "renv \<Rightarrow> resolver_ops \<Rightarrow> string \<Rightarrow> string \<Rightarrow> string \<Rightarrow> rr list \<Rightarrow> (rerr + rr list) rm" where
  "ds_chain E R Net signer name parentdsrr =
     rbind (rgo (first_ds_name parentdsrr))
       (\<lambda>dsname.
          if signer = []
          then ds_walk E R Net name (Suc (length (SplitDomainName name))) (CompareDomainName dsname name) parentdsrr
          else if dsname \<noteq> signer
          then rbind (op_lookupDS R Net signer (ev_Maxdepth E))
                 (\<lambda>dsResp. case dsResp of
                    Inl err \<Rightarrow> rret (Inl err)
                  | Inr m \<Rightarrow> rret (Inr (extractRRSet (m_Answer m) signer [TypeDS])))
          else rret (Inr parentdsrr))"

text \<open>The choice the source makes before it validates; \<open>walk\<close> is its second condition.\<close>

definition ds_select :: "renv \<Rightarrow> resolver_ops \<Rightarrow> string \<Rightarrow> string \<Rightarrow> string \<Rightarrow> bool \<Rightarrow> rr list \<Rightarrow> (rerr + rr list) rm" where
  "ds_select E R Net signer name walk parentdsrr =
     (if signer = rootzone \<and> parentdsrr = []
      then rbind (rgo (dsRRFromRootKeys (ev_crypto E) (ev_rootkeys E))) (\<lambda>ds. rret (Inr ds))
      else if parentdsrr \<noteq> [] \<and> walk then ds_chain E R Net signer name parentdsrr
      else rret (Inr parentdsrr))"

section \<open>Negative answers\<close>

definition resolve_negative :: "renv \<Rightarrow> question \<Rightarrow> msg \<Rightarrow> rr list \<Rightarrow> unit rm" where
  "resolve_negative E q resp parentdsrr =
     (if m_Rcode resp \<noteq> RcodeNameError then rret ()
      else rbind (if upperName (q_Name q) = []
                  then rgo (dsRRFromRootKeys (ev_crypto E) (ev_rootkeys E)) else rret parentdsrr)
             (\<lambda>ds. if ds = [] then rret ()
                   else let nsec3Set = extractRRSet (m_Ns resp) [] [TypeNSEC3]
                        in if nsec3Set = [] then rret ()
                           else rbind (rgo (verifyNameError (ev_hash E) q nsec3Set)) (\<lambda>_. rret ())))"

section \<open>Positive answers\<close>

text \<open>The first signature of the question name, and whether there is one.\<close>

fun answer_signer :: "string \<Rightarrow> rr list \<Rightarrow> string \<times> bool" where
  "answer_signer name [] = ([], False)"
| "answer_signer name (r # rs) =
     (if to_lower (rr_name r) \<noteq> to_lower name then answer_signer name rs
      else case Rdata r of RRSIG_rd s \<Rightarrow> (sig_SignerName s, True) | _ \<Rightarrow> answer_signer name rs)"

definition finish_answer :: "msg \<Rightarrow> bool \<Rightarrow> msg \<Rightarrow> msg" where
  "finish_answer req extra resp =
     (let resp1 = resp\<lparr>m_Ns := []\<rparr>
      in if extra then resp1
         else resp1\<lparr>m_Extra := (case IsEdns0 req of None \<Rightarrow> [] | Some opt \<Rightarrow> [opt])\<rparr>)"

definition resolve_answer ::
  "renv \<Rightarrow> resolver_ops \<Rightarrow> string \<Rightarrow> msg \<Rightarrow> question \<Rightarrow> msg \<Rightarrow> rr list \<Rightarrow> bool \<Rightarrow> (rerr + msg) rm" where
  "resolve_answer E R Net req q resp parentdsrr extra =
     (if m_CheckingDisabled req then rret (Inr (finish_answer req extra resp))
      else case answer_signer (q_Name q) (m_Answer resp) of (signer, signerFound) \<Rightarrow>
        rbind (ds_select E R Net signer (q_Name q) True parentdsrr)
          (\<lambda>d. case d of
             Inl err \<Rightarrow> rret (Inl err)
           | Inr ds \<Rightarrow>
               if \<not> signerFound \<and> ds \<noteq> [] then rret (Inl errDSRecords)
               else if ds \<noteq> []
               then rbind (op_verifyDNSSEC R Net signer resp ds)
                      (\<lambda>v. case v of
                         Inl err \<Rightarrow> rret (Inl err)
                       | Inr ok \<Rightarrow> rret (Inr (finish_answer req extra (resp\<lparr>m_AuthenticatedData := ok\<rparr>))))
               else rret (Inr (finish_answer req extra resp))))"

section \<open>Delegations\<close>

text \<open>The name servers of the authority section: the last NS record and the map of their names.\<close>

fun collect_ns :: "rr list \<Rightarrow> (rr_header option \<times> (string, string) gmap) \<Rightarrow> rr_header option \<times> (string, string) gmap" where
  "collect_ns [] acc = acc"
| "collect_ns (RR h (NS_rd ns) # rs) (nsrr, nsmap) = collect_ns rs (Some h, gmap_set (to_lower ns) [] nsmap)"
| "collect_ns (r # rs) acc = collect_ns rs acc"

text \<open>
  The glue loop over the additional section. With \<open>nsl\<close> an address of the question name ends it:
  that record is the answer.
\<close>

fun glue :: "bool \<Rightarrow> string \<Rightarrow> rr list \<Rightarrow> (string, string) gmap \<Rightarrow> rr + (string, string) gmap" where
  "glue nsl qname [] nsmap = Inr nsmap"
| "glue nsl qname (RR h (A_rd a) # rs) nsmap =
     (let name = to_lower (rh_Name h)
      in if nsl \<and> name = to_lower qname \<and> ip_String a \<noteq> [] then Inl (RR h (A_rd a))
         else if gmap_get nsmap name \<noteq> None then glue nsl qname rs (gmap_set name (ip_String a) nsmap)
         else glue nsl qname rs nsmap)"
| "glue nsl qname (r # rs) nsmap = glue nsl qname rs nsmap"

definition known_servers :: "renv \<Rightarrow> (string \<times> string) list \<Rightarrow> string list" where
  "known_servers E nsmap =
     map (\<lambda>(_, a). JoinHostPort a ''53'') (filter (\<lambda>(_, a). a \<noteq> [] \<and> \<not> isLocalIP (ev_LocalIPs E) a) nsmap)"

text \<open>The loop that looks up the addresses that have no glue.\<close>

fun lookup_servers :: "renv \<Rightarrow> resolver_ops \<Rightarrow> string \<Rightarrow> int \<Rightarrow> bool \<Rightarrow> (string \<times> string) list \<Rightarrow> string list \<Rightarrow> string list rm" where
  "lookup_servers E R Net depth cd [] nservers = rret nservers"
| "lookup_servers E R Net depth cd ((k, a) # ns) nservers =
     (if a \<noteq> [] then lookup_servers E R Net depth cd ns nservers
      else rbind (op_lookupNSAddr R Net k depth cd)
             (\<lambda>r. lookup_servers E R Net depth cd ns
                    (case r of
                       Inr a' \<Rightarrow> if isLocalIP (ev_LocalIPs E) a' then nservers else nservers @ [JoinHostPort a' ''53'']
                     | Inl _ \<Rightarrow> nservers)))"

text \<open>The servers of a delegation: those with glue are cached before the others are looked up.\<close>

definition find_servers ::
  "renv \<Rightarrow> resolver_ops \<Rightarrow> string \<Rightarrow> int \<Rightarrow> bool \<Rightarrow> u64 \<Rightarrow> u32 \<Rightarrow> (string, string) gmap \<Rightarrow> string list rm" where
  "find_servers E R Net depth cd key ttl nsmap =
     rbind (rrnd E)
       (\<lambda>r1. let nservers = known_servers E (perm_by r1 nsmap)
             in if length nsmap > length nservers
                then rbind (if nservers \<noteq> []
                            then rbind (alloc_servers nservers) (\<lambda>a. Ncache_Set E key [] ttl a) else rret ())
                       (\<lambda>_. rbind (rrnd E) (\<lambda>r2. lookup_servers E R Net depth cd (perm_by r2 nsmap) nservers))
                else rret nservers)"

fun first_signer :: "rr list \<Rightarrow> string \<times> bool" where
  "first_signer [] = ([], False)"
| "first_signer (RR h (RRSIG_rd s) # rs) = (sig_SignerName s, True)"
| "first_signer (r # rs) = first_signer rs"

text \<open>
  The DS records of the delegation, after its signature was checked. \<^verbatim>\<open>err.Error()\<close> of the log
  call after a failed \<^verbatim>\<open>verifyNSEC\<close> is a method call on a nil error.
\<close>

definition delegation_ds :: "renv \<Rightarrow> string \<Rightarrow> question \<Rightarrow> msg \<Rightarrow> (rerr + rr list) go" where
  "delegation_ds E nsname q resp =
     (let ds = extractRRSet (m_Ns resp) nsname [TypeDS];
          nsec3Set = extractRRSet (m_Ns resp) [] [TypeNSEC3]
      in if nsec3Set \<noteq> []
         then go_bind (verifyDelegation (ev_hash E) nsname nsec3Set)
                (\<lambda>e. case e of Some err \<Rightarrow> Ret (Inl (ErrNsec err)) | None \<Rightarrow> Ret (Inr []))
         else let nsecSet = extractRRSet (m_Ns resp) nsname [TypeNSEC]
              in if nsecSet \<noteq> []
                 then go_bind (verifyNSEC q nsecSet) (\<lambda>b. if \<not> b then Panic nil_err else Ret (Inr []))
                 else Ret (Inr ds))"

definition validate_delegation ::
  "renv \<Rightarrow> resolver_ops \<Rightarrow> string \<Rightarrow> msg \<Rightarrow> question \<Rightarrow> question \<Rightarrow> msg \<Rightarrow> rr list \<Rightarrow> (rerr + rr list) rm" where
  "validate_delegation E R Net req qreq q resp parentdsrr =
     (if m_CheckingDisabled req then rret (Inr parentdsrr)
      else case first_signer (m_Ns resp) of (signer, signerFound) \<Rightarrow>
        rbind (ds_select E R Net signer (q_Name q) (q_Qtype qreq \<noteq> TypeDS) parentdsrr)
          (\<lambda>d. case d of
             Inl err \<Rightarrow> rret (Inl err)
           | Inr ds \<Rightarrow>
               if \<not> signerFound \<and> ds \<noteq> [] then rret (Inl errDSRecords)
               else if ds \<noteq> []
               then rbind (op_verifyDNSSEC R Net signer resp ds)
                      (\<lambda>v. case v of Inl err \<Rightarrow> rret (Inl err) | Inr _ \<Rightarrow> rgo (delegation_ds E (q_Name q) q resp))
               else rret (Inr ds)))"

text \<open>An authority section without name servers.\<close>

definition resolve_nodata :: "renv \<Rightarrow> question \<Rightarrow> msg \<Rightarrow> (rerr + msg) rm" where
  "resolve_nodata E q resp =
     (let nsec3Set = extractRRSet (m_Ns resp) [] [TypeNSEC3]
      in if q_Qtype q = TypeDS \<and> nsec3Set \<noteq> []
         then case m_Question resp of
                [] \<Rightarrow> rpanic ''index out of range''
              | q0 # _ \<Rightarrow>
                  rbind (rgo (verifyNODATA (ev_hash E) q0 nsec3Set))
                    (\<lambda>e. case e of Some err \<Rightarrow> rret (Inl (ErrNsec err)) | None \<Rightarrow> rret (Inr resp))
         else rret (Inr resp))"

text \<open>The servers of the delegation are cached and asked, one level deeper.\<close>

definition descend ::
  "renv \<Rightarrow> resolver_ops \<Rightarrow> string \<Rightarrow> msg \<Rightarrow> string list \<Rightarrow> u64 \<Rightarrow> rr list \<Rightarrow> u32 \<Rightarrow> int \<Rightarrow> int \<Rightarrow> bool \<Rightarrow>
     ((rerr + msg) \<times> msg) rm" where
  "descend E R Net req nservers key ds ttl depth nlevel nsl =
     rbind (alloc_servers nservers)
       (\<lambda>a. rbind (Ncache_Set E key ds ttl a)
          (\<lambda>_. if depth \<le> 0 then rret (Inl errMaxDepth, req)
               else op_Resolve R Net req a False (depth - 1) nlevel nsl ds False))"

definition resolve_authority ::
  "renv \<Rightarrow> resolver_ops \<Rightarrow> string \<Rightarrow> msg \<Rightarrow> question \<Rightarrow> server_ref \<Rightarrow> int \<Rightarrow> int \<Rightarrow> bool \<Rightarrow> msg \<Rightarrow> rr list \<Rightarrow>
     ((rerr + msg) \<times> msg) rm" where
  "resolve_authority E R Net req qreq servers depth level nsl resp parentdsrr =
     (case collect_ns (m_Ns resp) (None, []) of
        (None, _) \<Rightarrow> rbind (resolve_nodata E qreq resp) (\<lambda>r. rret (r, req))
      | (Some nsrr, nsmap) \<Rightarrow>
          let nlevel = int (length (SplitDomainName (rh_Name nsrr)))
          in if level > nlevel then rret (Inl errParentDetection, req)
             else if rh_Name nsrr = rootzone then rret (Inl errRootServersDetection, req)
             else let q = \<lparr>q_Name = rh_Name nsrr, q_Qtype = rh_Rrtype nsrr, q_Qclass = rh_Class nsrr\<rparr>;
                      cd = m_CheckingDisabled req; key = Hash q [cd]
                  in rbind (Ncache_Get E key)
          (\<lambda>c. case c of
             Inr ns \<Rightarrow>
               rbind (rget (\<lambda>s. equalServers (rs_heap s ! ns_Servers ns) (rs_heap s ! servers)))
                 (\<lambda>eq. if eq then rret (Inl errLoopDetection, req)
                       else if depth \<le> 0 then rret (Inl errMaxDepth, req)
                       else op_Resolve R Net req (ns_Servers ns) False (depth - 1) nlevel nsl (ns_DSRR ns) False)
           | Inl _ \<Rightarrow>
               (case glue nsl (q_Name qreq) (m_Extra resp) nsmap of
                  Inl a \<Rightarrow> rret (Inr (resp\<lparr>m_Answer := m_Answer resp @ [a]\<rparr>), req)
                | Inr nsmap' \<Rightarrow>
                    rbind (find_servers E R Net depth cd key (rh_Ttl nsrr) nsmap')
                      (\<lambda>nservers.
                         if nservers = [] then rret (Inl (ErrText ''nameservers are not reachable''), req)
                         else rbind (validate_delegation E R Net req qreq q resp parentdsrr)
                           (\<lambda>d. case d of
                              Inl err \<Rightarrow> rret (Inl err, req)
                            | Inr ds \<Rightarrow>
                                descend E R Net req nservers key ds (rh_Ttl nsrr) depth nlevel nsl)))))"

section \<open>Resolve\<close>

definition resolve_empty :: "msg \<Rightarrow> msg" where
  "resolve_empty req =
     (SetRcode msg_zero req RcodeSuccess)\<lparr>m_RecursionAvailable := True, m_Extra := m_Extra req\<rparr>"

definition Resolve ::
  "renv \<Rightarrow> resolver_ops \<Rightarrow> string \<Rightarrow> msg \<Rightarrow> server_ref \<Rightarrow> bool \<Rightarrow> int \<Rightarrow> int \<Rightarrow> bool \<Rightarrow> rr list \<Rightarrow> bool \<Rightarrow>
     ((rerr + msg) \<times> msg) rm" where
  "Resolve E R Net req0 servers0 root depth level nsl parentdsrr0 extra =
     (case m_Question req0 of
        [] \<Rightarrow> rpanic ''index out of range''
      | q # _ \<Rightarrow>
          rbind (if root \<and> q_Qtype q \<noteq> TypeDS
                 then searchCache E (Suc (length (q_Name q))) q (m_CheckingDisabled req0)
                 else rret (servers0, parentdsrr0))
            (\<lambda>(servers, parentdsrr).
               rbind (lookup E Net req0 servers)
                 (\<lambda>(r, req). case r of
                    Inl err \<Rightarrow> rret (Inl err, req)
                  | Inr resp0 \<Rightarrow>
                      let resp = resp0\<lparr>m_RecursionAvailable := True, m_Authoritative := False\<rparr>
                      in if m_Truncated resp then rret (Inr resp, req)
                         else if m_Rcode resp \<noteq> RcodeSuccess \<and> m_Answer resp = []
                         then rbind (resolve_negative E q resp parentdsrr) (\<lambda>_. rret (Inr resp, req))
                         else let resp1 = (if m_Rcode resp \<noteq> RcodeSuccess then resp\<lparr>m_Rcode := RcodeSuccess\<rparr> else resp)
                              in if m_Answer resp1 \<noteq> []
                                 then rbind (resolve_answer E R Net req q resp1 parentdsrr extra) (\<lambda>a. rret (a, req))
                                 else if m_Ns resp1 \<noteq> []
                                 then resolve_authority E R Net req q servers depth level nsl resp1 parentdsrr
                                 else rret (Inr (resolve_empty req), req))))"

section \<open>DS records and server addresses\<close>

definition lookupDS :: "renv \<Rightarrow> resolver_ops \<Rightarrow> string \<Rightarrow> string \<Rightarrow> int \<Rightarrow> (rerr + msg) rm" where
  "lookupDS E R Net qname depth =
     rbind (new_query E qname TypeDS)
       (\<lambda>dsReq. let key = Hash (hd (m_Question dsReq)) []
        in rbind (Qcache_Get E key dsReq)
          (\<lambda>c. case c of
             Inr (dsres, _) \<Rightarrow> rret (Inr dsres)
           | Inl _ \<Rightarrow>
               rbind (Ecache_Get E key)
                 (\<lambda>e. if e = None then rret (Inl (ErrText ''ds records error occurred (cached)''))
                      else if depth \<le> 0 then rret (Inl (ErrText ''ds records max depth reach''))
                      else rbind (op_Resolve R Net dsReq rootservers True (depth - 1) 0 True [] False)
                        (\<lambda>(r, _). case r of
                           Inl err \<Rightarrow> rbind (Ecache_Set E key) (\<lambda>_. rret (Inl err))
                         | Inr dsres \<Rightarrow>
                             if m_Truncated dsres \<and> m_Rcode dsres = RcodeSuccess
                             then op_lookupDS R ''tcp'' qname (depth - 1 + 1)
                             else if m_Answer dsres = [] \<and> m_Ns dsres = []
                             then rret (Inl (ErrText ''no answer found''))
                             else rbind (Qcache_Set E key dsres) (\<lambda>_. rret (Inr dsres))))))"

text \<open>The errors of \<^verbatim>\<open>lookupNSAddr\<close>; where the source appends the text of the cause, \<open>(error)\<close> stands for it.\<close>

definition nsaddr_failed :: "string \<Rightarrow> string \<Rightarrow> rerr" where
  "nsaddr_failed ns why = ErrText (''nameserver address lookup failed for '' @ ns @ why)"

text \<open>The fallback servers are asked when there are any.\<close>

definition try_fallback :: "renv \<Rightarrow> string \<Rightarrow> msg \<Rightarrow> rerr + msg \<Rightarrow> ((rerr + msg) \<times> msg) rm" where
  "try_fallback E Net nsReq r =
     rbind (rget (\<lambda>s. as_List (rs_heap s ! fallbackservers)))
       (\<lambda>fallback. if fallback \<noteq> [] then lookup E Net nsReq fallbackservers else rret (r, nsReq))"

text \<open>The end of \<^verbatim>\<open>lookupNSAddr\<close>, on a response that is not truncated.\<close>

definition nsaddr_answer :: "renv \<Rightarrow> string \<Rightarrow> msg \<Rightarrow> string \<Rightarrow> u64 \<Rightarrow> msg \<Rightarrow> (rerr + string) rm" where
  "nsaddr_answer E Net nsReq ns key nsres =
     rbind (if m_Answer nsres = [] \<and> m_Ns nsres = [] then try_fallback E Net nsReq (Inr nsres)
            else rret (Inr nsres, nsReq))
       (\<lambda>(r, _). case r of
          Inl err \<Rightarrow> rbind (Ecache_Set E key) (\<lambda>_. rret (Inl (nsaddr_failed ns '' (error)'')))
        | Inr res \<Rightarrow>
            (case searchAddr res of
               Some a \<Rightarrow> rbind (Qcache_Set E key res) (\<lambda>_. rret (Inr (ip_String a)))
             | None \<Rightarrow> rbind (Ecache_Set E key) (\<lambda>_. rret (Inl (nsaddr_failed ns '' (no answer)'')))))"

text \<open>What \<^verbatim>\<open>lookupNSAddr\<close> does between \<^verbatim>\<open>Lqueue.Add\<close> and the deferred \<^verbatim>\<open>Lqueue.Done\<close>.\<close>

definition nsaddr_resolve ::
  "renv \<Rightarrow> resolver_ops \<Rightarrow> string \<Rightarrow> msg \<Rightarrow> string \<Rightarrow> u64 \<Rightarrow> int \<Rightarrow> bool \<Rightarrow> (rerr + string) rm" where
  "nsaddr_resolve E R Net nsReq0 ns key depth cd =
     (if depth \<le> 0 then rret (Inl (nsaddr_failed ns '' (max depth)''))
      else rbind (op_Resolve R Net nsReq0 rootservers True (depth - 1) 0 True [] False)
        (\<lambda>(r, nsReq).
           rbind (case r of Inr nsres \<Rightarrow> rret (r, nsReq) | Inl err \<Rightarrow> try_fallback E Net nsReq r)
             (\<lambda>(r2, nsReq2). case r2 of
                Inl err \<Rightarrow> rbind (Ecache_Set E key) (\<lambda>_. rret (Inl (nsaddr_failed ns '' (error)'')))
              | Inr nsres \<Rightarrow>
                  if m_Truncated nsres \<and> m_Rcode nsres = RcodeSuccess
                  then rbind (Lqueue_Done key) (\<lambda>_. op_lookupNSAddr R ''tcp'' ns (depth - 1 + 1) cd)
                  else nsaddr_answer E Net nsReq2 ns key nsres)))"

definition lookupNSAddr :: "renv \<Rightarrow> resolver_ops \<Rightarrow> string \<Rightarrow> string \<Rightarrow> int \<Rightarrow> bool \<Rightarrow> (rerr + string) rm" where
  "lookupNSAddr E R Net ns depth cd =
     rbind (new_query E ns TypeA)
       (\<lambda>nsReq0. let nsReq = nsReq0\<lparr>m_CheckingDisabled := cd\<rparr>; key = Hash (hd (m_Question nsReq)) [cd]
        in rbind (rget (\<lambda>s. LQueue_Get key (rs_Lqueue s)))
          (\<lambda>c. if c \<noteq> None then rret (Inl (nsaddr_failed ns '' (like loop?)''))
               else rbind (Qcache_Get E key nsReq)
                 (\<lambda>qc. case (case qc of Inr (nsres, _) \<Rightarrow> searchAddr nsres | Inl _ \<Rightarrow> None) of
                    Some a \<Rightarrow> rret (Inr (ip_String a))
                  | None \<Rightarrow>
                      rbind (Ecache_Get E key)
                        (\<lambda>e. if e = None then rret (Inl (nsaddr_failed ns '' (cached)''))
                             else rbind (Lqueue_Add key)
                               (\<lambda>_. rbind (nsaddr_resolve E R Net nsReq ns key depth cd)
                                      (\<lambda>r. rbind (Lqueue_Done key) (\<lambda>_. rret r)))))))"

section \<open>Validation\<close>

definition check_with_keys :: "renv \<Rightarrow> u64 \<Rightarrow> msg \<Rightarrow> msg \<Rightarrow> rr list \<Rightarrow> (rerr + bool) rm" where
  "check_with_keys E cacheKey m resp parentdsRR =
     rbind (rgo (collect_keys (ev_crypto E) (m_Answer m) []))
       (\<lambda>keys.
          if keys = [] then rret (Inl (ErrDnssec errNoDNSKEY))
          else if parentdsRR = [] then rret (Inl (ErrText ''DS RR set empty''))
          else rbind (rgo (verifyDS (ev_crypto E) keys parentdsRR))
            (\<lambda>e. case e of
               Some err \<Rightarrow> rret (Inl (ErrDnssec err))
             | None \<Rightarrow>
                 rbind (rnow E)
                   (\<lambda>now. rbind (rgo (verifyRRSIG (ev_crypto E) now keys resp))
                      (\<lambda>v. case v of
                         Inl err \<Rightarrow> rret (Inl (ErrDnssec err))
                       | Inr ok \<Rightarrow> rbind (Qcache_Set E cacheKey m) (\<lambda>_. rret (Inr ok))))))"

text \<open>The key message for a response that is not itself a DNSKEY response.\<close>

definition fetch_keys :: "renv \<Rightarrow> resolver_ops \<Rightarrow> string \<Rightarrow> msg \<Rightarrow> (rerr + msg) rm" where
  "fetch_keys E R Net keyReq =
     rbind (op_Resolve R Net keyReq rootservers True (ev_Maxdepth E) 0 False [] False)
       (\<lambda>(r, keyReq1). case r of
          Inl err \<Rightarrow> rret (Inl err)
        | Inr m \<Rightarrow>
            if m_Truncated m
            then rbind (op_Resolve R ''tcp'' keyReq1 rootservers True (ev_Maxdepth E) 0 False [] False)
                   (\<lambda>(r2, _). rret r2)
            else rret (Inr m))"

definition verifyDNSSEC :: "renv \<Rightarrow> resolver_ops \<Rightarrow> string \<Rightarrow> string \<Rightarrow> msg \<Rightarrow> rr list \<Rightarrow> (rerr + bool) rm" where
  "verifyDNSSEC E R Net signer resp parentdsRR =
     rbind (new_query E signer TypeDNSKEY)
       (\<lambda>keyReq. let cacheKey = Hash (hd (m_Question keyReq)) []
        in rbind (Qcache_Get E cacheKey keyReq)
          (\<lambda>c. case m_Question resp of
             [] \<Rightarrow> rpanic ''index out of range''
           | q # _ \<Rightarrow>
               if q_Qtype q = TypeDNSKEY
               then if q_Name q = rootzone
                    then rbind (rnow E)
                           (\<lambda>now. rbind (rgo (verifyRootKeys (ev_crypto E) now (ev_rootkeys E) resp))
                              (\<lambda>ok. if \<not> ok then rret (Inl (ErrText ''root zone keys not verified''))
                                    else rbind (Qcache_Set E cacheKey resp) (\<lambda>_. rret (Inr True))))
                    else check_with_keys E cacheKey resp resp parentdsRR
               else (case c of
                       Inr (m, _) \<Rightarrow> check_with_keys E cacheKey m resp parentdsRR
                     | Inl _ \<Rightarrow>
                         rbind (fetch_keys E R Net keyReq)
                           (\<lambda>r. case r of
                              Inl err \<Rightarrow> rret (Inl err)
                            | Inr m \<Rightarrow> check_with_keys E cacheKey m resp parentdsRR))))"

section \<open>The resolver\<close>

primrec resolver :: "renv \<Rightarrow> nat \<Rightarrow> resolver_ops" where
  "resolver E 0 =
     \<lparr>op_Resolve = (\<lambda>Net req servers root depth level nsl parentdsrr extra. rstuck),
      op_lookupDS = (\<lambda>Net qname depth. rstuck),
      op_lookupNSAddr = (\<lambda>Net ns depth cd. rstuck),
      op_verifyDNSSEC = (\<lambda>Net signer resp parentdsRR. rstuck)\<rparr>"
| "resolver E (Suc n) =
     \<lparr>op_Resolve = Resolve E (resolver E n),
      op_lookupDS = lookupDS E (resolver E n),
      op_lookupNSAddr = lookupNSAddr E (resolver E n),
      op_verifyDNSSEC = verifyDNSSEC E (resolver E n)\<rparr>"

section \<open>Priming\<close>

fun priming_hosts :: "rr list \<Rightarrow> string list \<times> string list" where
  "priming_hosts [] = ([], [])"
| "priming_hosts (r # rs) =
     (case priming_hosts rs of (v4, v6) \<Rightarrow>
        (case Rdata r of
           A_rd a \<Rightarrow> if rr_type r = TypeA then (JoinHostPort (ip_String a) ''53'' # v4, v6) else (v4, v6)
         | AAAA_rd a \<Rightarrow> if rr_type r = TypeAAAA then (v4, JoinHostPort (ip_String a) ''53'' # v6) else (v4, v6)
         | _ \<Rightarrow> (v4, v6)))"

definition set_hosts :: "server_ref \<Rightarrow> string list \<Rightarrow> unit rm" where
  "set_hosts a hosts =
     (\<lambda>s. Done () (if hosts = [] then s
        else s\<lparr>rs_heap := (rs_heap s)[a := (rs_heap s ! a)\<lparr>as_List := map NewAuthServer hosts\<rparr>]\<rparr>))"

definition checkPriming :: "renv \<Rightarrow> resolver_ops \<Rightarrow> rerr option rm" where
  "checkPriming E R =
     rbind (new_query E rootzone TypeNS)
       (\<lambda>req. rbind (op_Resolve R ''udp'' req rootservers True 5 0 False [] True)
          (\<lambda>(r, req1).
             rbind (case r of
                      Inl err \<Rightarrow> rret (Inl err)
                    | Inr resp \<Rightarrow>
                        if m_Truncated resp
                        then rbind (op_Resolve R ''tcp'' req1 rootservers True 5 0 False [] True) (\<lambda>(r2, _). rret r2)
                        else rret (Inr resp))
               (\<lambda>r2. case r2 of
                  Inl err \<Rightarrow> rret (Some err)
                | Inr resp \<Rightarrow>
                    (case priming_hosts (m_Extra resp) of (v4, v6) \<Rightarrow>
                       rbind (set_hosts rootservers v4)
                         (\<lambda>_. rbind (set_hosts root6servers v6)
                            (\<lambda>_. rret (if v4 = [] \<and> v6 = [] then Some (ErrText ''no records found'') else None)))))))"

text \<open>\<^verbatim>\<open>NewResolver\<close>: empty caches and the configured servers, before the first priming.\<close>

definition new_state :: "int \<Rightarrow> int \<Rightarrow> u32 \<Rightarrow> string list \<Rightarrow> string list \<Rightarrow> string list \<Rightarrow> rstate" where
  "new_state cachesize ratelimit expire roots roots6 fallback =
     \<lparr>rs_tick = 0, rs_heap = [new_AuthServers roots, new_AuthServers roots6, new_AuthServers fallback],
      rs_Lqueue = NewLookupQueue, rs_Qcache = NewQueryCache cachesize ratelimit, rs_Ncache = NewNSCache,
      rs_Ecache = NewErrorCache cachesize expire, rs_sent = []\<rparr>"

definition NewResolver :: "renv \<Rightarrow> nat \<Rightarrow> int \<Rightarrow> int \<Rightarrow> u32 \<Rightarrow> string list \<Rightarrow> string list \<Rightarrow> string list \<Rightarrow>
    (rerr option, rstate) outcome" where
  "NewResolver E fuel cachesize ratelimit expire roots roots6 fallback =
     checkPriming E (resolver E fuel) (new_state cachesize ratelimit expire roots roots6 fallback)"

end
