(* ===== verification/Resolver_Inv.thy ===== *)
theory Resolver_Inv
  imports Resolver
begin

text \<open>
  The invariant of the resolver and what its operations promise under it. \<open>rinv N\<close> says that the
  caches are within their size, hold only well-formed answers with at least one answer or
  authority record, that the name-server cache refers to server lists that exist and are not
  empty and holds proper DS records, and that the lookup queue is consistent.

  \<open>vld\<close> is a Hoare triple over it: from a state with the invariant and the precondition the
  operation ends in a state with the invariant and the postcondition, or panics for a reason in
  \<open>crash_ok\<close>, or runs out of fuel. The locale \<open>resolver_contract\<close> states the triples of the four
  mutually recursive operations; inside it every body is shown to meet its own triple, and the
  interpretation at the end is the induction over the fuel.
\<close>

section \<open>The invariant\<close>

definition crash_ok :: "string \<Rightarrow> bool" where
  "crash_ok w \<longleftrightarrow> w \<in> {''index out of range'', nil_err, ''root zone keys empty'', ''root zone DS not verified'', ''root zone keys not verified''}"

definition ds_ok :: "rr list \<Rightarrow> bool" where
  "ds_ok ds \<longleftrightarrow> (\<forall>r \<in> set ds. \<exists>h d. r = RR h (DS_rd d))"

definition item_ok :: "item \<Rightarrow> bool" where
  "item_ok it \<longleftrightarrow> list_all rr_wf (it_Answer it) \<and> list_all rr_wf (it_Ns it) \<and> list_all extra_wf (it_Extra it) \<and>
     (it_Answer it \<noteq> [] \<or> it_Ns it \<noteq> [])"

definition ref_ok :: "server_ref \<Rightarrow> rstate \<Rightarrow> bool" where
  "ref_ok a s \<longleftrightarrow> a < length (rs_heap s) \<and> a \<noteq> root6servers \<and> a \<noteq> fallbackservers"

definition heap_ok :: "rstate \<Rightarrow> bool" where
  "heap_ok s \<longleftrightarrow> 3 \<le> length (rs_heap s) \<and> (\<forall>a. ref_ok a s \<longrightarrow> as_List (rs_heap s ! a) \<noteq> [])"

definition ncache_ok :: "rstate \<Rightarrow> bool" where
  "ncache_ok s \<longleftrightarrow> (\<forall>k ns. gmap_get (nc_m (rs_Ncache s)) k = Some ns \<longrightarrow> ref_ok (ns_Servers ns) s \<and> ds_ok (ns_DSRR ns))"

definition rinv :: "int \<Rightarrow> rstate \<Rightarrow> bool" where
  "rinv N s \<longleftrightarrow> query_cache_inv N (rs_Qcache s) \<and> qc_items item_ok (rs_Qcache s) \<and>
     error_cache_inv N (rs_Ecache s) \<and> lqueue_inv (rs_Lqueue s) \<and> heap_ok s \<and> ncache_ok s"

text \<open>What the environment has to provide: replies are well formed and carry the identifier of the request
  unless they are truncated (the client library compares identifiers only when a reply unpacks without an error, and a
  truncated one does not), and the configured root keys can be turned into DS records. Nothing is said about the
  questions of a reply. The theory \<open>Wire_Facts\<close> derives the part on replies from the client library.\<close>

definition ans_ok :: "u16 \<Rightarrow> msg \<Rightarrow> bool" where
  "ans_ok i m \<longleftrightarrow> msg_wf m \<and> (m_Truncated m \<or> m_Id m = i)"

definition env_ok :: "renv \<Rightarrow> bool" where
  "env_ok E \<longleftrightarrow>
     (\<forall>t net host req resp rtt. ev_exchange E t net host req = (Inr resp, rtt) \<longrightarrow>
        ans_ok (m_Id req) resp) \<and>
     (\<exists>h k. RR h (DNSKEY_rd k) \<in> set (ev_rootkeys E)) \<and>
     (\<forall>h k. RR h (DNSKEY_rd k) \<in> set (ev_rootkeys E) \<longrightarrow> ToDS (ev_crypto E) (h, k) 5 \<noteq> None)"

definition req_ok :: "msg \<Rightarrow> bool" where
  "req_ok m \<longleftrightarrow> msg_wf m \<and> m_Question m \<noteq> []"

text \<open>A result for a request with the given identifier.\<close>

fun res_ok :: "u16 \<Rightarrow> rerr + msg \<Rightarrow> bool" where
  "res_ok i (Inl e) = True"
| "res_ok i (Inr m) = ans_ok i m"

fun ds_res_ok :: "rerr + rr list \<Rightarrow> bool" where
  "ds_res_ok (Inl e) = True"
| "ds_res_ok (Inr ds) = ds_ok ds"

section \<open>Triples\<close>

definition vld :: "int \<Rightarrow> (rstate \<Rightarrow> bool) \<Rightarrow> 'a rm \<Rightarrow> ('a \<Rightarrow> rstate \<Rightarrow> bool) \<Rightarrow> bool" where
  "vld N P m Q \<longleftrightarrow>
     (\<forall>s. rinv N s \<longrightarrow> P s \<longrightarrow>
        (case m s of
           Done x s' \<Rightarrow> rinv N s' \<and> length (rs_heap s) \<le> length (rs_heap s') \<and> Q x s'
         | Crash w \<Rightarrow> crash_ok w
         | Stuck \<Rightarrow> True))"

abbreviation vldt :: "int \<Rightarrow> 'a rm \<Rightarrow> ('a \<Rightarrow> bool) \<Rightarrow> bool" where
  "vldt N m Q \<equiv> vld N (\<lambda>_. True) m (\<lambda>x _. Q x)"

lemma vld_rret [intro]: "(\<And>s. rinv N s \<Longrightarrow> P s \<Longrightarrow> Q x s) \<Longrightarrow> vld N P (rret x) Q"
  by (simp add: vld_def rret_def)

lemma vld_rret_iff [simp]: "vld N P (rret x) Q \<longleftrightarrow> (\<forall>s. rinv N s \<longrightarrow> P s \<longrightarrow> Q x s)"
  by (auto simp: vld_def rret_def)

lemma vld_rpanic: "crash_ok w \<Longrightarrow> vld N P (rpanic w) Q"
  by (simp add: vld_def rpanic_def)

lemma vld_rstuck [simp]: "vld N P rstuck Q"
  by (simp add: vld_def rstuck_def)

lemma vld_rget: "(\<And>s. rinv N s \<Longrightarrow> P s \<Longrightarrow> Q (f s) s) \<Longrightarrow> vld N P (rget f) Q"
  by (simp add: vld_def rget_def)

lemma vld_rbind:
  assumes "vld N P m Q" and "\<And>x. vld N (Q x) (f x) S"
  shows "vld N P (rbind m f) S"
  unfolding vld_def
proof (intro allI impI)
  fix s
  assume s: "rinv N s" "P s"
  show "case rbind m f s of
      Done x s' \<Rightarrow> rinv N s' \<and> length (rs_heap s) \<le> length (rs_heap s') \<and> S x s'
    | Crash w \<Rightarrow> crash_ok w | Stuck \<Rightarrow> True"
  proof (cases "m s")
    case (Done x s1)
    with assms(1) s have s1: "rinv N s1" "length (rs_heap s) \<le> length (rs_heap s1)" "Q x s1"
      by (auto simp: vld_def)
    with assms(2) [of x] have "case f x s1 of
        Done y s' \<Rightarrow> rinv N s' \<and> length (rs_heap s1) \<le> length (rs_heap s') \<and> S y s'
      | Crash w \<Rightarrow> crash_ok w | Stuck \<Rightarrow> True" by (simp add: vld_def)
    with Done s1(2) show ?thesis by (auto simp: rbind_def split: outcome.splits)
  next
    case (Crash w)
    with assms(1) s have "crash_ok w" by (auto simp: vld_def)
    with Crash show ?thesis by (simp add: rbind_def)
  next
    case Stuck
    then show ?thesis by (simp add: rbind_def)
  qed
qed

lemma vld_conseq:
  assumes "vld N P' m Q'" and "\<And>s. rinv N s \<Longrightarrow> P s \<Longrightarrow> P' s" and "\<And>x s. rinv N s \<Longrightarrow> Q' x s \<Longrightarrow> Q x s"
  shows "vld N P m Q"
  using assms by (fastforce simp: vld_def split: outcome.splits)

lemma vldt_weaken: "vldt N m Q' \<Longrightarrow> (\<And>x. Q' x \<Longrightarrow> Q x) \<Longrightarrow> vldt N m Q"
  by (erule vld_conseq) auto

text \<open>A server list that exists goes on existing.\<close>

lemma vld_frame:
  assumes "vld N P m Q"
  shows "vld N (\<lambda>s. P s \<and> ref_ok a s) m (\<lambda>x s. Q x s \<and> ref_ok a s)"
  using assms by (fastforce simp: vld_def ref_ok_def split: outcome.splits)

lemma vld_pre_imp: "(A \<Longrightarrow> vld N P m Q) \<Longrightarrow> vld N (\<lambda>s. P s \<and> A) m Q"
  by (auto simp: vld_def)

lemma vld_pure: "(A \<Longrightarrow> vld N P m Q) \<Longrightarrow> (\<And>s. P s \<Longrightarrow> A) \<Longrightarrow> vld N P m Q"
  by (auto simp: vld_def)

lemma vldt_bind:
  assumes "vldt N m Q" and "\<And>x. Q x \<Longrightarrow> vldt N (f x) S"
  shows "vldt N (rbind m f) S"
proof (rule vld_rbind [OF assms(1)])
  fix x
  show "vld N (\<lambda>s. Q x) (f x) (\<lambda>x _. S x)"
    by (rule vld_pure [of "Q x"]) (use assms(2) in \<open>auto elim: vld_conseq\<close>)
qed

lemma vldt_ret [intro]: "Q x \<Longrightarrow> vldt N (rret x) Q"
  by auto

lemma vldt_rgo: "g = Ret x \<Longrightarrow> Q x \<Longrightarrow> vldt N (rgo g) Q"
  by (simp add: rgo_def vldt_ret)

lemma vldt_rgo_eq: "g = Ret x \<Longrightarrow> vldt N (rgo g) (\<lambda>y. y = x)"
  by (simp add: rgo_def)

lemma vldt_rgo_cases: "(case g of Ret x \<Rightarrow> Q x | Panic w \<Rightarrow> crash_ok w) \<Longrightarrow> vldt N (rgo g) Q"
  by (cases g) (auto simp: rgo_def intro: vld_rpanic)

text \<open>Rules for the branches of a body, for use with \<open>intro\<close>.\<close>

named_theorems vld_rules

lemma vldt_if: "(b \<Longrightarrow> vldt N m Q) \<Longrightarrow> (\<not> b \<Longrightarrow> vldt N m' Q) \<Longrightarrow> vldt N (if b then m else m') Q"
  by simp

lemma vldt_sum: "(\<And>x. c = Inl x \<Longrightarrow> vldt N (f x) Q) \<Longrightarrow> (\<And>y. c = Inr y \<Longrightarrow> vldt N (g y) Q) \<Longrightarrow>
  vldt N (case c of Inl x \<Rightarrow> f x | Inr y \<Rightarrow> g y) Q"
  by (cases c) auto

lemma vldt_option: "(c = None \<Longrightarrow> vldt N m Q) \<Longrightarrow> (\<And>y. c = Some y \<Longrightarrow> vldt N (g y) Q) \<Longrightarrow>
  vldt N (case c of None \<Rightarrow> m | Some y \<Rightarrow> g y) Q"
  by (cases c) auto

lemma vldt_prod: "(\<And>x y. c = (x, y) \<Longrightarrow> vldt N (f x y) Q) \<Longrightarrow> vldt N (case c of (x, y) \<Rightarrow> f x y) Q"
  by (cases c) auto

lemma vldt_list: "(c = [] \<Longrightarrow> vldt N m Q) \<Longrightarrow> (\<And>y ys. c = y # ys \<Longrightarrow> vldt N (g y ys) Q) \<Longrightarrow>
  vldt N (case c of [] \<Rightarrow> m | y # ys \<Rightarrow> g y ys) Q"
  by (cases c) auto

declare vldt_if [vld_rules] vldt_sum [vld_rules] vldt_option [vld_rules] vldt_prod [vld_rules]
  vldt_list [vld_rules] vldt_bind [vld_rules]

section \<open>Clock, random numbers and caches\<close>

lemma rinv_tick [simp]: "rinv N (s\<lparr>rs_tick := t\<rparr>) = rinv N s" "rinv N (s\<lparr>rs_sent := x\<rparr>) = rinv N s"
  by (simp_all add: rinv_def heap_ok_def ncache_ok_def ref_ok_def)

lemma ref_ok_upd [simp]:
  "ref_ok a (s\<lparr>rs_tick := t\<rparr>) = ref_ok a s" "ref_ok a (s\<lparr>rs_Qcache := q\<rparr>) = ref_ok a s"
  "ref_ok a (s\<lparr>rs_Ecache := e\<rparr>) = ref_ok a s" "ref_ok a (s\<lparr>rs_Ncache := n\<rparr>) = ref_ok a s"
  "ref_ok a (s\<lparr>rs_Lqueue := l\<rparr>) = ref_ok a s" "ref_ok a (s\<lparr>rs_sent := x\<rparr>) = ref_ok a s"
  by (simp_all add: ref_ok_def)

lemma heap_ok_upd [simp]:
  "heap_ok (s\<lparr>rs_tick := t\<rparr>) = heap_ok s" "heap_ok (s\<lparr>rs_Qcache := q\<rparr>) = heap_ok s"
  "heap_ok (s\<lparr>rs_Ecache := e\<rparr>) = heap_ok s" "heap_ok (s\<lparr>rs_Ncache := n\<rparr>) = heap_ok s"
  "heap_ok (s\<lparr>rs_Lqueue := l\<rparr>) = heap_ok s"
  by (simp_all add: heap_ok_def)

lemma ncache_ok_upd [simp]:
  "ncache_ok (s\<lparr>rs_Qcache := q\<rparr>) = ncache_ok s" "ncache_ok (s\<lparr>rs_Ecache := e\<rparr>) = ncache_ok s"
  "ncache_ok (s\<lparr>rs_Lqueue := l\<rparr>) = ncache_ok s"
  by (simp_all add: ncache_ok_def)

lemma vld_rnow: "(\<And>t s. P s \<Longrightarrow> P (s\<lparr>rs_tick := t\<rparr>)) \<Longrightarrow> vld N P (rnow E) (\<lambda>_. P)"
  by (simp add: vld_def rnow_def rtick_def rbind_def rret_def)

lemma vld_rrnd: "(\<And>t s. P s \<Longrightarrow> P (s\<lparr>rs_tick := t\<rparr>)) \<Longrightarrow> vld N P (rrnd E) (\<lambda>_. P)"
  by (simp add: vld_def rrnd_def rtick_def rbind_def rret_def)

lemma vldt_rnow [vld_rules]: "vldt N (rnow E) (\<lambda>_. True)" and vldt_rrnd [vld_rules]: "vldt N (rrnd E) (\<lambda>_. True)"
  by (rule vld_rnow vld_rrnd; simp)+

lemma vld_pair:
  assumes "\<And>s r c. rinv N s \<Longrightarrow> f s = (r, c) \<Longrightarrow> rinv N (g c s) \<and> rs_heap (g c s) = rs_heap s \<and> Q r (g c s)"
  shows "vld N (\<lambda>_. True) (\<lambda>s. case f s of (r, c) \<Rightarrow> Done r (g c s)) Q"
  using assms by (simp add: vld_def split: prod.split)

lemma ages_item_ok: "ages item_ok"
  unfolding ages_def item_ok_def
  by (auto dest!: age_section_Some simp: list_all_iff)

lemma vldt_Qcache_Get [vld_rules]:
  "vldt N (Qcache_Get E key req) (\<lambda>r. \<forall>m rl. r = Inr (m, rl) \<longrightarrow> (\<exists>it. item_ok it \<and> m = toMsg it req))"
  unfolding Qcache_Get_def
proof (intro vldt_bind [OF vldt_rnow] vld_pair conjI)
  fix now s r c
  assume s: "rinv N s" and g: "QueryCache_Get now key req (rs_Qcache s) = (r, c)"
  have "query_cache_inv N c" "qc_items item_ok c"
    using s g query_cache_inv_Get [of N "rs_Qcache s" now key req]
      qc_items_Get [of N "rs_Qcache s" item_ok now key req] ages_item_ok by (simp_all add: rinv_def)
  with s show "rinv N (s\<lparr>rs_Qcache := c\<rparr>)" by (simp add: rinv_def)
  show "\<forall>m rl. r = Inr (m, rl) \<longrightarrow> (\<exists>it. item_ok it \<and> m = toMsg it req)"
    using s g QueryCache_Get_item [of item_ok "rs_Qcache s" now key req] ages_item_ok by (simp add: rinv_def)
qed simp

lemma vldt_Qcache_Set [vld_rules]:
  assumes "msg_wf m" and "m_Answer m \<noteq> [] \<or> m_Ns m \<noteq> []"
  shows "vldt N (Qcache_Set E key m) (\<lambda>_. True)"
proof -
  have "item_ok (newItem m)" using assms by (simp add: item_ok_def newItem_def msg_wf_def list_all_iff)
  then have "rinv N s \<Longrightarrow> rinv N (s\<lparr>rs_Qcache := QueryCache_Set r now key m (rs_Qcache s)\<rparr>)" for s r now
    using qc_items_Set [of N "rs_Qcache s" item_ok m] by (simp add: rinv_def query_cache_inv_Set)
  then show ?thesis
    unfolding Qcache_Set_def
    by (intro vldt_bind [OF vldt_rnow] vldt_bind [OF vldt_rrnd]) (simp add: vld_def)
qed

lemma vldt_Ecache_Get [vld_rules]: "vldt N (Ecache_Get E key) (\<lambda>_. True)"
  unfolding Ecache_Get_def
proof (intro vldt_bind [OF vldt_rnow] vld_pair conjI)
  fix now s r c
  assume "rinv N s" and "ErrorCache_Get now key (rs_Ecache s) = (r, c)"
  with error_cache_inv_Get [of N "rs_Ecache s" now key] show "rinv N (s\<lparr>rs_Ecache := c\<rparr>)"
    by (simp add: rinv_def)
qed simp_all

lemma vldt_Ecache_Set [vld_rules]: "vldt N (Ecache_Set E key) (\<lambda>_. True)"
  unfolding Ecache_Set_def
  by (intro vldt_bind [OF vldt_rnow] vldt_bind [OF vldt_rrnd]) (simp add: vld_def rinv_def error_cache_inv_Set)

lemma vldt_Lqueue_Add [vld_rules]: "vldt N (Lqueue_Add key) (\<lambda>_. True)"
  by (simp add: vld_def Lqueue_Add_def rinv_def lqueue_inv_Add)

lemma vldt_Lqueue_Done [vld_rules]: "vldt N (Lqueue_Done key) (\<lambda>_. True)"
proof -
  have "rinv N s \<Longrightarrow> \<exists>q. LQueue_Done key (rs_Lqueue s) = Ret q \<and> lqueue_inv q" for s
    using LQueue_Done_Ret [of "rs_Lqueue s" key] lqueue_inv_Done [of "rs_Lqueue s" key] by (auto simp: rinv_def)
  then show ?thesis
    by (fastforce simp: vld_def Lqueue_Done_def rinv_def)
qed

lemma vld_Ncache_Get:
  "vld N (\<lambda>_. True) (Ncache_Get E key)
     (\<lambda>r s. \<forall>ns. r = Inr ns \<longrightarrow> ref_ok (ns_Servers ns) s \<and> ds_ok (ns_DSRR ns))"
  unfolding Ncache_Get_def
proof (intro vld_rbind [OF vldt_rnow] vld_pair)
  fix now s r c
  assume s: "rinv N s" and g: "NSCache_Get now key (rs_Ncache s) = (r, c)"
  have "ncache_ok s" using s by (simp add: rinv_def)
  with g have "ncache_ok (s\<lparr>rs_Ncache := c\<rparr>) \<and> (\<forall>ns. r = Inr ns \<longrightarrow> ref_ok (ns_Servers ns) s \<and> ds_ok (ns_DSRR ns))"
    by (auto simp: NSCache_Get_probe ncache_ok_def NSCache_Remove_def split: option.splits if_splits
        dest: ns_probe_fields)
  with s show "rinv N (s\<lparr>rs_Ncache := c\<rparr>) \<and> rs_heap (s\<lparr>rs_Ncache := c\<rparr>) = rs_heap s \<and>
      (\<forall>ns. r = Inr ns \<longrightarrow> ref_ok (ns_Servers ns) (s\<lparr>rs_Ncache := c\<rparr>) \<and> ds_ok (ns_DSRR ns))"
    by (simp add: rinv_def)
qed

lemma vld_Ncache_Set:
  assumes "ds_ok ds"
  shows "vld N (ref_ok a) (Ncache_Set E key ds ttl a) (\<lambda>_. ref_ok a)"
  unfolding Ncache_Set_def
proof (rule vld_rbind [OF vld_rnow])
  show "vld N (ref_ok a) (\<lambda>s. Done () (s\<lparr>rs_Ncache := NSCache_Set x key ds ttl a (rs_Ncache s)\<rparr>)) (\<lambda>_. ref_ok a)" for x
    using assms by (auto simp: vld_def rinv_def ncache_ok_def NSCache_Set_def)
qed simp

lemma heap_ok_alloc: "heap_ok s \<Longrightarrow> hosts \<noteq> [] \<Longrightarrow> heap_ok (s\<lparr>rs_heap := rs_heap s @ [new_AuthServers hosts]\<rparr>)"
  by (auto simp: heap_ok_def ref_ok_def nth_append new_AuthServers_def)

lemma vld_alloc_servers:
  "hosts \<noteq> [] \<Longrightarrow> vld N (\<lambda>_. True) (alloc_servers hosts) (\<lambda>a. ref_ok a)"
  using heap_ok_alloc
  by (fastforce simp: vld_def alloc_servers_def rinv_def ncache_ok_def ref_ok_def heap_ok_def)

section \<open>Sending a query\<close>

definition same_shape :: "rstate \<Rightarrow> rstate \<Rightarrow> bool" where
  "same_shape s t \<longleftrightarrow> rs_Qcache t = rs_Qcache s \<and> rs_Ecache t = rs_Ecache s \<and> rs_Ncache t = rs_Ncache s \<and>
     rs_Lqueue t = rs_Lqueue s \<and> map (\<lambda>x. length (as_List x)) (rs_heap t) = map (\<lambda>x. length (as_List x)) (rs_heap s)"

lemma same_shapeD:
  assumes "same_shape s t"
  shows "length (rs_heap t) = length (rs_heap s)"
    and "a < length (rs_heap s) \<Longrightarrow> length (as_List (rs_heap t ! a)) = length (as_List (rs_heap s ! a))"
    and "ref_ok a t = ref_ok a s" and "rinv N t = rinv N s"
proof -
  have m: "map (\<lambda>x. length (as_List x)) (rs_heap t) = map (\<lambda>x. length (as_List x)) (rs_heap s)"
    using assms by (simp add: same_shape_def)
  show len: "length (rs_heap t) = length (rs_heap s)" using m by (metis length_map)
  show nth: "a < length (rs_heap s) \<Longrightarrow> length (as_List (rs_heap t ! a)) = length (as_List (rs_heap s ! a))" for a
    using m len by (metis nth_map)
  show ref: "ref_ok a t = ref_ok a s" for a by (simp add: ref_ok_def len)
  have "heap_ok t = heap_ok s"
    using len nth ref by (auto simp: heap_ok_def ref_ok_def) (metis length_0_conv)+
  then show "rinv N t = rinv N s" using assms ref by (simp add: rinv_def same_shape_def ncache_ok_def)
qed

lemma same_shape_refl [simp]: "same_shape s s"
  by (simp add: same_shape_def)

lemma same_shape_trans: "same_shape s t \<Longrightarrow> same_shape t u \<Longrightarrow> same_shape s u"
  by (simp add: same_shape_def)

lemma same_shape_sent: "same_shape s (s\<lparr>rs_tick := t, rs_sent := x\<rparr>)"
  by (simp add: same_shape_def)

lemma same_shape_update:
  "length (as_List x) = length (as_List (rs_heap s ! a)) \<Longrightarrow> same_shape s (s\<lparr>rs_heap := (rs_heap s)[a := x]\<rparr>)"
  by (cases "a < length (rs_heap s)") (auto simp: same_shape_def map_update list_update_same_conv list_update_beyond)

lemma same_shape_record_rtt: "same_shape s (record_rtt a i rtt s)"
  unfolding record_rtt_def by (rule same_shape_update) simp

lemma clearOPT_req_ok: "req_ok req \<Longrightarrow> req_ok (clearOPT req)"
  by (simp add: req_ok_def) (simp add: clearOPT_def)

lemma env_ok_reply:
  "env_ok E \<Longrightarrow> ev_exchange E t net host req = (Inr resp, rtt) \<Longrightarrow> ans_ok (m_Id req) resp"
  unfolding env_ok_def by blast

text \<open>What a call may do to a request: drop its OPT records.\<close>

definition same_req :: "msg \<Rightarrow> msg \<Rightarrow> bool" where
  "same_req req req' \<longleftrightarrow> req' = req \<or> req' = clearOPT req"

lemma clearOPT_idem [simp]: "clearOPT (clearOPT req) = clearOPT req"
  by (simp add: clearOPT_def)

lemma same_req_refl [simp]: "same_req req req"
  by (simp add: same_req_def)

lemma same_req_clearOPT: "same_req req (clearOPT req)"
  by (simp add: same_req_def)

lemma same_req_trans: "same_req a b \<Longrightarrow> same_req b c \<Longrightarrow> same_req a c"
  by (auto simp: same_req_def)

lemma same_req_Id: "same_req req req' \<Longrightarrow> m_Id req' = m_Id req"
  by (auto simp: same_req_def clearOPT_def)

lemma same_req_ok: "same_req req req' \<Longrightarrow> req_ok req \<Longrightarrow> req_ok req'"
  by (auto simp: same_req_def clearOPT_req_ok)

text \<open>An exchange changes nothing but statistics, the tick and the log of what was sent.\<close>

lemma exchange_ok:
  shows "env_ok E \<Longrightarrow> req_ok req \<Longrightarrow> \<exists>r net' req' s'. exchange E net a i req s = Done (r, net', req') s' \<and>
    res_ok (m_Id req) r \<and> same_req req req' \<and> same_shape s s'"
proof (induction E net a i req s rule: exchange.induct)
  case (1 E net a i req s)
  let ?host = "as_Host (as_List (rs_heap s ! a) ! i)"
  let ?s1 = "s\<lparr>rs_tick := Suc (rs_tick s), rs_sent := rs_sent s @ [(net, ?host, req)]\<rparr>"
  have after: "\<exists>r net' req' s'. after_exchange (record_rtt a i rtt) res = Done (r, net', req') s' \<and>
      res_ok (m_Id req) r \<and> same_req req req' \<and> same_shape s s'"
    if res: "\<exists>r net' req' s'. res = Done (r, net', req') s' \<and> res_ok (m_Id req0) r \<and> same_req req0 req' \<and> same_shape ?s1 s'"
      and req0: "same_req req req0" for res rtt req0
  proof -
    obtain r net' req' s' where r: "res = Done (r, net', req') s'" "res_ok (m_Id req0) r" "same_req req0 req'" "same_shape ?s1 s'"
      using res by blast
    have "same_shape s (record_rtt a i rtt s')"
      by (rule same_shape_trans [OF same_shape_sent same_shape_trans [OF r(4) same_shape_record_rtt]])
    with r same_req_Id [OF req0] same_req_trans [OF req0 r(3)] show ?thesis by simp
  qed
  have sh: "same_shape s (record_rtt a i rtt ?s1)" for rtt
    by (rule same_shape_trans [OF same_shape_sent same_shape_record_rtt])
  obtain x rtt where x: "ev_exchange E (rs_tick s) net ?host req = (x, rtt)" by fastforce
  show ?case
  proof (cases x)
    case (Inl err)
    show ?thesis
    proof (cases "strings_contains err ''no route to host'' \<and> net = ''udp''")
      case True
      with after [OF 1(1) [OF refl refl x [symmetric] Inl True 1(3,4)] same_req_refl] Inl x show ?thesis
        by (subst exchange.simps) (simp add: Let_def)
    next
      case False
      with Inl x sh 1(4) show ?thesis by (subst exchange.simps) (auto simp: Let_def)
    qed
  next
    case (Inr resp)
    have ok: "res_ok (m_Id req) (Inr resp)" using env_ok_reply [OF 1(3)] x Inr by simp
    show ?thesis
    proof (cases "m_Rcode resp = RcodeFormatError \<and> IsEdns0 req \<noteq> None")
      case True
      then obtain opt where opt: "IsEdns0 req = Some opt" and fe: "m_Rcode resp = RcodeFormatError" by auto
      have o: "is_OPT opt"
        using opt 1(4) by (auto simp: IsEdns0_def req_ok_def msg_wf_def list_all_iff is_OPT_type dest!: last_opt_Some)
      from after [OF 1(2) [OF refl refl x [symmetric] Inr fe opt o 1(3) clearOPT_req_ok [OF 1(4)]] same_req_clearOPT] show ?thesis
        using x Inr fe opt o by (subst exchange.simps) (simp add: Let_def)
    next
      case False
      with x Inr ok sh 1(4) show ?thesis by (subst exchange.simps) (auto simp: Let_def split: option.split)
    qed
  qed
qed

lemma vldt_exchange:
  assumes "env_ok E" "req_ok req"
  shows "vldt N (exchange E net a i req) (\<lambda>(r, net', req'). res_ok (m_Id req) r \<and> same_req req req')"
  unfolding vld_def
proof (intro allI impI)
  fix s
  assume "rinv N s"
  then show "case exchange E net a i req s of
      Done x s' \<Rightarrow> rinv N s' \<and> length (rs_heap s) \<le> length (rs_heap s') \<and> (case x of (r, net', req') \<Rightarrow> res_ok (m_Id req) r \<and> same_req req req')
    | Crash w \<Rightarrow> crash_ok w | Stuck \<Rightarrow> True"
    using exchange_ok [OF assms, of net a i s] by (auto simp: same_shapeD)
qed

lemma vldt_lookup_loop:
  assumes "env_ok E"
  shows "req_ok req \<Longrightarrow> i < n \<Longrightarrow> vldt N (lookup_loop E net a n i req) (\<lambda>(r, req'). res_ok (m_Id req) r \<and> same_req req req')"
proof (induction "n - i" arbitrary: i req net)
  case (Suc d)
  show ?case
    unfolding lookup_loop.simps [of E net a n i req] if_not_P [OF Suc.prems(2) [folded not_le]]
  proof (rule vldt_bind [OF vldt_exchange [OF assms Suc.prems(1)]])
    fix x :: "(rerr + msg) \<times> string \<times> msg"
    assume x: "case x of (r, net', req') \<Rightarrow> res_ok (m_Id req) r \<and> same_req req req'"
    obtain r net' req' where x': "x = (r, net', req')" by (cases x)
    have next_server: "vldt N (lookup_loop E net' a n (Suc i) req') (\<lambda>(r, req'). res_ok (m_Id req) r \<and> same_req req req')" if "n - 1 \<noteq> i"
    proof (rule vldt_weaken [OF Suc.hyps(1)])
      show "d = n - Suc i" "Suc i < n" using Suc that by auto
      show "req_ok req'" using x x' same_req_ok Suc.prems(1) by auto
    qed (use x x' same_req_trans same_req_Id [of req req'] in auto)
    show "vldt N (case x of (r, net', req') \<Rightarrow> case r of
        Inl err \<Rightarrow> if n - 1 = i then rret (Inl err, req') else lookup_loop E net' a n (Suc i) req'
      | Inr resp \<Rightarrow> if m_Rcode resp \<noteq> RcodeSuccess \<and> n - 1 \<noteq> i then lookup_loop E net' a n (Suc i) req'
          else rret (Inr resp, req')) (\<lambda>(r, req'). res_ok (m_Id req) r \<and> same_req req req')"
      using x next_server unfolding x' by (auto split: sum.split)
  qed
qed simp

definition servers_ne :: "server_ref \<Rightarrow> rstate \<Rightarrow> bool" where
  "servers_ne a s \<longleftrightarrow> a < length (rs_heap s) \<and> as_List (rs_heap s ! a) \<noteq> []"

lemma ref_ok_ne: "rinv N s \<Longrightarrow> ref_ok a s \<Longrightarrow> servers_ne a s"
  by (auto simp: rinv_def heap_ok_def ref_ok_def servers_ne_def)

lemma ref_ok_root: "rinv N s \<Longrightarrow> ref_ok rootservers s"
  by (auto simp: rinv_def heap_ok_def ref_ok_def)

lemma vld_try_sort: "vld N (servers_ne a) (try_sort E a) (\<lambda>_. servers_ne a)"
  unfolding try_sort_def
proof (rule vld_rbind [OF vld_rrnd])
  show "vld N (servers_ne a) (\<lambda>s. Done () (s\<lparr>rs_heap := (rs_heap s)[a := TrySort r (rs_heap s ! a)]\<rparr>)) (\<lambda>_. servers_ne a)" for r
  proof -
    have sh: "same_shape s (s\<lparr>rs_heap := (rs_heap s)[a := TrySort r (rs_heap s ! a)]\<rparr>)" for s
      by (rule same_shape_update) (simp add: TrySort_List)
    have len: "length (as_List (TrySort r x)) = length (as_List x)" for x by (simp add: TrySort_List)
    show ?thesis
      using same_shapeD(4) [OF sh] len by (auto simp: vld_def servers_ne_def) (metis length_0_conv)
  qed
qed (simp add: servers_ne_def)

lemma vld_lookup:
  assumes "env_ok E" "req_ok req"
  shows "vld N (servers_ne a) (lookup E Net req a) (\<lambda>(r, req') _. res_ok (m_Id req) r \<and> same_req req req')"
  unfolding lookup_def
proof (intro vld_rbind [OF vld_try_sort] vld_rbind)
  show "vld N (servers_ne a) (rget (\<lambda>s. length (as_List (rs_heap s ! a)))) (\<lambda>n _. 0 < n)"
    by (rule vld_rget) (simp add: servers_ne_def)
  show "vld N (\<lambda>_. 0 < n) (lookup_loop E Net a n 0 req) (\<lambda>(r, req') _. res_ok (m_Id req) r \<and> same_req req req')" for n
    by (rule vld_pure [of "0 < n"])
      (use vldt_lookup_loop [OF assms(1) assms(2), of 0 n N Net a] in \<open>auto elim!: vld_conseq\<close>)
qed

lemma vld_searchCache:
  "vld N (\<lambda>_. True) (searchCache E fuel q cd) (\<lambda>(a, ds) s. ref_ok a s \<and> ds_ok ds)"
proof (induction fuel arbitrary: q)
  case (Suc fuel)
  show ?case
    unfolding searchCache.simps Let_def
  proof (rule vld_rbind [OF vld_Ncache_Get])
    fix r
    show "vld N (\<lambda>s. \<forall>ns. r = Inr ns \<longrightarrow> ref_ok (ns_Servers ns) s \<and> ds_ok (ns_DSRR ns))
      (case r of Inl _ \<Rightarrow>
           if q_Name (q\<lparr>q_Qtype := TypeNS, q_Name := upperName (q_Name (q\<lparr>q_Qtype := TypeNS\<rparr>))\<rparr>) = [] then rret (rootservers, [])
           else searchCache E fuel (q\<lparr>q_Qtype := TypeNS, q_Name := upperName (q_Name (q\<lparr>q_Qtype := TypeNS\<rparr>))\<rparr>) cd
       | Inr ns \<Rightarrow> rret (ns_Servers ns, ns_DSRR ns)) (\<lambda>(a, ds) s. ref_ok a s \<and> ds_ok ds)"
    proof (cases r)
      case (Inl e)
      then show ?thesis
        using vld_conseq [OF Suc] ref_ok_root by (auto simp: ds_ok_def)
    qed auto
  qed
qed simp

end
