(* ===== verification/Resolver_Contract.thy ===== *)
theory Resolver_Contract
  imports Resolver_Inv
begin

text \<open>
  The contract of the four mutually recursive operations of the resolver, as a locale, and the
  proof that each body keeps it when the operations it calls do. The interpretation at the end
  gives the contract of \<open>resolver E n\<close> for every amount of fuel, from which follow the
  invariant of every run and the list of panics that a run can end in.
\<close>

section \<open>Records of well-formed messages\<close>

lemma extract_ds_ok: "list_all rr_wf rrs \<Longrightarrow> ds_ok (extractRRSet rrs name [TypeDS])"
proof -
  have "rr_wf r \<Longrightarrow> rr_type r = TypeDS \<Longrightarrow> \<exists>h d. r = RR h (DS_rd d)" for r
    by (cases r; cases "Rdata r") (auto simp: rr_wf_def)
  then show "list_all rr_wf rrs \<Longrightarrow> ds_ok (extractRRSet rrs name [TypeDS])"
    by (auto simp: ds_ok_def list_all_iff extractRRSet_set)
qed

lemma first_ds_name_Ret: "ds_ok ds \<Longrightarrow> ds \<noteq> [] \<Longrightarrow> \<exists>n. first_ds_name ds = Ret n"
  by (cases ds) (auto simp: ds_ok_def)

lemma dsRRFromRootKeys_Ret:
  assumes "env_ok E"
  shows "\<exists>ds. dsRRFromRootKeys (ev_crypto E) (ev_rootkeys E) = Ret ds \<and> ds_ok ds"
proof -
  obtain h k where "RR h (DNSKEY_rd k) \<in> set (ev_rootkeys E)" using assms by (auto simp: env_ok_def)
  then have "root_ds (ev_crypto E) (ev_rootkeys E) \<noteq> []" by (rule root_ds_ne)
  moreover have "ds_ok (root_ds (ev_crypto E) (ev_rootkeys E))"
    unfolding ds_ok_def using root_ds_proper [of "ev_rootkeys E" "ev_crypto E"] assms
    by (auto simp: env_ok_def)
  ultimately show ?thesis by (simp add: dsRRFromRootKeys_def)
qed

lemma verifyDS_Ret: "ds_ok ds \<Longrightarrow> \<exists>e. verifyDS cr keys ds = Ret e"
  using verifyDS_cases [of ds cr keys] by (fastforce simp: ds_ok_def)

lemma verifyRootKeys_cases:
  assumes "env_ok E" "msg_wf m"
  shows "case verifyRootKeys (ev_crypto E) now (ev_rootkeys E) m of Ret ok \<Rightarrow> ok \<and> m_Answer m \<noteq> [] | Panic w \<Rightarrow> crash_ok w"
proof -
  obtain keys where keys: "collect_keys (ev_crypto E) (m_Answer m) [] = Ret keys"
    using collect_keys_Ret assms(2) by (metis msg_wf_def)
  obtain ds where ds: "root_ds (ev_crypto E) (ev_rootkeys E) = ds" "ds \<noteq> []" "ds_ok ds"
    using dsRRFromRootKeys_Ret [OF assms(1)] by (auto simp: dsRRFromRootKeys_def Let_def split: if_splits)
  obtain e where e: "verifyDS (ev_crypto E) keys ds = Ret e" using verifyDS_Ret [OF ds(3)] by blast
  obtain v where v: "verifyRRSIG (ev_crypto E) now keys m = Ret v" using verifyRRSIG_Ret [OF assms(2)] by blast
  have "keys \<noteq> [] \<Longrightarrow> m_Answer m \<noteq> []" using keys by auto
  then show ?thesis
    by (auto simp: verifyRootKeys_def keys ds e v crash_ok_def split: sum.split)
qed

lemma toMsg_wf: "item_ok it \<Longrightarrow> msg_wf (toMsg it req)"
  by (auto simp: toMsg_def item_ok_def msg_wf_def list_all_iff)

lemma new_query_ok [vld_rules]: "vldt N (new_query E name t) (\<lambda>m. req_ok m)"
  unfolding new_query_def
  by (intro vldt_bind [OF vldt_rrnd] vldt_ret)
    (simp add: req_ok_def msg_wf_def SetEdns0_def SetQuestion_def msg_zero_def new_OPT_def rr_wf_def extra_wf_def
      opt_SetDo_def opt_SetUDPSize_def rr_setTtl_def)

lemma IsEdns0_wf: "msg_wf req \<Longrightarrow> IsEdns0 req = Some opt \<Longrightarrow> extra_wf opt"
  by (auto simp: IsEdns0_def msg_wf_def list_all_iff dest!: last_opt_Some)

lemma finish_answer_ok: "req_ok req \<Longrightarrow> msg_wf resp \<Longrightarrow> msg_wf (finish_answer req extra resp)"
  using IsEdns0_wf [of req] by (auto simp: finish_answer_def req_ok_def msg_wf_def Let_def split: option.split)

lemma finish_answer_Id [simp]: "m_Id (finish_answer req extra resp) = m_Id resp"
  by (simp add: finish_answer_def Let_def)

lemma resolve_empty_Id [simp]: "m_Id (resolve_empty req) = m_Id req"
  by (simp add: resolve_empty_def SetRcode_def SetReply_def Let_def split: list.split)

lemma resolve_empty_ok: "req_ok req \<Longrightarrow> req_ok (resolve_empty req)"
  by (cases "m_Question req") (auto simp: resolve_empty_def req_ok_def msg_wf_def SetRcode_def SetReply_def msg_zero_def Let_def)

lemma glue_Inl: "glue nsl qname extras nsmap = Inl a \<Longrightarrow> a \<in> set extras"
  by (induction nsl qname extras nsmap rule: glue.induct) (auto simp: Let_def split: if_splits)

lemma searchAddr_ne: "searchAddr m = Some a \<Longrightarrow> m_Answer m \<noteq> []"
  by (auto simp: searchAddr_def)

section \<open>The contract\<close>

locale resolver_contract =
  fixes N :: int and E :: renv and R :: resolver_ops
  assumes resolve: "env_ok E \<Longrightarrow> req_ok req \<Longrightarrow> ds_ok ds \<Longrightarrow>
      vld N (ref_ok a) (op_Resolve R Net req a root depth level nsl ds extra) (\<lambda>(r, req') _. res_ok (m_Id req) r \<and> same_req req req')"
    and lookup_ds: "env_ok E \<Longrightarrow> vldt N (op_lookupDS R Net name depth) (\<lambda>r. \<forall>m. r = Inr m \<longrightarrow> msg_wf m)"
    and ns_addr: "env_ok E \<Longrightarrow> vldt N (op_lookupNSAddr R Net ns depth cd) (\<lambda>_. True)"
    and validate: "env_ok E \<Longrightarrow> msg_wf resp \<Longrightarrow> ds_ok ds \<Longrightarrow>
      vldt N (op_verifyDNSSEC R Net signer resp ds) (\<lambda>_. True)"
begin

lemma resolve_root:
  "env_ok E \<Longrightarrow> req_ok req \<Longrightarrow>
   vldt N (op_Resolve R Net req rootservers root depth level nsl [] extra) (\<lambda>(r, req'). res_ok (m_Id req) r \<and> same_req req req')"
  by (rule vld_conseq [OF resolve]) (auto simp: ds_ok_def ref_ok_root)

lemma ds_walk_ok:
  assumes "env_ok E"
  shows "ds_ok ds \<Longrightarrow> vldt N (ds_walk E R Net name fuel n ds) ds_res_ok"
proof (induction fuel arbitrary: n ds)
  case (Suc fuel)
  let ?c = "Fqdn (strings_join (drop (length (SplitDomainName name) - n - 1) (SplitDomainName name)) ''.'')"
  have step: "vldt N (rbind (op_lookupDS R Net ?c (ev_Maxdepth E))
      (\<lambda>dsResp. case dsResp of Inl err \<Rightarrow> rret (Inl err)
        | Inr m \<Rightarrow> if extractRRSet (m_Answer m) ?c [TypeDS] = [] then rret (Inr (extractRRSet (m_Answer m) ?c [TypeDS]))
            else ds_walk E R Net name fuel (CompareDomainName ?c name) (extractRRSet (m_Answer m) ?c [TypeDS]))) ds_res_ok"
  proof (rule vldt_bind [OF lookup_ds [OF assms]])
    fix r :: "rerr + msg"
    assume r: "\<forall>m. r = Inr m \<longrightarrow> msg_wf m"
    show "vldt N (case r of Inl err \<Rightarrow> rret (Inl err)
        | Inr m \<Rightarrow> if extractRRSet (m_Answer m) ?c [TypeDS] = [] then rret (Inr (extractRRSet (m_Answer m) ?c [TypeDS]))
            else ds_walk E R Net name fuel (CompareDomainName ?c name) (extractRRSet (m_Answer m) ?c [TypeDS])) ds_res_ok"
      using r Suc.IH extract_ds_ok by (auto simp: ds_ok_def msg_wf_def split: sum.split)
  qed
  show ?case
  proof (cases "n < length (SplitDomainName name)")
    case True
    with step show ?thesis by (simp only: ds_walk.simps Let_def not_not simp_thms if_False)
  qed (use Suc.prems in simp)
qed simp

lemma ds_chain_ok:
  assumes "env_ok E" "ds_ok ds" "ds \<noteq> []"
  shows "vldt N (ds_chain E R Net signer name ds) ds_res_ok"
proof -
  obtain n where "first_ds_name ds = Ret n" using first_ds_name_Ret assms(2,3) by blast
  moreover have "vldt N (rbind (op_lookupDS R Net signer (ev_Maxdepth E))
      (\<lambda>dsResp. case dsResp of Inl err \<Rightarrow> rret (Inl err)
        | Inr m \<Rightarrow> rret (Inr (extractRRSet (m_Answer m) signer [TypeDS])))) ds_res_ok"
    by (rule vldt_bind [OF lookup_ds [OF assms(1)]]) (auto simp: msg_wf_def extract_ds_ok split: sum.split)
  ultimately show ?thesis
    unfolding ds_chain_def
    by (intro vldt_bind [OF vldt_rgo]) (use ds_walk_ok [OF assms(1,2)] assms(2) in \<open>auto simp del: ds_walk.simps\<close>)
qed

lemma ds_select_ok:
  assumes "env_ok E" "ds_ok ds"
  shows "vldt N (ds_select E R Net signer name walk ds) ds_res_ok"
proof -
  obtain rds where "dsRRFromRootKeys (ev_crypto E) (ev_rootkeys E) = Ret rds" "ds_ok rds"
    using dsRRFromRootKeys_Ret [OF assms(1)] by blast
  then have "vldt N (rbind (rgo (dsRRFromRootKeys (ev_crypto E) (ev_rootkeys E))) (\<lambda>ds. rret (Inr ds))) ds_res_ok"
    by (intro vldt_bind [OF vldt_rgo]) auto
  then show ?thesis
    using ds_chain_ok [OF assms] assms(2) by (auto simp: ds_select_def)
qed

lemma resolve_negative_ok:
  assumes "env_ok E" "msg_wf resp"
  shows "vldt N (resolve_negative E q resp ds) (\<lambda>_. True)"
proof -
  obtain rds where rds: "dsRRFromRootKeys (ev_crypto E) (ev_rootkeys E) = Ret rds"
    using dsRRFromRootKeys_Ret [OF assms(1)] by blast
  have "list_all is_NSEC3 (extractRRSet (m_Ns resp) [] [TypeNSEC3])"
    using assms(2) by (intro wf_NSEC3) (simp add: req_ok_def msg_wf_def)
  then obtain e where e: "verifyNameError (ev_hash E) q (extractRRSet (m_Ns resp) [] [TypeNSEC3]) = Ret e"
    using verifyNameError_Ret by blast
  have "vldt N (if upperName (q_Name q) = [] then rgo (dsRRFromRootKeys (ev_crypto E) (ev_rootkeys E)) else rret ds) (\<lambda>_. True)"
    using vldt_rgo [OF rds] by auto
  then show ?thesis
    unfolding resolve_negative_def Let_def e by (auto intro!: vldt_bind simp: rgo_def)
qed

lemma resolve_answer_ok:
  assumes "env_ok E" "req_ok req" "msg_wf resp" "ds_ok ds" "m_Id resp = m_Id req"
  shows "vldt N (resolve_answer E R Net req q resp ds extra) (res_ok (m_Id req))"
proof -
  have ad: "msg_wf (resp\<lparr>m_AuthenticatedData := ok\<rparr>)" for ok
    using assms(3) by (simp add: req_ok_def msg_wf_def)
  have v: "vldt N (rbind (op_verifyDNSSEC R Net signer resp ds')
        (\<lambda>v. case v of Inl err \<Rightarrow> rret (Inl err)
           | Inr ok \<Rightarrow> rret (Inr (finish_answer req extra (resp\<lparr>m_AuthenticatedData := ok\<rparr>))))) (res_ok (m_Id req))" if "ds_ok ds'" for signer ds'
    by (rule vldt_bind [OF validate [OF assms(1,3) that]]) (auto simp: ans_ok_def finish_answer_ok [OF assms(2) ad] assms(5) split: sum.split)
  show ?thesis
    unfolding resolve_answer_def
    using v by (auto simp: ans_ok_def finish_answer_ok assms intro!: vldt_bind [OF ds_select_ok] split: prod.split sum.split)
qed

lemma lookup_servers_ok:
  assumes "env_ok E"
  shows "vldt N (lookup_servers E R Net depth cd ns nservers) (\<lambda>_. True)"
proof (induction ns arbitrary: nservers)
  case (Cons x ns)
  obtain k a where x: "x = (k, a)" by (cases x)
  have "vldt N (rbind (op_lookupNSAddr R Net k depth cd) (\<lambda>r. lookup_servers E R Net depth cd ns (f r))) (\<lambda>_. True)" for f
    by (rule vldt_bind [OF ns_addr [OF assms]]) (rule Cons.IH)
  with Cons.IH x show ?case by auto
qed auto

lemma find_servers_ok:
  assumes "env_ok E"
  shows "vldt N (find_servers E R Net depth cd key ttl nsmap) (\<lambda>_. True)"
proof -
  have "vldt N (rbind (alloc_servers hosts) (\<lambda>a. Ncache_Set E key [] ttl a)) (\<lambda>_. True)" if "hosts \<noteq> []" for hosts
    by (rule vld_rbind [OF vld_alloc_servers [OF that]]) (rule vld_conseq [OF vld_Ncache_Set], auto simp: ds_ok_def)
  then have pre: "vldt N (if hosts \<noteq> [] then rbind (alloc_servers hosts) (\<lambda>a. Ncache_Set E key [] ttl a) else rret ()) (\<lambda>_. True)" for hosts
    by auto
  have "vldt N (rbind (if hosts \<noteq> [] then rbind (alloc_servers hosts) (\<lambda>a. Ncache_Set E key [] ttl a) else rret ())
      (\<lambda>_. rbind (rrnd E) (\<lambda>r2. lookup_servers E R Net depth cd (perm_by r2 nsmap) hosts))) (\<lambda>_. True)" for hosts
    by (intro vldt_bind [OF pre] vldt_bind [OF vldt_rrnd] lookup_servers_ok assms)
  then show ?thesis
    unfolding find_servers_def Let_def by (intro vldt_bind [OF vldt_rrnd]) auto
qed

lemma delegation_ds_ok:
  assumes "msg_wf resp"
  shows "vldt N (rgo (delegation_ds E nsname q resp)) ds_res_ok"
proof (rule vldt_rgo_cases)
  have wf: "list_all rr_wf (m_Ns resp)" using assms by (simp add: req_ok_def msg_wf_def)
  obtain e where e: "verifyDelegation (ev_hash E) nsname (extractRRSet (m_Ns resp) [] [TypeNSEC3]) = Ret e"
    using verifyDelegation_Ret [OF wf_NSEC3 [OF wf]] by blast
  obtain b where b: "verifyNSEC q (extractRRSet (m_Ns resp) nsname [TypeNSEC]) = Ret b"
    using verifyNSEC_Ret [OF wf_NSEC [OF wf]] by blast
  have "ds_ok (extractRRSet (m_Ns resp) nsname [TypeDS])" "ds_ok []"
    using extract_ds_ok [OF wf] by (simp_all add: ds_ok_def)
  then show "case delegation_ds E nsname q resp of Ret x \<Rightarrow> ds_res_ok x | Panic w \<Rightarrow> crash_ok w"
    by (simp add: delegation_ds_def Let_def e b crash_ok_def split: option.split)
qed

lemma validate_delegation_ok:
  assumes "env_ok E" "msg_wf resp" "ds_ok ds"
  shows "vldt N (validate_delegation E R Net req qreq q resp ds) ds_res_ok"
proof -
  have v: "vldt N (rbind (op_verifyDNSSEC R Net signer resp ds')
        (\<lambda>v. case v of Inl err \<Rightarrow> rret (Inl err) | Inr _ \<Rightarrow> rgo (delegation_ds E (q_Name q) q resp))) ds_res_ok" if "ds_ok ds'" for signer ds'
    by (rule vldt_bind [OF validate [OF assms(1,2) that]]) (auto simp: delegation_ds_ok [OF assms(2)] split: sum.split)
  show ?thesis
    unfolding validate_delegation_def
    using v by (auto simp: assms intro!: vldt_bind [OF ds_select_ok] split: prod.split sum.split)
qed

lemma resolve_nodata_ok:
  assumes "msg_wf resp"
  shows "vldt N (resolve_nodata E q resp) (res_ok (m_Id resp))"
proof -
  have wf: "list_all rr_wf (m_Ns resp)" using assms by (simp add: req_ok_def msg_wf_def)
  have v: "vldt N (rbind (rgo (verifyNODATA (ev_hash E) q0 (extractRRSet (m_Ns resp) [] [TypeNSEC3])))
      (\<lambda>e. case e of Some err \<Rightarrow> rret (Inl (ErrNsec err)) | None \<Rightarrow> rret (Inr resp))) (res_ok (m_Id resp))" for q0
  proof -
    obtain e where "verifyNODATA (ev_hash E) q0 (extractRRSet (m_Ns resp) [] [TypeNSEC3]) = Ret e"
      using verifyNODATA_Ret [OF wf_NSEC3 [OF wf]] by blast
    then show ?thesis using assms by (intro vldt_bind [OF vldt_rgo]) (auto simp: ans_ok_def split: option.split)
  qed
  show ?thesis
    using assms v vld_rpanic [of "''index out of range''"] by (cases "m_Question resp") (auto simp: resolve_nodata_def Let_def ans_ok_def crash_ok_def)
qed

lemma descend_cached_ok:
  assumes "env_ok E" "req_ok req"
  shows "vld N (\<lambda>s. ref_ok (ns_Servers ns) s \<and> ds_ok (ns_DSRR ns))
     (rbind (rget f)
       (\<lambda>eq. if eq then rret (Inl errLoopDetection, req)
             else if depth \<le> 0 then rret (Inl errMaxDepth, req)
             else op_Resolve R Net req (ns_Servers ns) False (depth - 1) nlevel nsl (ns_DSRR ns) False))
     (\<lambda>(r, req') _. res_ok (m_Id req) r \<and> same_req req req')"
proof (rule vld_rbind)
  show "vld N (\<lambda>s. ref_ok (ns_Servers ns) s \<and> ds_ok (ns_DSRR ns)) (rget f) (\<lambda>_ s. ref_ok (ns_Servers ns) s \<and> ds_ok (ns_DSRR ns))"
    by (rule vld_rget)
  show "vld N (\<lambda>s. ref_ok (ns_Servers ns) s \<and> ds_ok (ns_DSRR ns))
      (if eq then rret (Inl errLoopDetection, req) else if depth \<le> 0 then rret (Inl errMaxDepth, req)
       else op_Resolve R Net req (ns_Servers ns) False (depth - 1) nlevel nsl (ns_DSRR ns) False)
      (\<lambda>(r, req') _. res_ok (m_Id req) r \<and> same_req req req')" for eq
    using vld_pre_imp [OF resolve [OF assms]] by simp
qed

lemma descend_ok:
  assumes "env_ok E" "req_ok req" "ds_ok ds" "hosts \<noteq> []"
  shows "vldt N (descend E R Net req hosts key ds ttl depth nlevel nsl)
     (\<lambda>(r, req'). res_ok (m_Id req) r \<and> same_req req req')"
  unfolding descend_def
proof (rule vld_rbind [OF vld_alloc_servers [OF assms(4)]], rule vld_rbind [OF vld_Ncache_Set [OF assms(3)]])
  show "vld N (ref_ok a) (if depth \<le> 0 then rret (Inl errMaxDepth, req)
      else op_Resolve R Net req a False (depth - 1) nlevel nsl ds False)
     (\<lambda>x _. case x of (r, req') \<Rightarrow> res_ok (m_Id req) r \<and> same_req req req')" for a
    using vld_conseq [OF resolve [OF assms(1,2,3)]] by auto
qed

lemma delegate_ok:
  assumes "env_ok E" "req_ok req" "msg_wf resp" "ds_ok ds"
  shows "vldt N
     (rbind (find_servers E R Net depth cd key ttl nsmap)
        (\<lambda>nservers.
           if nservers = [] then rret (Inl (ErrText ''nameservers are not reachable''), req)
           else rbind (validate_delegation E R Net req qreq q resp ds)
             (\<lambda>d. case d of
                Inl err \<Rightarrow> rret (Inl err, req)
              | Inr ds \<Rightarrow> descend E R Net req nservers key ds ttl depth nlevel nsl)))
     (\<lambda>(r, req'). res_ok (m_Id req) r \<and> same_req req req')"
proof (rule vldt_bind [OF find_servers_ok [OF assms(1)]])
  fix nservers :: "string list"
  let ?new = "\<lambda>ds. descend E R Net req nservers key ds ttl depth nlevel nsl"
  have "vldt N (case d of Inl err \<Rightarrow> rret (Inl err, req) | Inr ds \<Rightarrow> ?new ds) (\<lambda>(r, req'). res_ok (m_Id req) r \<and> same_req req req')"
    if "ds_res_ok d" "nservers \<noteq> []" for d
    using that descend_ok [OF assms(1,2)] by (cases d) auto
  then have "vldt N (rbind (validate_delegation E R Net req qreq q resp ds)
      (\<lambda>d. case d of Inl err \<Rightarrow> rret (Inl err, req) | Inr ds \<Rightarrow> ?new ds)) (\<lambda>(r, req'). res_ok (m_Id req) r \<and> same_req req req')"
    if "nservers \<noteq> []"
    using that by (intro vldt_bind [OF validate_delegation_ok [OF assms(1,3,4)]])
  then show "vldt N (if nservers = [] then rret (Inl (ErrText ''nameservers are not reachable''), req)
      else rbind (validate_delegation E R Net req qreq q resp ds)
        (\<lambda>d. case d of Inl err \<Rightarrow> rret (Inl err, req) | Inr ds \<Rightarrow> ?new ds)) (\<lambda>(r, req'). res_ok (m_Id req) r \<and> same_req req req')"
    by auto
qed

lemma resolve_authority_ok:
  assumes "env_ok E" "req_ok req" "msg_wf resp" "ds_ok ds" "m_Id resp = m_Id req"
  shows "vldt N (resolve_authority E R Net req qreq servers depth level nsl resp ds)
    (\<lambda>(r, req'). res_ok (m_Id req) r \<and> same_req req req')"
proof -
  let ?Q = "\<lambda>(r, req'). res_ok (m_Id req) r \<and> same_req req req'"
  obtain o' nsmap where ns: "collect_ns (m_Ns resp) (None, []) = (o', nsmap)" by fastforce
  show ?thesis
  proof (cases o')
    case None
    have "vldt N (rbind (resolve_nodata E qreq resp) (\<lambda>r. rret (r, req))) ?Q"
      by (rule vldt_bind [OF resolve_nodata_ok [OF assms(3)]]) (simp add: assms(5))
    with None ns show ?thesis by (simp add: resolve_authority_def)
  next
    case (Some nsrr)
    have answer: "res_ok (m_Id req) (Inr (resp\<lparr>m_Answer := m_Answer resp @ [a]\<rparr>))"
      if "glue nsl (q_Name qreq) (m_Extra resp) nsmap = Inl a" for a
      using glue_Inl [OF that] assms(3,5) by (auto simp: ans_ok_def msg_wf_def list_all_iff)
    have "vld N (\<lambda>s. \<forall>ns. c = Inr ns \<longrightarrow> ref_ok (ns_Servers ns) s \<and> ds_ok (ns_DSRR ns))
        (case c of
           Inr ns \<Rightarrow>
             rbind (rget (\<lambda>s. equalServers (rs_heap s ! ns_Servers ns) (rs_heap s ! servers)))
               (\<lambda>eq. if eq then rret (Inl errLoopDetection, req)
                     else if depth \<le> 0 then rret (Inl errMaxDepth, req)
                     else op_Resolve R Net req (ns_Servers ns) False (depth - 1) nlevel nsl (ns_DSRR ns) False)
         | Inl _ \<Rightarrow>
             (case glue nsl (q_Name qreq) (m_Extra resp) nsmap of
                Inl a \<Rightarrow> rret (Inr (resp\<lparr>m_Answer := m_Answer resp @ [a]\<rparr>), req)
              | Inr nsmap' \<Rightarrow>
                  rbind (find_servers E R Net depth cd key (rh_Ttl nsrr) nsmap')
                    (\<lambda>nservers.
                       if nservers = [] then rret (Inl (ErrText ''nameservers are not reachable''), req)
                       else rbind (validate_delegation E R Net req qreq q resp ds)
                         (\<lambda>d. case d of
                            Inl err \<Rightarrow> rret (Inl err, req)
                          | Inr ds \<Rightarrow> descend E R Net req nservers key ds (rh_Ttl nsrr) depth nlevel nsl))))
        (\<lambda>x _. ?Q x)" for c :: "cache_err + ns_entry" and cd key q nlevel
    proof (cases c)
      case (Inl e)
      then show ?thesis
        using answer delegate_ok [OF assms(1-4)] by (cases "glue nsl (q_Name qreq) (m_Extra resp) nsmap") auto
    next
      case (Inr ns)
      show ?thesis
        unfolding Inr sum.case by (rule vld_conseq [OF descend_cached_ok [OF assms(1,2)]]) auto
    qed
    note body = vld_rbind [OF vld_Ncache_Get this]
    show ?thesis
      unfolding resolve_authority_def ns Some Let_def prod.case option.case using body by auto
  qed
qed

lemma respond_ok:
  assumes "env_ok E" "req_ok req" "ans_ok (m_Id req) resp0" "ds_ok ds"
  shows "vldt N
     (let resp = resp0\<lparr>m_RecursionAvailable := True, m_Authoritative := False\<rparr>
      in if m_Truncated resp then rret (Inr resp, req)
         else if m_Rcode resp \<noteq> RcodeSuccess \<and> m_Answer resp = []
         then rbind (resolve_negative E q resp ds) (\<lambda>_. rret (Inr resp, req))
         else let resp1 = (if m_Rcode resp \<noteq> RcodeSuccess then resp\<lparr>m_Rcode := RcodeSuccess\<rparr> else resp)
              in if m_Answer resp1 \<noteq> []
                 then rbind (resolve_answer E R Net req q resp1 ds extra) (\<lambda>a. rret (a, req))
                 else if m_Ns resp1 \<noteq> []
                 then resolve_authority E R Net req q servers depth level nsl resp1 ds
                 else rret (Inr (resolve_empty req), req))
     (\<lambda>(r, req'). res_ok (m_Id req) r \<and> same_req req req')"
proof -
  let ?resp = "resp0\<lparr>m_RecursionAvailable := True, m_Authoritative := False\<rparr>"
  let ?resp1 = "if m_Rcode ?resp \<noteq> RcodeSuccess then ?resp\<lparr>m_Rcode := RcodeSuccess\<rparr> else ?resp"
  let ?Q = "\<lambda>(r, req'). res_ok (m_Id req) r \<and> same_req req req'"
  have r: "ans_ok (m_Id req) ?resp" "msg_wf ?resp" and r1: "msg_wf ?resp1"
    using assms(3) by (simp_all add: ans_ok_def msg_wf_def)
  have i: "m_Id ?resp1 = m_Id req" if "\<not> m_Truncated ?resp" using assms(3) that by (auto simp: ans_ok_def)
  have neg: "vldt N (rbind (resolve_negative E q ?resp ds) (\<lambda>_. rret (Inr ?resp, req))) ?Q"
    by (rule vldt_bind [OF resolve_negative_ok [OF assms(1) r(2)]]) (use r in simp)
  have ans: "vldt N (rbind (resolve_answer E R Net req q ?resp1 ds extra) (\<lambda>a. rret (a, req))) ?Q" if "\<not> m_Truncated ?resp"
    by (rule vldt_bind [OF resolve_answer_ok [OF assms(1,2) r1 assms(4) i [OF that]]]) simp
  have emp: "vldt N (rret (Inr (resolve_empty req), req)) ?Q" "vldt N (rret (Inr ?resp, req)) ?Q"
    using resolve_empty_ok [OF assms(2)] r by (simp_all add: ans_ok_def req_ok_def)
  show ?thesis
    unfolding Let_def
    by (intro if_split [where P = "\<lambda>m. vldt N m ?Q", THEN iffD2] conjI impI neg ans emp
        resolve_authority_ok [OF assms(1,2) r1 assms(4) i])
qed

lemma Resolve_ok:
  assumes "env_ok E" "req_ok req" "ds_ok ds"
  shows "vld N (ref_ok a) (Resolve E R Net req a root depth level nsl ds extra) (\<lambda>(r, req') _. res_ok (m_Id req) r \<and> same_req req req')"
proof -
  obtain q qs where q: "m_Question req = q # qs" using assms(2) by (cases "m_Question req") (auto simp: req_ok_def)
  have servers: "vld N (ref_ok a)
      (if root \<and> q_Qtype q \<noteq> TypeDS then searchCache E (Suc (length (q_Name q))) q (m_CheckingDisabled req) else rret (a, ds))
      (\<lambda>p s. case p of (a', ds') \<Rightarrow> ref_ok a' s \<and> ds_ok ds')"
    using vld_conseq [OF vld_searchCache] assms(3) by (auto simp del: searchCache.simps)
  have reply: "vld N (\<lambda>_. case x of (r, req') \<Rightarrow> res_ok (m_Id req) r \<and> same_req req req')
      (case x of (r, req') \<Rightarrow> case r of Inl err \<Rightarrow> rret (Inl err, req')
       | Inr resp0 \<Rightarrow>
           let resp = resp0\<lparr>m_RecursionAvailable := True, m_Authoritative := False\<rparr>
           in if m_Truncated resp then rret (Inr resp, req')
              else if m_Rcode resp \<noteq> RcodeSuccess \<and> m_Answer resp = []
              then rbind (resolve_negative E q resp ds') (\<lambda>_. rret (Inr resp, req'))
              else let resp1 = (if m_Rcode resp \<noteq> RcodeSuccess then resp\<lparr>m_Rcode := RcodeSuccess\<rparr> else resp)
                   in if m_Answer resp1 \<noteq> []
                      then rbind (resolve_answer E R Net req' q resp1 ds' extra) (\<lambda>a. rret (a, req'))
                      else if m_Ns resp1 \<noteq> []
                      then resolve_authority E R Net req' q a' depth level nsl resp1 ds'
                      else rret (Inr (resolve_empty req'), req'))
      (\<lambda>(r, req') _. res_ok (m_Id req) r \<and> same_req req req')" if "ds_ok ds'" for x a' ds'
  proof (rule vld_pure [of "case x of (r, req') \<Rightarrow> res_ok (m_Id req) r \<and> same_req req req'"])
    assume "case x of (r, req') \<Rightarrow> res_ok (m_Id req) r \<and> same_req req req'"
    then obtain r req' where x: "x = (r, req')" "res_ok (m_Id req) r" "same_req req req'" by (cases x) auto
    show ?thesis
    proof (cases r)
      case (Inl err)
      with x show ?thesis by auto
    next
      case (Inr resp0)
      have ok: "req_ok req'" "ans_ok (m_Id req') resp0" using x Inr same_req_ok same_req_Id assms(2) by auto
      from respond_ok [OF assms(1) ok that] show ?thesis
        unfolding x(1) Inr prod.case sum.case
        by (rule vld_conseq) (use x(3) same_req_trans same_req_Id in auto)
    qed
  qed auto
  have after: "vld N (\<lambda>s. case p of (a', ds') \<Rightarrow> ref_ok a' s \<and> ds_ok ds')
      (case p of (a', ds') \<Rightarrow> rbind (lookup E Net req a') (f a' ds')) (\<lambda>(r, req') _. res_ok (m_Id req) r \<and> same_req req req')"
    if f: "\<And>x a' ds'. ds_ok ds' \<Longrightarrow> vld N (\<lambda>_. case x of (r, req') \<Rightarrow> res_ok (m_Id req) r \<and> same_req req req') (f a' ds' x)
          (\<lambda>(r, req') _. res_ok (m_Id req) r \<and> same_req req req')" for p f
  proof -
    obtain a' ds' where p: "p = (a', ds')" by (cases p)
    have l: "vld N (ref_ok a') (lookup E Net req a') (\<lambda>x _. case x of (r, req') \<Rightarrow> res_ok (m_Id req) r \<and> same_req req req')"
      by (rule vld_conseq [OF vld_lookup [OF assms(1,2)]]) (auto intro: ref_ok_ne)
    have "vld N (ref_ok a') (rbind (lookup E Net req a') (f a' ds')) (\<lambda>(r, req') _. res_ok (m_Id req) r \<and> same_req req req')" if "ds_ok ds'"
      by (rule vld_rbind [OF l f [OF that]])
    with p show ?thesis by (auto intro: vld_pre_imp)
  qed
  show ?thesis
    unfolding Resolve_def q list.case
    by (rule vld_rbind [OF servers], rule after, rule reply)
qed

lemma lookupDS_ok:
  assumes "env_ok E"
  shows "vldt N (lookupDS E R Net name depth) (\<lambda>r. \<forall>m. r = Inr m \<longrightarrow> msg_wf m)"
  unfolding lookupDS_def Let_def
  by (rule vld_rules resolve_root lookup_ds assms | fastforce simp: toMsg_wf ans_ok_def)+

lemma try_fallback_ok:
  assumes "env_ok E" "req_ok req" "res_ok (m_Id req) r"
  shows "vldt N (try_fallback E Net req r) (\<lambda>(r, req'). res_ok (m_Id req) r \<and> same_req req req')"
  unfolding try_fallback_def
proof (rule vld_rbind [where Q = "\<lambda>fallback s. fallback \<noteq> [] \<longrightarrow> servers_ne fallbackservers s"])
  show "vld N (\<lambda>_. True) (rget (\<lambda>s. as_List (rs_heap s ! fallbackservers)))
      (\<lambda>fallback s. fallback \<noteq> [] \<longrightarrow> servers_ne fallbackservers s)"
    by (rule vld_rget) (auto simp: servers_ne_def rinv_def heap_ok_def)
  show "vld N (\<lambda>s. fallback \<noteq> [] \<longrightarrow> servers_ne fallbackservers s)
      (if fallback \<noteq> [] then lookup E Net req fallbackservers else rret (r, req))
      (\<lambda>x _. case x of (r, req') \<Rightarrow> res_ok (m_Id req) r \<and> same_req req req')" for fallback :: "auth_server list"
    using vld_conseq [OF vld_lookup [OF assms(1,2)]] assms(3) by auto
qed

lemma nsaddr_answer_ok:
  assumes "env_ok E" "req_ok req" "ans_ok (m_Id req) nsres"
  shows "vldt N (nsaddr_answer E Net req ns key nsres) (\<lambda>_. True)"
proof -
  have "vldt N (if m_Answer nsres = [] \<and> m_Ns nsres = [] then try_fallback E Net req (Inr nsres) else rret (Inr nsres, req))
      (\<lambda>(r, req'). res_ok (m_Id req) r \<and> same_req req req')"
    using try_fallback_ok [OF assms(1,2)] assms(3) by simp
  then show ?thesis
    unfolding nsaddr_answer_def
    by (rule vldt_bind) (rule vld_rules | fastforce simp: ans_ok_def dest: searchAddr_ne)+
qed

lemma nsaddr_resolve_ok:
  assumes "env_ok E" "req_ok req"
  shows "vldt N (nsaddr_resolve E R Net req ns key depth cd) (\<lambda>_. True)"
proof -
  have retry: "vldt N (case r of Inr nsres \<Rightarrow> rret (r, req') | Inl err \<Rightarrow> try_fallback E Net req' r)
      (\<lambda>(r, req''). res_ok (m_Id req) r \<and> same_req req req'')" if "res_ok (m_Id req) r" "same_req req req'" for r req'
    using that vldt_weaken [OF try_fallback_ok [OF assms(1) same_req_ok [OF that(2) assms(2)]]] same_req_Id [OF that(2)] same_req_trans
    by (auto split: sum.split)
  show ?thesis
    unfolding nsaddr_resolve_def
    by (rule vldt_if vldt_ret vldt_bind [OF resolve_root] vldt_prod vldt_bind [OF retry] vldt_sum vldt_bind
        vldt_Ecache_Set vldt_Lqueue_Done ns_addr nsaddr_answer_ok assms
      | fastforce simp: same_req_Id intro: same_req_ok assms(2))+
qed

lemma lookupNSAddr_ok:
  assumes "env_ok E"
  shows "vldt N (lookupNSAddr E R Net ns depth cd) (\<lambda>_. True)"
proof -
  have get: "vldt N (rget f) (\<lambda>_. True)" for f :: "rstate \<Rightarrow> nat option" by (rule vld_rget) simp
  have cd: "req_ok req \<Longrightarrow> req_ok (req\<lparr>m_CheckingDisabled := cd\<rparr>)" for req
    by (simp add: req_ok_def msg_wf_def)
  show ?thesis
    unfolding lookupNSAddr_def Let_def
    by (rule vldt_bind [OF get] vld_rules nsaddr_resolve_ok cd assms | fastforce)+
qed

lemma check_with_keys_ok:
  assumes "msg_wf m" "msg_wf resp" "ds_ok ds"
  shows "vldt N (check_with_keys E cacheKey m resp ds) (\<lambda>_. True)"
proof -
  obtain keys where keys: "collect_keys (ev_crypto E) (m_Answer m) [] = Ret keys"
    using collect_keys_Ret assms(1) by (metis msg_wf_def)
  obtain e where e: "verifyDS (ev_crypto E) keys ds = Ret e" using verifyDS_Ret [OF assms(3)] by blast
  have sig: "vldt N (rgo (verifyRRSIG (ev_crypto E) now keys resp)) (\<lambda>_. True)" for now
  proof -
    obtain v where "verifyRRSIG (ev_crypto E) now keys resp = Ret v"
      using verifyRRSIG_Ret [OF assms(2)] by blast
    then show ?thesis by (rule vldt_rgo) simp
  qed
  have ne: "keys \<noteq> [] \<Longrightarrow> m_Answer m \<noteq> [] \<or> m_Ns m \<noteq> []" using keys by auto
  show ?thesis
    unfolding check_with_keys_def
    by (rule vldt_bind [OF vldt_rgo_eq [OF keys]], hypsubst)
      (rule vldt_bind [OF vldt_rgo_eq [OF e]] vldt_bind [OF sig] vld_rules assms ne | fastforce)+
qed

lemma fetch_keys_ok:
  assumes "env_ok E" "req_ok keyReq"
  shows "vldt N (fetch_keys E R Net keyReq) (res_ok (m_Id keyReq))"
  unfolding fetch_keys_def
  by (rule vldt_bind resolve_root vldt_prod vldt_sum vldt_if assms
    | fastforce simp: same_req_Id intro: same_req_ok assms(2))+

lemma verifyDNSSEC_ok:
  assumes "env_ok E" "msg_wf resp" "ds_ok ds"
  shows "vldt N (verifyDNSSEC E R Net signer resp ds) (\<lambda>_. True)"
proof -
  note wf = assms(2)
  have root: "vldt N (rgo (verifyRootKeys (ev_crypto E) now (ev_rootkeys E) resp)) (\<lambda>ok. ok \<and> m_Answer resp \<noteq> [])" for now
    by (rule vldt_rgo_cases [OF verifyRootKeys_cases [OF assms(1) wf]])
  show ?thesis
    unfolding verifyDNSSEC_def Let_def
    by (rule vldt_bind [OF root] vldt_bind [OF fetch_keys_ok] vldt_list vldt_if vldt_sum vldt_prod
        vldt_Qcache_Set vld_rules check_with_keys_ok wf assms
      vld_rpanic
      | fastforce simp: crash_ok_def ans_ok_def toMsg_wf wf)+
qed

lemma set_hosts_ok: "vldt N (set_hosts a hosts) (\<lambda>_. True)"
proof -
  have "rinv N (s\<lparr>rs_heap := (rs_heap s)[a := (rs_heap s ! a)\<lparr>as_List := map NewAuthServer hosts\<rparr>]\<rparr>)"
    if "rinv N s" "hosts \<noteq> []" for s
    using that
    by (cases "a < length (rs_heap s)")
      (auto simp: rinv_def heap_ok_def ncache_ok_def ref_ok_def nth_list_update list_update_beyond)
  then show ?thesis by (simp add: vld_def set_hosts_def)
qed

lemma checkPriming_ok:
  assumes "env_ok E"
  shows "vldt N (checkPriming E R) (\<lambda>_. True)"
proof -
  have retry: "vldt N (case r of
        Inl err \<Rightarrow> rret (Inl err)
      | Inr resp \<Rightarrow>
          if m_Truncated resp
          then rbind (op_Resolve R ''tcp'' req1 rootservers True 5 0 False [] True) (\<lambda>(r2, _). rret r2)
          else rret (Inr resp)) (res_ok (m_Id req1))" if "res_ok (m_Id req1) r" "req_ok req1" for r req1
    using that by (auto intro!: vldt_bind [OF resolve_root [OF assms]] split: sum.split)
  show ?thesis
    unfolding checkPriming_def
    by (rule vldt_bind [OF new_query_ok] vldt_bind [OF resolve_root] vldt_bind [OF retry] vldt_prod vldt_sum
        vldt_bind [OF set_hosts_ok] assms
      | fastforce simp: same_req_Id intro: same_req_ok)+
qed

end

section \<open>Every amount of fuel\<close>

lemma resolver_contract_all: "resolver_contract N E (resolver E n)"
proof (induction n)
  case 0
  show ?case by unfold_locales simp_all
next
  case (Suc n)
  note R = resolver_contract.Resolve_ok [OF Suc] resolver_contract.lookupDS_ok [OF Suc]
    resolver_contract.lookupNSAddr_ok [OF Suc] resolver_contract.verifyDNSSEC_ok [OF Suc]
  show ?case by unfold_locales (simp_all add: R)
qed

interpretation rc: resolver_contract N E "resolver E n" for N E n
  by (rule resolver_contract_all)

lemma rinv_new:
  assumes "roots \<noteq> []"
  shows "rinv (shard_part cachesize) (new_state cachesize ratelimit expire roots roots6 fallback)"
proof -
  have "heap_ok (new_state cachesize ratelimit expire roots roots6 fallback)"
    using assms by (auto simp: heap_ok_def ref_ok_def new_state_def new_AuthServers_def nth_Cons split: nat.splits)
  then show ?thesis
    by (simp add: rinv_def new_state_def ncache_ok_def NewNSCache_def inv_intros qc_items_new)
qed

end
