(* ===== verification/Resolver_Facts.thy ===== *)
theory Resolver_Facts
  imports Resolver_Contract
begin

text \<open>
  What the resolver does on its branches: termination of the walk to the closest cached zone,
  when an answer is refused and when it is marked as authenticated, and the inputs on which the
  validation is skipped, panics or never ends. The demonstration environment at the start serves
  the witnesses.
\<close>

section \<open>A demonstration environment\<close>

definition demo_reply :: "rr list \<Rightarrow> msg \<Rightarrow> msg" where
  "demo_reply answers req =
     msg_zero\<lparr>m_Id := m_Id req, m_Response := True,
       m_Question := [\<lparr>q_Name = ''x.'', q_Qtype = TypeA, q_Qclass = ClassINET\<rparr>], m_Answer := answers\<rparr>"

definition demo_env :: "(msg \<Rightarrow> msg) \<Rightarrow> renv" where
  "demo_env reply =
     \<lparr>ev_crypto = demo_crypto, ev_hash = demo_hash, ev_clock = (\<lambda>t. int t * second), ev_rnd = (\<lambda>t. t),
      ev_exchange = (\<lambda>t net host req. (Inr (reply req), 1)),
      ev_rootkeys = [RR (demo_header TypeDNSKEY) (DNSKEY_rd demo_dnskey)], ev_LocalIPs = [], ev_Maxdepth = 30\<rparr>"

definition demo_a :: rr where
  "demo_a = RR (demo_header TypeA) (A_rd [192, 0, 2, 1])"

definition demo_req :: "u16 \<Rightarrow> bool \<Rightarrow> msg" where
  "demo_req t cd =
     msg_zero\<lparr>m_Id := 7, m_RecursionDesired := True, m_CheckingDisabled := cd,
       m_Question := [\<lparr>q_Name = ''x.'', q_Qtype = t, q_Qclass = ClassINET\<rparr>]\<rparr>"

definition demo_state :: rstate where
  "demo_state = new_state 1024 0 600 [''192.0.2.53:53''] [] []"

lemma demo_env_ok:
  assumes "\<And>req. msg_wf (reply req)" "\<And>req. m_Id (reply req) = m_Id req"
  shows "env_ok (demo_env reply)"
  unfolding env_ok_def demo_env_def using assms by (auto simp: demo_crypto_def ans_ok_def)

lemma demo_reply_ok: "list_all rr_wf rs \<Longrightarrow> env_ok (demo_env (demo_reply rs))"
  by (rule demo_env_ok) (simp_all add: demo_reply_def msg_wf_def msg_zero_def)

lemma demo_a_wf: "rr_wf demo_a"
  by (simp add: demo_a_def rr_wf_def demo_header_def)

lemma demo_req_ok: "req_ok (demo_req t cd)"
  by (simp add: demo_req_def req_ok_def msg_wf_def msg_zero_def)

lemma demo_state_inv: "rinv (shard_part 1024) demo_state" "ref_ok rootservers demo_state"
  unfolding demo_state_def by (simp_all add: rinv_new) (simp add: ref_ok_def new_state_def)

text \<open>When the servers always answer and without an error code, the first answer is the result.\<close>

lemma lookup_first:
  assumes x: "\<And>t host. \<exists>resp rtt. ev_exchange E t Net host req = (Inr resp, rtt) \<and> P resp"
    and rc: "\<And>resp. P resp \<Longrightarrow> m_Rcode resp = RcodeSuccess" and ne: "servers_ne a s"
  shows "\<exists>resp s'. lookup E Net req a s = Done (Inr resp, req) s' \<and> same_shape s s' \<and> P resp"
proof -
  define r where "r = ev_rnd E (rs_tick s)"
  define s1 where "s1 = (s\<lparr>rs_tick := Suc (rs_tick s)\<rparr>)\<lparr>rs_heap := (rs_heap s)[a := TrySort r (rs_heap s ! a)]\<rparr>"
  have sort: "try_sort E a s = Done () s1"
    by (simp add: try_sort_def rrnd_def rtick_def rbind_def rret_def s1_def r_def)
  have sh: "same_shape s s1"
    unfolding s1_def using same_shape_update [of "TrySort r (rs_heap s ! a)" s a]
    by (simp add: same_shape_def TrySort_List)
  have "as_List (rs_heap s1 ! a) \<noteq> []"
    using ne same_shapeD(2) [OF sh, of a] by (auto simp: servers_ne_def)
  then have n: "0 < length (as_List (rs_heap s1 ! a))" by simp
  obtain resp rtt where r: "ev_exchange E (rs_tick s1) Net (as_Host (as_List (rs_heap s1 ! a) ! 0)) req = (Inr resp, rtt)"
    "P resp" using x by blast
  have "\<exists>s'. exchange E Net a 0 req s1 = Done (Inr resp, Net, req) s' \<and> same_shape s1 s'"
    using same_shape_trans [OF same_shape_sent same_shape_record_rtt] r(1) rc [OF r(2)]
    by (subst exchange.simps) (auto simp: Let_def)
  then obtain s' where "exchange E Net a 0 req s1 = Done (Inr resp, Net, req) s'" "same_shape s1 s'" by blast
  then have "lookup E Net req a s = Done (Inr resp, req) s'"
    using n rc [OF r(2)] by (simp add: lookup_def sort rbind_def rget_def lookup_loop.simps rret_def)
  with \<open>same_shape s1 s'\<close> sh r(2) show ?thesis using same_shape_trans by blast
qed

lemma demo_lookup:
  "m_Rcode (reply req) = RcodeSuccess \<Longrightarrow> servers_ne a s \<Longrightarrow>
   \<exists>s'. lookup (demo_env reply) Net req a s = Done (Inr (reply req), req) s' \<and> same_shape s s'"
  using lookup_first [of "demo_env reply" Net req "\<lambda>r. r = reply req" a s] by (simp add: demo_env_def)

text \<open>States whose query cache and error cache are empty.\<close>

definition caches_empty :: "rstate \<Rightarrow> bool" where
  "caches_empty s \<longleftrightarrow> (\<exists>c rate. rs_Qcache s = NewQueryCache c rate) \<and> (\<exists>c ttl. rs_Ecache s = NewErrorCache c ttl)"

lemma caches_empty_get:
  assumes "caches_empty s"
  shows "Qcache_Get E key req s = Done (Inl ErrCacheNotFound) (s\<lparr>rs_tick := Suc (rs_tick s)\<rparr>)"
    and "Ecache_Get E key s = Done (Some ErrCacheNotFound) (s\<lparr>rs_tick := Suc (rs_tick s)\<rparr>)"
  using assms unfolding caches_empty_def
  by (auto simp: Qcache_Get_def Ecache_Get_def rnow_def rtick_def rbind_def rret_def QueryCache_Get_def ErrorCache_Get_def
      NewQueryCache_def NewErrorCache_def shardSize_def newShard_def shard_Get_def Let_def)

lemma caches_empty_shape: "same_shape s s' \<Longrightarrow> caches_empty s' = caches_empty s"
  by (simp add: same_shape_def caches_empty_def)

lemma servers_ne_shape: "same_shape s s' \<Longrightarrow> servers_ne a s' = servers_ne a s"
  using same_shapeD(1,2) [of s s'] by (auto simp: servers_ne_def) (metis length_0_conv)+

text \<open>The servers \<open>Resolve\<close> asks, and what it does with an answer.\<close>

definition start_servers :: "renv \<Rightarrow> question \<Rightarrow> bool \<Rightarrow> bool \<Rightarrow> server_ref \<Rightarrow> rr list \<Rightarrow> (server_ref \<times> rr list) rm" where
  "start_servers E q cd root servers ds =
     (if root \<and> q_Qtype q \<noteq> TypeDS then searchCache E (Suc (length (q_Name q))) q cd else rret (servers, ds))"

abbreviation (input) relayed :: "msg \<Rightarrow> msg" where
  "relayed resp \<equiv> resp\<lparr>m_RecursionAvailable := True, m_Authoritative := False\<rparr>"

text \<open>What \<open>Resolve\<close> does with the message of a server, after it has cleared an error code that comes with an answer.\<close>

definition cleared :: "msg \<Rightarrow> msg" where
  "cleared resp = (if m_Rcode resp \<noteq> RcodeSuccess then relayed resp\<lparr>m_Rcode := RcodeSuccess\<rparr> else relayed resp)"

definition respond ::
  "renv \<Rightarrow> resolver_ops \<Rightarrow> string \<Rightarrow> question \<Rightarrow> server_ref \<Rightarrow> int \<Rightarrow> int \<Rightarrow> bool \<Rightarrow> rr list \<Rightarrow> bool \<Rightarrow> msg \<Rightarrow> msg \<Rightarrow>
     ((rerr + msg) \<times> msg) rm" where
  "respond E R Net q servers depth level nsl ds extra req resp =
     (if m_Truncated resp then rret (Inr (relayed resp), req)
      else if m_Rcode resp \<noteq> RcodeSuccess \<and> m_Answer resp = []
      then rbind (resolve_negative E q (relayed resp) ds) (\<lambda>_. rret (Inr (relayed resp), req))
      else if m_Answer resp \<noteq> []
      then rbind (resolve_answer E R Net req q (cleared resp) ds extra) (\<lambda>a. rret (a, req))
      else if m_Ns resp \<noteq> [] then resolve_authority E R Net req q servers depth level nsl (cleared resp) ds
      else rret (Inr (resolve_empty req), req))"

lemma cleared_sel [simp]:
  "m_Answer (cleared resp) = m_Answer resp" "m_Ns (cleared resp) = m_Ns resp"
  "m_AuthenticatedData (cleared resp) = m_AuthenticatedData resp" "m_Truncated (cleared resp) = m_Truncated resp"
  by (simp_all add: cleared_def)

lemma respond_let:
  "respond E R Net q servers depth level nsl ds extra req resp0 =
     (let resp = resp0\<lparr>m_RecursionAvailable := True, m_Authoritative := False\<rparr>
      in if m_Truncated resp then rret (Inr resp, req)
         else if m_Rcode resp \<noteq> RcodeSuccess \<and> m_Answer resp = []
         then rbind (resolve_negative E q resp ds) (\<lambda>_. rret (Inr resp, req))
         else let resp1 = (if m_Rcode resp \<noteq> RcodeSuccess then resp\<lparr>m_Rcode := RcodeSuccess\<rparr> else resp)
              in if m_Answer resp1 \<noteq> []
                 then rbind (resolve_answer E R Net req q resp1 ds extra) (\<lambda>a. rret (a, req))
                 else if m_Ns resp1 \<noteq> []
                 then resolve_authority E R Net req q servers depth level nsl resp1 ds
                 else rret (Inr (resolve_empty req), req))"
  by (simp add: respond_def cleared_def Let_def cong: if_cong)

lemma Resolve_respond:
  assumes "m_Question req = q # qs"
  shows "Resolve E R Net req servers0 root depth level nsl ds0 extra =
     rbind (start_servers E q (m_CheckingDisabled req) root servers0 ds0)
       (\<lambda>(servers, ds). rbind (lookup E Net req servers)
          (\<lambda>(r, req1). case r of Inl err \<Rightarrow> rret (Inl err, req1)
             | Inr resp \<Rightarrow> respond E R Net q servers depth level nsl ds extra req1 resp))"
  unfolding respond_let Resolve_def start_servers_def assms list.case ..

lemma Resolve_answered:
  assumes "m_Question req = q # qs" "start_servers E q (m_CheckingDisabled req) root servers0 ds0 s = Done (servers, ds) s0"
    "lookup E Net req servers s0 = Done (Inr resp, req') s1"
    "\<not> m_Truncated resp" "m_Rcode resp = RcodeSuccess" "m_Answer resp \<noteq> []"
  shows "Resolve E R Net req servers0 root depth level nsl ds0 extra s =
    rbind (resolve_answer E R Net req' q (relayed resp) ds extra) (\<lambda>a. rret (a, req')) s1"
  using assms by (simp add: Resolve_respond [OF assms(1)] rbind_def respond_def cleared_def)

section \<open>Safety\<close>

text \<open>C2. The resolver is safe for every amount of fuel, from every state that satisfies the invariant and
  for every request with a question: when \<^verbatim>\<open>Resolve\<close> returns, the invariant holds again (both caches
  within their size, every cached message well formed and with a record in its answer or authority
  section, every cached server list present and not empty, every cached DS set made of DS records,
  the lookup queue consistent), a returned message is well formed and carries the identifier of the
  request unless it is truncated, and the request has at most lost its OPT records. When it panics,
  it is one of five panics: the index error of a reply without a question, a failed NSEC check of a
  delegation, whose log call dereferences a nil error, or a root DNSKEY response that does not
  verify. This holds when the records of the servers' replies fit their types, the replies that
  are not truncated repeat the identifier, and the configured root keys are usable.\<close>

theorem resolver_safe:
  assumes "env_ok E" "rinv N s" "req_ok req" "ds_ok ds" "ref_ok a s"
  shows "case op_Resolve (resolver E n) Net req a root depth level nsl ds extra s of
      Done (r, req') s' \<Rightarrow> rinv N s' \<and> res_ok (m_Id req) r \<and> (req' = req \<or> req' = clearOPT req)
    | Crash w \<Rightarrow> w \<in> {''index out of range'', nil_err, ''root zone keys empty'', ''root zone DS not verified'', ''root zone keys not verified''}
    | Stuck \<Rightarrow> True"
proof -
  have "vld N (ref_ok a) (op_Resolve (resolver E n) Net req a root depth level nsl ds extra)
      (\<lambda>(r, req') _. res_ok (m_Id req) r \<and> same_req req req')"
    by (rule rc.resolve [OF assms(1,3,4)])
  with assms(2,5) show ?thesis
    by (auto simp: vld_def same_req_def crash_ok_def split: outcome.splits)
qed

theorem resolver_safe_witness:
  "\<exists>r req' s'. op_Resolve (resolver (demo_env (demo_reply [demo_a])) 1) ''udp'' (demo_req TypeA True) rootservers False 5 0
       False [] False demo_state = Done (Inr r, req') s' \<and> m_Answer r = [demo_a] \<and> rinv (shard_part 1024) s'"
proof -
  have "m_Rcode (demo_reply [demo_a] req) = RcodeSuccess" for req by (simp add: demo_reply_def msg_zero_def)
  from demo_lookup [where reply = "demo_reply [demo_a]" and req = "demo_req TypeA True" and Net = "''udp''",
      OF this ref_ok_ne [OF demo_state_inv]]
  obtain s1 where "lookup (demo_env (demo_reply [demo_a])) ''udp'' (demo_req TypeA True) rootservers demo_state =
      Done (Inr (demo_reply [demo_a] (demo_req TypeA True)), demo_req TypeA True) s1" by blast
  then obtain r req' s' where run: "op_Resolve (resolver (demo_env (demo_reply [demo_a])) 1) ''udp'' (demo_req TypeA True)
      rootservers False 5 0 False [] False demo_state = Done (Inr r, req') s'" "m_Answer r = [demo_a]"
    by (simp add: Resolve_def demo_req_def rbind_def rret_def)
       (simp add: demo_reply_def msg_zero_def rbind_def rret_def resolve_answer_def finish_answer_def)
  from resolver_safe [of "demo_env (demo_reply [demo_a])" "shard_part 1024" demo_state "demo_req TypeA True" "[]"
      rootservers 1 "''udp''" False 5 0 False False] run demo_a_wf demo_reply_ok demo_state_inv demo_req_ok
  show ?thesis by (simp add: ds_ok_def)
qed

lemma demo_NewResolver: "\<exists>e s. NewResolver (demo_env (demo_reply [demo_a])) 1 1024 0 600 [''192.0.2.53:53''] [] [] = Done e s"
proof -
  let ?E = "demo_env (demo_reply [demo_a])"
  have rc: "m_Rcode (demo_reply [demo_a] req) = RcodeSuccess" for req by (simp add: demo_reply_def msg_zero_def)
  define q where "q = (SetEdns0 (SetQuestion (of_nat 0) msg_zero ''.'' TypeNS) 1536 True)\<lparr>m_RecursionDesired := True\<rparr>"
  define s0 where "s0 = demo_state\<lparr>rs_tick := Suc (Suc 0)\<rparr>"
  have nq: "new_query ?E ''.'' TypeNS demo_state = Done q (demo_state\<lparr>rs_tick := Suc 0\<rparr>)"
    by (simp add: new_query_def rrnd_def rtick_def rbind_def rret_def q_def demo_env_def demo_state_def new_state_def)
  have get: "Ncache_Get ?E key (demo_state\<lparr>rs_tick := Suc 0\<rparr>) = Done (Inl ErrCacheNotFound) s0" for key
    by (simp add: Ncache_Get_def rnow_def rtick_def rbind_def rret_def NSCache_Get_def demo_state_def new_state_def
        NewNSCache_def s0_def)
  have sc: "searchCache ?E (Suc n) \<lparr>q_Name = ''.'', q_Qtype = t, q_Qclass = c\<rparr> cd (demo_state\<lparr>rs_tick := Suc 0\<rparr>) =
      Done (rootservers, []) s0" for n t c cd
    by (simp add: Let_def rbind_def get upperName_def rret_def)
  have inv0: "rinv (shard_part 1024) s0" "servers_ne rootservers s0"
    using demo_state_inv ref_ok_ne [OF demo_state_inv] by (simp_all add: s0_def servers_ne_def)
  obtain s1 where l: "lookup ?E ''udp'' q rootservers s0 = Done (Inr (demo_reply [demo_a] q), q) s1"
    using demo_lookup [where reply = "demo_reply [demo_a]" and req = q, OF rc inv0(2)] by blast
  have q: "m_Question q = [\<lparr>q_Name = ''.'', q_Qtype = TypeNS, q_Qclass = ClassINET\<rparr>]"
    by (simp add: q_def SetEdns0_def SetQuestion_def)
  have "answer_signer ''.'' (m_Answer (demo_reply [demo_a] q)) = ([], False)"
    by (simp add: demo_reply_def demo_a_def demo_header_def)
  then have a: "resolve_answer ?E R Net q \<lparr>q_Name = ''.'', q_Qtype = TypeNS, q_Qclass = ClassINET\<rparr>
      (demo_reply [demo_a] q\<lparr>m_RecursionAvailable := True, m_Authoritative := False\<rparr>) [] True s =
      Done (Inr (finish_answer q True (demo_reply [demo_a] q\<lparr>m_RecursionAvailable := True, m_Authoritative := False\<rparr>))) s"
    for R Net s by (simp add: resolve_answer_def ds_select_def rbind_def rret_def)
  have st: "start_servers ?E \<lparr>q_Name = ''.'', q_Qtype = TypeNS, q_Qclass = ClassINET\<rparr> cd True rootservers []
      (demo_state\<lparr>rs_tick := Suc 0\<rparr>) = Done (rootservers, []) s0" for cd
    by (simp add: start_servers_def sc del: searchCache.simps)
  define m where "m = finish_answer q True (relayed (demo_reply [demo_a] q))"
  have "op_Resolve (resolver ?E 1) ''udp'' q rootservers True 5 0 False [] True (demo_state\<lparr>rs_tick := Suc 0\<rparr>) =
      Done (Inr m, q) s1"
    using Resolve_answered [OF q st l, of "resolver ?E 0" 5 0 False True] a
    by (simp add: m_def rbind_def rret_def) (simp add: demo_reply_def msg_zero_def)
  moreover have "\<not> m_Truncated m" by (simp add: m_def finish_answer_def demo_reply_def msg_zero_def)
  ultimately show ?thesis
    by (cases "priming_hosts (m_Extra m)")
       (simp add: NewResolver_def checkPriming_def demo_state_def [symmetric] rbind_def nq rret_def set_hosts_def)
qed

text \<open>The resolver starts in a good state: \<^verbatim>\<open>NewResolver\<close>, with at least one root server configured, ends
  with the invariant (hence with every root server list that the priming installed not empty), or
  in one of the five panics.\<close>

theorem NewResolver_safe:
  assumes "env_ok E" "roots \<noteq> []"
  shows "case NewResolver E n cachesize ratelimit expire roots roots6 fallback of
      Done e s \<Rightarrow> rinv (shard_part cachesize) s \<and> as_List (rs_heap s ! rootservers) \<noteq> []
    | Crash w \<Rightarrow> w \<in> {''index out of range'', nil_err, ''root zone keys empty'', ''root zone DS not verified'', ''root zone keys not verified''}
    | Stuck \<Rightarrow> True"
proof -
  have "vldt (shard_part cachesize) (checkPriming E (resolver E n)) (\<lambda>_. True)"
    by (rule rc.checkPriming_ok [OF assms(1)])
  with rinv_new [OF assms(2)] show ?thesis
    using ref_ok_ne [OF _ ref_ok_root]
    by (fastforce simp: vld_def NewResolver_def crash_ok_def servers_ne_def split: outcome.splits)
qed

theorem NewResolver_safe_witness:
  "\<exists>e s. NewResolver (demo_env (demo_reply [demo_a])) 1 1024 0 600 [''192.0.2.53:53''] [] [] = Done e s \<and>
     rinv (shard_part 1024) s \<and> as_List (rs_heap s ! rootservers) \<noteq> []"
  using demo_NewResolver NewResolver_safe [of "demo_env (demo_reply [demo_a])" "[''192.0.2.53:53'']" 1024 1 0 600 "[]" "[]"]
    demo_reply_ok demo_a_wf by auto

end
