(* ===== verification/Resolver_AD.thy ===== *)
theory Resolver_AD
  imports Resolver_Facts
begin

text \<open>
  The AD flag: an answer is marked as authenticated only after its signatures were checked under
  keys that a DS set vouches for, provided the servers do not set the flag themselves; a flag that
  a server sets is relayed.
\<close>

section \<open>Results of a run\<close>

named_theorems run_simps

lemma rbind_Done: "rbind m f s = Done x s' \<longleftrightarrow> (\<exists>y s1. m s = Done y s1 \<and> f y s1 = Done x s')"
  by (auto simp: rbind_def split: outcome.splits)

lemma rbind_DoneE:
  assumes "rbind m f s = Done x s'"
  obtains y s1 where "m s = Done y s1" "f y s1 = Done x s'"
  using assms by (auto simp: rbind_Done)

lemma rret_Done [run_simps]: "rret x s = Done y s' \<longleftrightarrow> y = x \<and> s' = s"
  by (auto simp: rret_def)

lemma rgo_Done [run_simps]: "rgo g s = Done x s' \<longleftrightarrow> g = Ret x \<and> s' = s"
  by (auto simp: rgo_def rret_def rpanic_def split: go.splits)

lemma rpanic_Done [run_simps]: "rpanic w s = Done x s' \<longleftrightarrow> False"
  by (simp add: rpanic_def)

lemma rstuck_Done [run_simps]: "rstuck s = Done x s' \<longleftrightarrow> False"
  by (simp add: rstuck_def)

text \<open>A message a lookup returns is a reply of a server; over TCP, a reply over TCP.\<close>

definition is_reply :: "renv \<Rightarrow> string \<Rightarrow> msg \<Rightarrow> bool" where
  "is_reply E net resp \<longleftrightarrow> (\<exists>t net' host req rtt. ev_exchange E t net' host req = (Inr resp, rtt) \<and>
     (net = ''tcp'' \<longrightarrow> net' = ''tcp''))"

lemma after_exchange_Done: "after_exchange f r = Done x s' \<longleftrightarrow> (\<exists>s1. r = Done x s1 \<and> s' = f s1)"
  by (cases r) auto

lemma clearOPT_sel [simp]:
  "m_CheckingDisabled (clearOPT req) = m_CheckingDisabled req" "m_Question (clearOPT req) = m_Question req"
  by (simp_all add: clearOPT_def)

lemma same_req_sel:
  "same_req req req' \<Longrightarrow> m_CheckingDisabled req' = m_CheckingDisabled req"
  "same_req req req' \<Longrightarrow> m_Question req' = m_Question req"
  by (auto simp: same_req_def)

lemma is_reply_tcp: "is_reply E ''tcp'' resp \<Longrightarrow> is_reply E net resp"
  unfolding is_reply_def by blast

lemma exchange_reply:
  "exchange E net a i req s = Done (r, net', req') s' \<Longrightarrow>
   same_req req req' \<and> (net = ''tcp'' \<longrightarrow> net' = ''tcp'') \<and>
   (\<forall>resp. r = Inr resp \<longrightarrow> is_reply E net resp)"
proof (induction E net a i req s arbitrary: s' rule: exchange.induct)
  case (1 E net a i req s)
  let ?host = "as_Host (as_List (rs_heap s ! a) ! i)"
  obtain x rtt where x: "ev_exchange E (rs_tick s) net ?host req = (x, rtt)" by fastforce
  show ?case
  proof (cases x)
    case (Inl err)
    show ?thesis
    proof (cases "strings_contains err ''no route to host'' \<and> net = ''udp''")
      case True
      from "1.prems" True Inl x 1(1) [OF refl refl x [symmetric] Inl True] show ?thesis
        by (subst (asm) exchange.simps) (auto simp: Let_def after_exchange_Done is_reply_tcp)
    next
      case False
      with Inl x "1.prems" show ?thesis by (subst (asm) exchange.simps) (auto simp: Let_def)
    qed
  next
    case (Inr resp)
    then have reply: "is_reply E net resp" using x unfolding is_reply_def by blast
    show ?thesis
    proof (cases "m_Rcode resp = RcodeFormatError \<and> IsEdns0 req \<noteq> None")
      case True
      then obtain opt where opt: "IsEdns0 req = Some opt" and fe: "m_Rcode resp = RcodeFormatError" by auto
      with "1.prems" Inr x have "is_OPT opt"
        by (subst (asm) exchange.simps) (auto simp: Let_def split: if_splits)
      with "1.prems" opt fe Inr x 1(2) [OF refl refl x [symmetric] Inr fe opt] show ?thesis
        by (subst (asm) exchange.simps)
          (auto simp: Let_def after_exchange_Done intro: same_req_trans [OF same_req_clearOPT])
    next
      case False
      with x Inr reply "1.prems" show ?thesis by (subst (asm) exchange.simps) (auto simp: Let_def split: option.splits)
    qed
  qed
qed

lemma lookup_loop_reply:
  "lookup_loop E net a n i req s = Done (r, req') s' \<Longrightarrow>
   same_req req req' \<and> (\<forall>resp. r = Inr resp \<longrightarrow> is_reply E net resp)"
proof (induction E net a n i req arbitrary: s rule: lookup_loop.induct)
  case (1 E net a n i req)
  from "1.prems" obtain x net1 req1 s1 where i: "\<not> n \<le> i" and x: "exchange E net a i req s = Done (x, net1, req1) s1"
    and k: "(case x of Inl err \<Rightarrow> if n - 1 = i then rret (Inl err, req1) else lookup_loop E net1 a n (Suc i) req1
         | Inr resp \<Rightarrow> if m_Rcode resp \<noteq> RcodeSuccess \<and> n - 1 \<noteq> i then lookup_loop E net1 a n (Suc i) req1
             else rret (Inr resp, req1)) s1 = Done (r, req') s'"
    by (subst (asm) lookup_loop.simps) (auto simp: run_simps elim!: rbind_DoneE split: if_splits)
  have e: "same_req req req1" "net = ''tcp'' \<Longrightarrow> net1 = ''tcp''"
    "\<And>resp. x = Inr resp \<Longrightarrow> is_reply E net resp" using exchange_reply [OF x] by auto
  have up: "is_reply E net1 resp \<Longrightarrow> is_reply E net resp" for resp using e(2) unfolding is_reply_def by blast
  show ?case
  proof (cases x)
    case (Inl err)
    with k 1(1) [OF i Inl] e up same_req_trans show ?thesis by (fastforce simp: run_simps split: if_splits)
  next
    case (Inr resp)
    with k 1(2) [OF i Inr] e up same_req_trans show ?thesis by (fastforce simp: run_simps split: if_splits)
  qed
qed

lemma lookup_reply:
  "lookup E Net req a s = Done (r, req') s' \<Longrightarrow>
   same_req req req' \<and> (\<forall>resp. r = Inr resp \<longrightarrow> is_reply E Net resp)"
  unfolding lookup_def by (auto elim!: rbind_DoneE dest: lookup_loop_reply)

section \<open>Validation\<close>

text \<open>A message whose signatures were checked: it is the root key set and verifyRootKeys accepts it, or
  there is a DS set that vouches for keys of some key message and verifyRRSIG accepts the message
  under these keys.\<close>

definition validated :: "renv \<Rightarrow> msg \<Rightarrow> bool" where
  "validated E m \<longleftrightarrow> (\<exists>now. verifyRootKeys (ev_crypto E) now (ev_rootkeys E) m = Ret True \<or>
     (\<exists>(km :: msg) keys ds. collect_keys (ev_crypto E) (m_Answer km) [] = Ret keys \<and> ds \<noteq> [] \<and>
        verifyDS (ev_crypto E) keys ds = Ret None \<and> verifyRRSIG (ev_crypto E) now keys m = Ret (Inr True)))"

lemma verifyRRSIG_cong: "signed_section m = signed_section m' \<Longrightarrow> verifyRRSIG cr now keys m = verifyRRSIG cr now keys m'"
  by (simp add: verifyRRSIG_def)

lemma validated_cong:
  assumes "validated E m" "m_Answer m \<noteq> []" "m_Answer m' = m_Answer m"
  shows "validated E m'"
proof -
  have "signed_section m' = signed_section m" using assms(2,3) by (simp add: signed_section_def)
  note sig = verifyRRSIG_cong [OF this]
  have "verifyRootKeys cr now rk m' = verifyRootKeys cr now rk m" for cr now rk
    by (simp add: verifyRootKeys_def Let_def sig assms(3) cong: if_cong)
  with assms(1) sig show ?thesis by (simp add: validated_def)
qed

lemma check_with_keys_True:
  "check_with_keys E key m resp ds s = Done (Inr True) s' \<Longrightarrow> validated E resp"
  unfolding check_with_keys_def validated_def
  by (auto simp: run_simps elim!: rbind_DoneE split: if_split_asm option.split_asm sum.split_asm) blast

lemma verifyDNSSEC_True:
  assumes "verifyDNSSEC E R Net signer resp ds s = Done (Inr True) s'"
  shows "validated E resp"
proof (cases "m_Question resp")
  case (Cons q qs)
  with assms show ?thesis
    unfolding verifyDNSSEC_def
    by (auto simp: run_simps Let_def elim!: rbind_DoneE split: if_split_asm sum.split_asm prod.split_asm dest!: check_with_keys_True)
       (auto simp: validated_def)
qed (use assms in \<open>auto simp: verifyDNSSEC_def run_simps Let_def elim!: rbind_DoneE\<close>)

lemma resolver_verify_True:
  "op_verifyDNSSEC (resolver E n) Net signer resp ds s = Done (Inr True) s' \<Longrightarrow> validated E resp"
  by (cases n) (auto simp: run_simps dest: verifyDNSSEC_True)

lemma finish_answer_sel [simp]:
  "m_AuthenticatedData (finish_answer req extra resp) = m_AuthenticatedData resp"
  "m_Answer (finish_answer req extra resp) = m_Answer resp"
  "m_Truncated (finish_answer req extra resp) = m_Truncated resp"
  by (simp_all add: finish_answer_def Let_def)

text \<open>What the flags of a returned message come from.\<close>

definition flags_from :: "renv \<Rightarrow> bool \<Rightarrow> msg \<Rightarrow> msg \<Rightarrow> bool" where
  "flags_from E cd m resp \<longleftrightarrow> m_Truncated m = m_Truncated resp \<and>
     (m_AuthenticatedData m = m_AuthenticatedData resp \<or> \<not> cd \<and> validated E m \<or> \<not> m_AuthenticatedData m)"

lemma resolve_answer_flags:
  assumes run: "resolve_answer E (resolver E n) Net req q resp ds extra s = Done (Inr m) s'" and ne: "m_Answer resp \<noteq> []"
  shows "flags_from E (m_CheckingDisabled req) m resp"
proof -
  from run have "m_Truncated m = m_Truncated resp \<and> m_Answer m = m_Answer resp \<and>
      (m_AuthenticatedData m = m_AuthenticatedData resp \<or> \<not> m_CheckingDisabled req \<and>
       (\<exists>signer ds' s1 s2. op_verifyDNSSEC (resolver E n) Net signer resp ds' s1 = Done (Inr (m_AuthenticatedData m)) s2))"
    unfolding resolve_answer_def
    by (auto simp: run_simps elim!: rbind_DoneE split: if_split_asm sum.split_asm prod.split_asm)
  then show ?thesis
    using validated_cong [OF resolver_verify_True ne] unfolding flags_from_def by (cases "m_AuthenticatedData m") auto
qed

text \<open>What \<^verbatim>\<open>resolve_authority\<close> returns: the response itself, with a glue record as its answer, or the result of
  asking the servers of the delegation.\<close>

lemma resolve_authority_Done:
  assumes "resolve_authority E R Net req q servers depth level nsl resp ds s = Done (Inr m, req') s'"
  shows "(\<exists>ans. m = resp\<lparr>m_Answer := ans\<rparr>) \<or>
    (\<exists>a level' ds' s1. 0 < depth \<and> op_Resolve R Net req a False (depth - 1) level' nsl ds' False s1 = Done (Inr m, req') s')"
proof -
  have same: "\<exists>ans. r = r\<lparr>m_Answer := ans\<rparr>" for r :: msg by (rule exI [of _ "m_Answer r"]) simp
  obtain nsrr nsmap where c: "collect_ns (m_Ns resp) (None, []) = (nsrr, nsmap)" by fastforce
  show ?thesis
  proof (cases nsrr)
    case None
    with assms c have "m = resp"
      by (auto simp: resolve_authority_def resolve_nodata_def run_simps Let_def elim!: rbind_DoneE
          split: if_split_asm list.split_asm option.split_asm)
    with same show ?thesis by simp
  next
    case (Some h)
    with assms c show ?thesis
      by (auto simp: resolve_authority_def descend_def run_simps Let_def not_le elim!: rbind_DoneE
          split: if_split_asm sum.split_asm; blast)
  qed
qed

lemma resolve_authority_req:
  assumes "resolve_authority E R Net req q servers depth level nsl resp ds s = Done (r, req') s'"
  shows "req' = req \<or> (\<exists>a level' ds' s1. op_Resolve R Net req a False (depth - 1) level' nsl ds' False s1 = Done (r, req') s')"
proof (cases "fst (collect_ns (m_Ns resp) (None, []))")
  case None
  with assms show ?thesis
    by (cases "collect_ns (m_Ns resp) (None, [])") (auto simp: resolve_authority_def run_simps elim!: rbind_DoneE)
next
  case (Some h)
  with assms show ?thesis
    by (cases "collect_ns (m_Ns resp) (None, [])")
      (auto simp: resolve_authority_def descend_def run_simps Let_def elim!: rbind_DoneE split: if_split_asm sum.split_asm; blast)
qed

lemma resolver_same_req:
  "op_Resolve (resolver E n) Net req a root depth level nsl ds extra s = Done (r, req') s' \<Longrightarrow> same_req req req'"
proof (induction n arbitrary: Net req a root depth level nsl ds extra s r req' s')
  case (Suc n)
  from Suc.prems obtain q qs where q: "m_Question req = q # qs" by (auto simp: Resolve_def run_simps split: list.split_asm)
  from Suc.prems obtain servers ds1 r1 req1 s1 s2 where
    l: "lookup E Net req servers s1 = Done (r1, req1) s2" and
    k: "(case r1 of Inl err \<Rightarrow> rret (Inl err, req1)
        | Inr resp \<Rightarrow> respond E (resolver E n) Net q servers depth level nsl ds1 extra req1 resp) s2 = Done (r, req') s'"
    by (auto simp: Resolve_respond [OF q] elim!: rbind_DoneE)
  have "same_req req1 req'"
    using k by (auto simp: respond_def run_simps elim!: rbind_DoneE split: sum.split_asm if_split_asm
        dest!: resolve_authority_req Suc.IH)
  with lookup_reply [OF l] same_req_trans show ?case by blast
qed (simp add: run_simps)

lemma resolve_empty_sel [simp]:
  "\<not> m_AuthenticatedData (resolve_empty req)" "\<not> m_Truncated (resolve_empty req)"
  by (simp_all add: resolve_empty_def SetRcode_def SetReply_def msg_zero_def Let_def split: list.split)

lemma resolver_flags:
  "op_Resolve (resolver E n) Net req a root depth level nsl ds extra s = Done (Inr m, req') s' \<Longrightarrow>
   (\<exists>resp. is_reply E Net resp \<and> flags_from E (m_CheckingDisabled req) m resp) \<or>
   \<not> m_Truncated m \<and> \<not> m_AuthenticatedData m"
proof (induction n arbitrary: Net req a root depth level nsl ds extra s m req' s')
  case (Suc n)
  from Suc.prems(1) obtain q qs where q: "m_Question req = q # qs" by (auto simp: Resolve_def run_simps split: list.split_asm)
  from Suc.prems(1) obtain servers ds1 resp req1 s1 s2 where
    l: "lookup E Net req servers s1 = Done (Inr resp, req1) s2" and
    k: "respond E (resolver E n) Net q servers depth level nsl ds1 extra req1 resp s2 = Done (Inr m, req') s'"
    by (auto simp: Resolve_respond [OF q] run_simps elim!: rbind_DoneE split: sum.split_asm)
  have cd: "m_CheckingDisabled req1 = m_CheckingDisabled req" and reply: "is_reply E Net resp" using lookup_reply [OF l] same_req_sel(1) by auto
  have ans: ?case if "flags_from E (m_CheckingDisabled req1) m (cleared resp)"
    using that reply cd by (auto simp: flags_from_def)
  have auth: ?case if "resolve_authority E (resolver E n) Net req1 q servers depth level nsl (cleared resp) ds1 s2 = Done (Inr m, req') s'"
    using resolve_authority_Done [OF that]
  proof (elim disjE exE conjE)
    show ?case if "m = cleared resp\<lparr>m_Answer := ans\<rparr>" for ans
      using reply that by (auto simp: flags_from_def)
    show ?case if "op_Resolve (resolver E n) Net req1 a False (depth - 1) level' nsl ds' False s1 = Done (Inr m, req') s'"
      for a level' ds' s1 using Suc.IH [OF that] unfolding cd .
  qed
  from k show ?case
    unfolding respond_def using ans auth reply resolve_answer_flags [of E n Net req1 q "cleared resp" ds1 extra s2 m]
    by (auto simp: run_simps flags_from_def elim!: rbind_DoneE split: if_split_asm)
qed (simp add: run_simps)

text \<open>C1. The AD flag is earned: when the servers do not set the flag themselves, a message that Resolve returns
  with the flag set answers a request without the CD flag, and its signatures were checked: it is
  the root key set and verifyRootKeys accepts it, or some nonempty DS set vouches for the keys of a
  key message and verifyRRSIG accepts the message under these keys.\<close>

theorem AD_only_after_validation:
  assumes "\<And>t net host req resp rtt. ev_exchange E t net host req = (Inr resp, rtt) \<Longrightarrow> \<not> m_AuthenticatedData resp"
    and "op_Resolve (resolver E n) Net req a root depth level nsl ds extra s = Done (Inr m, req') s'"
    and "m_AuthenticatedData m"
  shows "\<not> m_CheckingDisabled req \<and> (\<exists>now. verifyRootKeys (ev_crypto E) now (ev_rootkeys E) m = Ret True \<or>
     (\<exists>(km :: msg) keys ds. collect_keys (ev_crypto E) (m_Answer km) [] = Ret keys \<and> ds \<noteq> [] \<and>
        verifyDS (ev_crypto E) keys ds = Ret None \<and> verifyRRSIG (ev_crypto E) now keys m = Ret (Inr True)))"
  using resolver_flags [OF assms(2)] assms(1,3) unfolding flags_from_def is_reply_def validated_def by blast

definition demo_keys_reply :: "msg \<Rightarrow> msg" where
  "demo_keys_reply req = demo_root_answer\<lparr>m_Id := m_Id req,
     m_Question := [\<lparr>q_Name = ''x.'', q_Qtype = TypeDNSKEY, q_Qclass = ClassINET\<rparr>]\<rparr>"

definition demo_keys_env :: renv where
  "demo_keys_env = (demo_env demo_keys_reply)\<lparr>ev_clock := (\<lambda>_. 10 * second)\<rparr>"

lemma demo_keys_checks:
  "collect_keys demo_crypto (m_Answer demo_root_answer) [] = Ret demo_keys"
  "verifyDS demo_crypto demo_keys [RR (demo_header TypeDS) (DS_rd demo_ds)] = Ret None"
  "verifyRRSIG demo_crypto (10 * second) demo_keys demo_root_answer = Ret (Inr True)"
  "answer_signer ''x.'' (m_Answer demo_root_answer) = (''x.'', True)"
  by code_simp+

theorem AD_only_after_validation_witness:
  "\<exists>m req' s'. op_Resolve (resolver demo_keys_env 2) ''udp'' (demo_req TypeDNSKEY False) rootservers False 5 0 False
     [RR (demo_header TypeDS) (DS_rd demo_ds)] False demo_state = Done (Inr m, req') s' \<and> m_AuthenticatedData m \<and>
     (\<exists>now. verifyRootKeys demo_crypto now [RR (demo_header TypeDNSKEY) (DNSKEY_rd demo_dnskey)] m = Ret True \<or>
       (\<exists>(km :: msg) keys ds. collect_keys demo_crypto (m_Answer km) [] = Ret keys \<and> ds \<noteq> [] \<and>
          verifyDS demo_crypto keys ds = Ret None \<and> verifyRRSIG demo_crypto now keys m = Ret (Inr True)))"
proof -
  let ?E = demo_keys_env and ?req = "demo_req TypeDNSKEY False" and ?ds = "[RR (demo_header TypeDS) (DS_rd demo_ds)]"
  let ?q = "\<lparr>q_Name = ''x.'', q_Qtype = TypeDNSKEY, q_Qclass = ClassINET\<rparr>" and ?resp = "demo_keys_reply ?req"
  have resp: "m_Answer ?resp = m_Answer demo_root_answer" "m_Question ?resp = [?q]" "m_Rcode ?resp = RcodeSuccess"
      "\<not> m_Truncated ?resp" "m_Answer ?resp \<noteq> []"
    by (simp_all add: demo_keys_reply_def demo_root_answer_def msg_zero_def)
  obtain s1 where l: "lookup ?E ''udp'' ?req rootservers demo_state = Done (Inr ?resp, ?req) s1" "same_shape demo_state s1"
    using lookup_first [of ?E "''udp''" ?req "\<lambda>r. r = ?resp" rootservers demo_state] ref_ok_ne [OF demo_state_inv] resp(3)
    by (auto simp: demo_keys_env_def demo_env_def)
  then have "caches_empty s1"
    using caches_empty_shape [OF l(2)] by (auto simp: caches_empty_def demo_state_def new_state_def)
  then have ce: "caches_empty (s1\<lparr>rs_tick := k\<rparr>)" for k by (simp add: caches_empty_def)
  have sig: "verifyRRSIG demo_crypto (10 * second) demo_keys (relayed ?resp) = Ret (Inr True)"
    using demo_keys_checks(3) resp(1,5) verifyRRSIG_cong [of "relayed ?resp" demo_root_answer] by (simp add: signed_section_def)
  have E: "ev_crypto ?E = demo_crypto" "ev_clock ?E t = 10 * second" for t by (simp_all add: demo_keys_env_def demo_env_def)
  have cwk: "\<exists>s2. check_with_keys ?E key (relayed ?resp) (relayed ?resp) ?ds s = Done (Inr True) s2" for key s
    using demo_keys_checks(1,2) sig resp(1)
    by (simp add: check_with_keys_def rgo_def rbind_def rret_def rnow_def rtick_def E Qcache_Set_def rrnd_def del: verifyDS.simps)
       (simp add: demo_keys_def)
  obtain s2 where v: "verifyDNSSEC ?E (resolver ?E 0) ''udp'' ''x.'' (relayed ?resp) ?ds s1 = Done (Inr True) s2"
    using caches_empty_get(1) [OF ce, of ?E] cwk resp(2)
    by (fastforce simp: verifyDNSSEC_def new_query_def rrnd_def rtick_def rbind_def rret_def Let_def)
  have req: "\<not> m_CheckingDisabled ?req" "m_Question ?req = [?q]" by (simp_all add: demo_req_def msg_zero_def)
  have "to_lower ''x.'' = ''x.''" by code_simp
  then have sel: "ds_select ?E R ''udp'' ''x.'' ''x.'' True ?ds s = Done (Inr ?ds) s" for R s
    by (simp add: ds_select_def ds_chain_def rbind_def rret_def rgo_def demo_header_def)
  have "resolve_answer ?E (resolver ?E 1) ''udp'' ?req ?q (relayed ?resp) ?ds False s1 =
      Done (Inr (finish_answer ?req False (relayed ?resp\<lparr>m_AuthenticatedData := True\<rparr>))) s2"
    using v demo_keys_checks(4) resp(1) sel by (simp add: resolve_answer_def rbind_def rret_def req)
  then have run: "op_Resolve (resolver ?E 2) ''udp'' ?req rootservers False 5 0 False ?ds False demo_state =
      Done (Inr (finish_answer ?req False (relayed ?resp\<lparr>m_AuthenticatedData := True\<rparr>)), ?req) s2"
    using Resolve_answered [OF req(2) _ l(1) resp(4,3,5), of False rootservers ?ds demo_state ?ds "resolver ?E 1" 5 0 False False]
    by (simp add: start_servers_def rret_def rbind_def numeral_2_eq_2)
  have "\<not> m_AuthenticatedData resp" if "ev_exchange ?E t net host req = (Inr resp, rtt)" for t net host req resp rtt
    using that by (auto simp: demo_keys_env_def demo_env_def demo_keys_reply_def demo_root_answer_def msg_zero_def)
  from AD_only_after_validation [OF this run] run show ?thesis by (simp add: demo_keys_env_def demo_env_def)
qed

section \<open>A delegation that panics\<close>

lemma verifyNSEC_none:
  "list_all is_NSEC rs \<Longrightarrow> (\<forall>h nxt bm. RR h (NSEC_rd nxt bm) \<in> set rs \<longrightarrow> q_Qtype q \<notin> set bm) \<Longrightarrow>
   verifyNSEC q rs = Ret False"
  by (induction q rs rule: verifyNSEC.induct) (auto simp: list_ex_iff)

lemma delegation_ds_panics:
  assumes wf: "list_all rr_wf (m_Ns resp)" and no3: "\<forall>r \<in> set (m_Ns resp). rr_type r \<noteq> TypeNSEC3"
    and nsec: "r \<in> set (m_Ns resp)" "rr_type r = TypeNSEC" "to_lower (rr_name r) = nsname"
    and no: "\<forall>h nxt bm. RR h (NSEC_rd nxt bm) \<in> set (m_Ns resp) \<longrightarrow> q_Qtype q \<notin> set bm"
  shows "delegation_ds E nsname q resp = Panic nil_err"
proof -
  have a: "extractRRSet (m_Ns resp) [] [TypeNSEC3] = []"
    using no3 by (auto simp: extractRRSet_def filter_empty_conv)
  have b: "extractRRSet (m_Ns resp) nsname [TypeNSEC] \<noteq> []"
    using nsec by (auto simp: extractRRSet_def filter_empty_conv)
  have "list_all is_NSEC (extractRRSet (m_Ns resp) nsname [TypeNSEC])"
    by (rule wf_NSEC [OF wf])
  moreover have "\<forall>h nxt bm. RR h (NSEC_rd nxt bm) \<in> set (extractRRSet (m_Ns resp) nsname [TypeNSEC]) \<longrightarrow> q_Qtype q \<notin> set bm"
    using no by (auto simp: extractRRSet_def)
  ultimately have "verifyNSEC q (extractRRSet (m_Ns resp) nsname [TypeNSEC]) = Ret False" by (rule verifyNSEC_none)
  with a b show ?thesis by (simp add: delegation_ds_def)
qed

text \<open>C35. The denial of a DS by NSEC can stop the process: a delegation for a request without the CD flag, signed, under a non-empty
  DS set and with signatures that pass \<^verbatim>\<open>verifyDNSSEC\<close>, whose authority section is well formed, has no NSEC3 record and an
  NSEC record of the delegated zone, and whose NSEC records do not list the type NS, makes the validation panic, because the
  message that is logged takes its text from an error that is nil.\<close>

theorem delegation_nsec_panics:
  assumes "\<not> m_CheckingDisabled req" "first_signer (m_Ns resp) = (signer, True)"
    and "ds_select E R Net signer (q_Name q) (q_Qtype qreq \<noteq> TypeDS) parentdsrr s = Done (Inr ds) s1" "ds \<noteq> []"
    and "op_verifyDNSSEC R Net signer resp ds s1 = Done (Inr ok) s2"
    and "list_all rr_wf (m_Ns resp)" "\<forall>r \<in> set (m_Ns resp). rr_type r \<noteq> TypeNSEC3"
    and "r \<in> set (m_Ns resp)" "rr_type r = TypeNSEC" "to_lower (rr_name r) = q_Name q" "q_Qtype q = TypeNS"
    and "\<forall>h nxt bm. RR h (NSEC_rd nxt bm) \<in> set (m_Ns resp) \<longrightarrow> TypeNS \<notin> set bm"
  shows "validate_delegation E R Net req qreq q resp parentdsrr s = Crash nil_err"
proof -
  have "delegation_ds E (q_Name q) q resp = Panic nil_err"
    by (rule delegation_ds_panics [where r = r]) (use assms(6-12) in simp_all)
  with assms(1-5) show ?thesis by (simp add: validate_delegation_def rbind_def rgo_def rpanic_def)
qed

text \<open>A delegation of the zone \<^verbatim>\<open>x.\<close>, and a resolver that fetches and checks the keys of its signature.\<close>

definition demo_delegation :: msg where
  "demo_delegation = msg_zero\<lparr>m_Question := [\<lparr>q_Name = ''x.'', q_Qtype = TypeA, q_Qclass = ClassINET\<rparr>],
     m_Ns := [RR (demo_header TypeNS) (NS_rd ''ns.x.''), RR (demo_header TypeNSEC) (NSEC_rd ''y.'' [TypeA]),
       RR (demo_header TypeRRSIG) (RRSIG_rd (demo_sig ''x.'' 100 ''good'' TypeNS))]\<rparr>"

lemma demo_delegation_checks:
  "verifyRRSIG demo_crypto (10 * second) demo_keys demo_delegation = Ret (Inr True)"
  "list_all (\<lambda>r. rr_type r \<noteq> TypeNSEC3) (m_Ns demo_delegation)" "first_signer (m_Ns demo_delegation) = (''x.'', True)"
  "to_lower ''x.'' = ''x.''" "upperName ''x.'' = []"
  by code_simp+

lemma demo_keys_fetched:
  "\<exists>m s'. fetch_keys demo_keys_env (resolver demo_keys_env 1) ''udp'' q (demo_state\<lparr>rs_tick := k\<rparr>) = Done (Inr m) s' \<and>
    m_Answer m = m_Answer demo_root_answer"
  if "q = (SetEdns0 (SetQuestion i msg_zero ''x.'' TypeDNSKEY) 1536 True)\<lparr>m_RecursionDesired := True\<rparr>"
proof -
  let ?E = demo_keys_env
  let ?q = "\<lparr>q_Name = ''x.'', q_Qtype = TypeDNSKEY, q_Qclass = ClassINET\<rparr>" and ?resp = "demo_keys_reply q"
  have q: "m_Question q = [?q]" "\<not> m_CheckingDisabled q" by (simp_all add: that SetEdns0_def SetQuestion_def msg_zero_def)
  have get: "Ncache_Get ?E key (demo_state\<lparr>rs_tick := k\<rparr>) = Done (Inl ErrCacheNotFound) (demo_state\<lparr>rs_tick := Suc k\<rparr>)" for key k
    by (simp add: Ncache_Get_def rnow_def rtick_def rbind_def rret_def NSCache_Get_def demo_state_def new_state_def NewNSCache_def)
  have st: "start_servers ?E ?q False True rootservers [] (demo_state\<lparr>rs_tick := k\<rparr>) = Done (rootservers, []) (demo_state\<lparr>rs_tick := Suc k\<rparr>)"
    by (simp add: start_servers_def Let_def rbind_def get demo_delegation_checks(5) rret_def)
  have resp: "\<not> m_Truncated ?resp" "m_Rcode ?resp = RcodeSuccess" "m_Answer ?resp = m_Answer demo_root_answer" "m_Answer ?resp \<noteq> []"
    by (simp_all add: demo_keys_reply_def demo_root_answer_def msg_zero_def)
  have "servers_ne rootservers (demo_state\<lparr>rs_tick := Suc k\<rparr>)"
    using ref_ok_ne [OF demo_state_inv] by (simp add: servers_ne_def)
  then obtain s1 where l: "lookup ?E ''udp'' q rootservers (demo_state\<lparr>rs_tick := Suc k\<rparr>) = Done (Inr ?resp, q) s1"
    using lookup_first [of ?E "''udp''" q "\<lambda>r. r = ?resp"] resp(2) by (auto simp: demo_keys_env_def demo_env_def)
  have "resolve_answer ?E R ''udp'' q ?q (relayed ?resp) [] False s1 = Done (Inr (finish_answer q False (relayed ?resp))) s1" for R
    using demo_keys_checks(4) resp(3) q(2) by (simp add: resolve_answer_def ds_select_def rbind_def rret_def)
  then have "op_Resolve (resolver ?E 1) ''udp'' q rootservers True depth 0 False [] False (demo_state\<lparr>rs_tick := k\<rparr>) =
      Done (Inr (finish_answer q False (relayed ?resp)), q) s1" for depth
    using Resolve_answered [OF q(1) _ l resp(1,2,4), of True rootservers "[]" "demo_state\<lparr>rs_tick := k\<rparr>" "[]" "resolver ?E 0" depth 0 False False] st q(2)
    by (simp add: rbind_def rret_def)
  with resp show ?thesis by (simp add: fetch_keys_def rbind_def rret_def finish_answer_def)
qed

lemma demo_delegation_verified:
  "\<exists>s'. op_verifyDNSSEC (resolver demo_keys_env 2) ''udp'' ''x.'' demo_delegation [RR (demo_header TypeDS) (DS_rd demo_ds)] demo_state =
     Done (Inr True) s'"
proof -
  let ?E = demo_keys_env and ?ds = "[RR (demo_header TypeDS) (DS_rd demo_ds)]"
  have E: "ev_crypto ?E = demo_crypto" "ev_clock ?E t = 10 * second" for t by (simp_all add: demo_keys_env_def demo_env_def)
  have ce: "caches_empty (demo_state\<lparr>rs_tick := k\<rparr>)" for k by (auto simp: caches_empty_def demo_state_def new_state_def)
  have cwk: "\<exists>s2. check_with_keys ?E key m demo_delegation ?ds s = Done (Inr True) s2" if "m_Answer m = m_Answer demo_root_answer" for key m s
    using demo_keys_checks(1,2) demo_delegation_checks(1) that
    by (simp add: check_with_keys_def rgo_def rbind_def rret_def rnow_def rtick_def E Qcache_Set_def rrnd_def del: verifyDS.simps)
       (simp add: demo_keys_def)
  have op: "op_verifyDNSSEC (resolver ?E 2) = verifyDNSSEC ?E (resolver ?E 1)" by (simp add: numeral_2_eq_2)
  define q where "q = (SetEdns0 (SetQuestion (of_nat (ev_rnd ?E (rs_tick demo_state))) msg_zero ''x.'' TypeDNSKEY) 1536 True)\<lparr>m_RecursionDesired := True\<rparr>"
  have nq: "new_query ?E ''x.'' TypeDNSKEY demo_state = Done q (demo_state\<lparr>rs_tick := Suc (rs_tick demo_state)\<rparr>)"
    by (simp add: new_query_def rrnd_def rtick_def rbind_def rret_def q_def)
  obtain m s1 where f: "fetch_keys ?E (resolver ?E 1) ''udp'' q (demo_state\<lparr>rs_tick := Suc (Suc (rs_tick demo_state))\<rparr>) = Done (Inr m) s1"
      "m_Answer m = m_Answer demo_root_answer"
    using demo_keys_fetched [OF q_def] by blast
  obtain s2 where "check_with_keys ?E (Hash (hd (m_Question q)) []) m demo_delegation ?ds s1 = Done (Inr True) s2" using cwk [OF f(2)] by blast
  moreover have "m_Question demo_delegation = [\<lparr>q_Name = ''x.'', q_Qtype = TypeA, q_Qclass = ClassINET\<rparr>]" by (simp add: demo_delegation_def)
  ultimately show ?thesis
    unfolding op verifyDNSSEC_def using caches_empty_get(1) [OF ce, of ?E] nq f(1)
    by (simp add: rbind_def rret_def Let_def del: One_nat_def)
qed

theorem delegation_nsec_panics_witness:
  "validate_delegation demo_keys_env (resolver demo_keys_env 2) ''udp'' (demo_req TypeA False)
     \<lparr>q_Name = ''x.'', q_Qtype = TypeA, q_Qclass = ClassINET\<rparr> \<lparr>q_Name = ''x.'', q_Qtype = TypeNS, q_Qclass = ClassINET\<rparr>
     demo_delegation [RR (demo_header TypeDS) (DS_rd demo_ds)] demo_state = Crash nil_err"
proof -
  let ?ds = "[RR (demo_header TypeDS) (DS_rd demo_ds)]"
  obtain s' where v: "op_verifyDNSSEC (resolver demo_keys_env 2) ''udp'' ''x.'' demo_delegation ?ds demo_state = Done (Inr True) s'"
    using demo_delegation_verified by blast
  have sel: "ds_select demo_keys_env R ''udp'' ''x.'' ''x.'' True ?ds s = Done (Inr ?ds) s" for R s
    using demo_delegation_checks(4) by (simp add: ds_select_def ds_chain_def rbind_def rret_def rgo_def demo_header_def)
  show ?thesis
    by (rule delegation_nsec_panics [OF _ demo_delegation_checks(3) _ _ v, where r = "RR (demo_header TypeNSEC) (NSEC_rd ''y.'' [TypeA])"])
      (use sel demo_delegation_checks(2,4) in \<open>simp_all add: demo_req_def list_all_iff\<close>,
       auto simp: demo_delegation_def demo_header_def rr_wf_def msg_zero_def)
qed

end
