(* ===== verification/Resolver_Term.thy ===== *)
theory Resolver_Term
  imports Resolver_AD
begin

text \<open>
  Termination of the resolver: the walk of \<^verbatim>\<open>searchCache\<close> to the closest cached zone ends, requests
  with checking disabled end within a fuel that grows with the depth limit, and the retry of
  \<^verbatim>\<open>lookupDS\<close> over TCP does not end when the answer over TCP is truncated too.
\<close>

section \<open>The closest cached zone\<close>

definition ns_live :: "renv \<Rightarrow> rstate \<Rightarrow> nat \<Rightarrow> u64 \<Rightarrow> ns_entry \<Rightarrow> bool" where
  "ns_live E s t key e \<longleftrightarrow> gmap_get (nc_m (rs_Ncache s)) key = Some e \<and>
     elapsed_sec (trunc_sec (ev_clock E t)) (ns_UpdateTime e) < ns_TTL e"

definition zone_key :: "question \<Rightarrow> bool \<Rightarrow> nat \<Rightarrow> u64" where
  "zone_key q cd j = Hash (q\<lparr>q_Qtype := TypeNS, q_Name := (upperName ^^ j) (q_Name q)\<rparr>) [cd]"

lemma Ncache_Get_cases:
  obtains (hit) e e' s' where "Ncache_Get E key s = Done (Inr e') s'" "ns_live E s (rs_tick s) key e"
      "ns_Servers e' = ns_Servers e" "ns_DSRR e' = ns_DSRR e"
  | (miss) err s' where "Ncache_Get E key s = Done (Inl err) s'" "\<And>e. \<not> ns_live E s (rs_tick s) key e"
      "rs_tick s' = Suc (rs_tick s)" "nc_m (rs_Ncache s') = gmap_del key (nc_m (rs_Ncache s))"
proof (cases "gmap_get (nc_m (rs_Ncache s)) key")
  case None
  with miss show thesis
    by (simp add: Ncache_Get_def rnow_def rtick_def rbind_def rret_def NSCache_Get_def ns_live_def gmap_del_absent)
next
  case (Some e)
  show thesis
  proof (cases "elapsed_sec (trunc_sec (ev_clock E (rs_tick s))) (ns_UpdateTime e) < ns_TTL e")
    case True
    then have "\<not> ns_TTL e \<le> elapsed_sec (trunc_sec (ev_clock E (rs_tick s))) (ns_UpdateTime e)" by simp
    with True Some hit [of _ _ e] show thesis
      by (simp add: Ncache_Get_def rnow_def rtick_def rbind_def rret_def NSCache_Get_def ns_live_def Let_def)
  next
    case False
    then have "ns_TTL e \<le> elapsed_sec (trunc_sec (ev_clock E (rs_tick s))) (ns_UpdateTime e)" by simp
    with False Some miss show thesis
      by (force simp add: Ncache_Get_def rnow_def rtick_def rbind_def rret_def NSCache_Get_def ns_live_def Let_def
          NSCache_Remove_def)
  qed
qed

lemma zone_key_Suc: "zone_key q cd (Suc j) = zone_key (q\<lparr>q_Qtype := TypeNS, q_Name := upperName (q_Name q)\<rparr>) cd j"
  by (simp add: zone_key_def funpow_swap1)

definition closest :: "renv \<Rightarrow> question \<Rightarrow> bool \<Rightarrow> rstate \<Rightarrow> server_ref \<times> rr list \<Rightarrow> nat \<Rightarrow> bool" where
  "closest E q cd s r k \<longleftrightarrow>
     (\<forall>j<k. \<exists>t\<ge>rs_tick s. t \<le> rs_tick s + j \<and> (\<forall>e. \<not> ns_live E s t (zone_key q cd j) e)) \<and>
     (r = (rootservers, []) \<and> (upperName ^^ k) (q_Name q) = [] \<or>
      (\<exists>e. ns_live E s (rs_tick s + k) (zone_key q cd k) e \<and> r = (ns_Servers e, ns_DSRR e)))"

lemma closest_step:
  assumes miss: "\<And>e. \<not> ns_live E s (rs_tick s) (zone_key q cd 0) e"
    and s': "rs_tick s' = Suc (rs_tick s)" "nc_m (rs_Ncache s') = gmap_del (zone_key q cd 0) (nc_m (rs_Ncache s))"
    and c: "closest E (q\<lparr>q_Qtype := TypeNS, q_Name := upperName (q_Name q)\<rparr>) cd s' r k"
  shows "closest E q cd s r (Suc k)"
proof -
  have live: "ns_live E s' t key e \<longleftrightarrow> key \<noteq> zone_key q cd 0 \<and> ns_live E s t key e" for t key e
    by (simp add: ns_live_def s'(2))
  have "\<exists>t\<ge>rs_tick s. t \<le> rs_tick s + j \<and> (\<forall>e. \<not> ns_live E s t (zone_key q cd j) e)" if "j < Suc k" for j
  proof (cases j)
    case 0
    with miss show ?thesis by auto
  next
    case (Suc i)
    with that c obtain t where t: "Suc (rs_tick s) \<le> t" "t \<le> Suc (rs_tick s) + i"
      "\<forall>e. \<not> ns_live E s' t (zone_key q cd j) e"
      by (auto simp: closest_def s'(1) zone_key_Suc)
    then show ?thesis using miss Suc unfolding live
      by (cases "zone_key q cd j = zone_key q cd 0") (auto intro: exI [of _ t] exI [of _ "rs_tick s"])
  qed
  moreover have "(upperName ^^ k) (upperName (q_Name q)) = (upperName ^^ Suc k) (q_Name q)"
    by (simp add: funpow_swap1)
  ultimately show ?thesis using c
    by (auto simp: closest_def live s'(1) zone_key_Suc)
qed

lemma searchCache_closest_ex:
  "length (q_Name q) < fuel \<Longrightarrow> q_Name q = [] \<or> IsFqdn (q_Name q) \<Longrightarrow>
   \<exists>r s' k. searchCache E fuel q cd s = Done r s' \<and> closest E q cd s r k"
proof (induction fuel arbitrary: q s)
  case (Suc fuel)
  let ?q = "q\<lparr>q_Qtype := TypeNS, q_Name := upperName (q_Name q)\<rparr>"
  have key: "Hash (q\<lparr>q_Qtype := TypeNS\<rparr>) [cd] = zone_key q cd 0" by (simp add: zone_key_def)
  show ?case
  proof (cases rule: Ncache_Get_cases [of E "zone_key q cd 0" s])
    case (hit e e' s')
    then show ?thesis
      by (auto simp: key rbind_def rret_def closest_def Let_def intro!: exI [of _ 0])
  next
    case (miss err s')
    have run: "searchCache E (Suc fuel) q cd s =
        (if upperName (q_Name q) = [] then Done (rootservers, []) s' else searchCache E fuel ?q cd s')"
      using miss(1) by (simp add: key rbind_def rret_def Let_def)
    show ?thesis
    proof (cases "upperName (q_Name q) = []")
      case True
      then have "closest E ?q cd s' (rootservers, []) 0" by (simp add: closest_def)
      from closest_step [OF miss(2-4) this] run True show ?thesis by auto
    next
      case False
      with Suc.prems(2) have "IsFqdn (q_Name q)" by (auto simp: upperName_def)
      then have "dot \<in> set (q_Name q)" using last_in_set [of "q_Name q"] by (auto simp: IsFqdn_def)
      with upperName_length upperName_fqdn [OF \<open>IsFqdn (q_Name q)\<close>] False Suc.prems(1)
      have "length (q_Name ?q) < fuel" "IsFqdn (q_Name ?q)" by fastforce+
      with Suc.IH [of ?q s'] obtain r s'' k where "searchCache E fuel ?q cd s' = Done r s''" "closest E ?q cd s' r k"
        by blast
      with closest_step [OF miss(2-4), of r k] run False show ?thesis by (metis (no_types))
    qed
  qed
qed simp

text \<open>C13. The search for the closest cached zone ends: for a name that is empty or ends in a dot (on others the walk may not end),
  searchCache returns within as many calls as the name has characters, plus one. It returns the
  servers and DS records of an entry that is live when it is read, under the key of the name cut some number of times by
  upperName, and each longer cut had no live entry when it was tried; when no
  cut is cached it returns the root servers and no DS records. upperName cuts at dots, escaped ones included, so for a name
  with an escaped dot some cuts are not ancestors.\<close>

theorem searchCache_closest:
  assumes "q_Name q = [] \<or> IsFqdn (q_Name q)"
  shows "\<exists>r s' k. searchCache E (Suc (length (q_Name q))) q cd s = Done r s' \<and>
    (\<forall>j<k. \<exists>t\<ge>rs_tick s. t \<le> rs_tick s + j \<and> (\<forall>e. \<not> ns_live E s t (zone_key q cd j) e)) \<and>
    (r = (rootservers, []) \<and> (upperName ^^ k) (q_Name q) = [] \<or>
     (\<exists>e. ns_live E s (rs_tick s + k) (zone_key q cd k) e \<and> r = (ns_Servers e, ns_DSRR e)))"
  using searchCache_closest_ex [of q "Suc (length (q_Name q))" E cd s] assms by (simp add: closest_def)

theorem searchCache_closest_witness:
  "\<exists>s'. searchCache (demo_env (demo_reply [])) 3 \<lparr>q_Name = ''x.'', q_Qtype = TypeA, q_Qclass = ClassINET\<rparr> False demo_state =
     Done (rootservers, []) s'"
proof -
  have none: "\<not> ns_live E demo_state t key e" for E t key e
    by (simp add: ns_live_def demo_state_def new_state_def NewNSCache_def)
  from searchCache_closest [of "\<lparr>q_Name = ''x.'', q_Qtype = TypeA, q_Qclass = ClassINET\<rparr>" "demo_env (demo_reply [])" False demo_state]
  show ?thesis by (auto simp: IsFqdn_def none numeral_3_eq_3 simp del: searchCache.simps)
qed

section \<open>A retry that never ends\<close>



section \<open>Requests with checking disabled end\<close>

lemma rbind_StuckE:
  assumes "rbind m f s = Stuck"
  obtains "m s = Stuck" | x s1 where "m s = Done x s1" "f x s1 = Stuck"
  using assms by (auto simp: rbind_def split: outcome.splits)

lemma ns_simple [simp]:
  "rret x s \<noteq> Stuck" "rpanic w s \<noteq> Stuck" "rgo g s \<noteq> Stuck" "rget f s \<noteq> Stuck" "rnow E s \<noteq> Stuck" "rrnd E s \<noteq> Stuck"
  "alloc_servers hosts s \<noteq> Stuck" "Lqueue_Add key s \<noteq> Stuck" "Lqueue_Done key s \<noteq> Stuck" "try_sort E a s \<noteq> Stuck"
  by (simp_all add: rret_def rpanic_def rgo_def rget_def rnow_def rrnd_def rtick_def rbind_def alloc_servers_def Lqueue_Add_def
      Lqueue_Done_def try_sort_def split: go.split)

lemma ns_caches [simp]:
  "Qcache_Get E key m s \<noteq> Stuck" "Qcache_Set E key m s \<noteq> Stuck" "Ecache_Get E key s \<noteq> Stuck" "Ecache_Set E key s \<noteq> Stuck"
  "Ncache_Get E key s \<noteq> Stuck" "Ncache_Set E key ds ttl a s \<noteq> Stuck"
  by (simp_all add: Qcache_Get_def Qcache_Set_def Ecache_Get_def Ecache_Set_def Ncache_Get_def Ncache_Set_def rnow_def rrnd_def
      rtick_def rbind_def rret_def split: prod.split)

lemma ns_exchange [simp]: "exchange E net a i req s \<noteq> Stuck"
proof (induction E net a i req s rule: exchange.induct)
  case (1 E net a i req s)
  have after: "after_exchange f r = Stuck \<longleftrightarrow> r = Stuck" for f and r :: "((rerr + msg) \<times> string \<times> msg, rstate) outcome"
    by (cases r) auto
  show ?case by (subst exchange.simps) (auto simp: Let_def after 1 split: prod.split sum.split option.split)
qed

lemma ns_lookup [simp]: "lookup E Net req a s \<noteq> Stuck"
proof -
  have "lookup_loop E net a n i req s \<noteq> Stuck" for net n i req s
  proof (induction E net a n i req arbitrary: s rule: lookup_loop.induct)
    case (1 E net a n i req)
    then show ?case
      by (subst lookup_loop.simps) (auto elim!: rbind_StuckE split: sum.split_asm if_split_asm)
  qed
  then show ?thesis unfolding lookup_def by (auto elim!: rbind_StuckE)
qed

lemma ns_new_query [simp]: "new_query E name t s \<noteq> Stuck"
  by (auto simp: new_query_def elim!: rbind_StuckE)

lemma ns_start:
  assumes "root \<Longrightarrow> q_Name q = [] \<or> IsFqdn (q_Name q)"
  shows "start_servers E q cd root a ds s \<noteq> Stuck"
  using assms searchCache_closest_ex [of q "Suc (length (q_Name q))" E cd s]
  by (auto simp: start_servers_def simp del: searchCache.simps)

text \<open>The servers return only absolute names in NS records, or an empty one for a record without data, as unpacked
  messages have them, and no truncated message over TCP.\<close>

abbreviation absolute :: "string \<Rightarrow> bool" where
  "absolute n \<equiv> n = [] \<or> IsFqdn n"

definition fq_env :: "renv \<Rightarrow> bool" where
  "fq_env E \<longleftrightarrow> (\<forall>t net host req resp rtt. ev_exchange E t net host req = (Inr resp, rtt) \<longrightarrow>
     (\<forall>h n. RR h (NS_rd n) \<in> set (m_Ns resp) \<longrightarrow> absolute n) \<and> (net = ''tcp'' \<longrightarrow> \<not> m_Truncated resp))"

lemma fq_env_reply:
  assumes "fq_env E" "is_reply E Net resp"
  shows "RR h (NS_rd n) \<in> set (m_Ns resp) \<Longrightarrow> absolute n" "Net = ''tcp'' \<Longrightarrow> \<not> m_Truncated resp"
  using assms unfolding fq_env_def is_reply_def by blast+

lemma absolute_lower: "absolute n \<Longrightarrow> absolute (to_lower n)"
  by (auto simp: IsFqdn_def to_lower_def last_map)

lemma gmap_set_fst: "fst ` set (gmap_set k v m) = insert k (fst ` set m)"
  using gmap_keys_set [of k v m] by simp

lemma collect_ns_keys:
  "collect_ns rs acc = (x, nsmap) \<Longrightarrow> k \<in> fst ` set nsmap \<Longrightarrow>
   k \<in> fst ` set (snd acc) \<or> (\<exists>h n. RR h (NS_rd n) \<in> set rs \<and> k = to_lower n)"
proof (induction rs acc arbitrary: x nsmap rule: collect_ns.induct)
  case (2 h ns rs nsrr nsmap0)
  from 2(1) [of x nsmap] 2(2,3) show ?case by (auto simp: gmap_set_fst)
qed auto

lemma glue_keys: "glue nsl qn rs nsmap = Inr nsmap' \<Longrightarrow> fst ` set nsmap' = fst ` set nsmap"
proof (induction nsl qn rs nsmap rule: glue.induct)
  case (2 nsl qname h a rs nsmap)
  have "insert k (fst ` set nsmap) = fst ` set nsmap" if "gmap_get nsmap k \<noteq> None" for k
    using that gmap_get_some_key [of nsmap k] by auto
  with 2 show ?case by (simp add: gmap_set_fst Let_def split: if_split_asm)
qed auto

lemma lookup_servers_ns:
  "(\<And>k s. k \<in> fst ` set ns \<Longrightarrow> op_lookupNSAddr R Net k depth cd s \<noteq> Stuck) \<Longrightarrow>
   lookup_servers E R Net depth cd ns nservers s \<noteq> Stuck"
proof (induction ns arbitrary: nservers s)
  case (Cons p ns)
  obtain k a where p: "p = (k, a)" by fastforce
  have "op_lookupNSAddr R Net k depth cd s \<noteq> Stuck" using Cons.prems p by simp
  moreover have "lookup_servers E R Net depth cd ns nservers' s' \<noteq> Stuck" for nservers' s'
    using Cons.IH Cons.prems by simp
  ultimately show ?case by (auto simp: p elim!: rbind_StuckE)
qed simp

lemma find_servers_ns:
  assumes "\<And>k s. k \<in> fst ` set nsmap \<Longrightarrow> op_lookupNSAddr R Net k depth cd s \<noteq> Stuck"
  shows "find_servers E R Net depth cd key ttl nsmap s \<noteq> Stuck"
proof -
  have "lookup_servers E R Net depth cd (perm_by r nsmap) nservers s \<noteq> Stuck" for r nservers s
    by (rule lookup_servers_ns) (use assms in simp)
  then show ?thesis
    by (auto simp: find_servers_def Let_def elim!: rbind_StuckE split: if_split_asm)
qed

lemma resolve_authority_ns:
  assumes cd: "m_CheckingDisabled req"
    and ns: "\<And>h n. RR h (NS_rd n) \<in> set (m_Ns resp) \<Longrightarrow> absolute n"
    and res: "\<And>a level ds s. 0 < depth \<Longrightarrow> op_Resolve R Net req a False (depth - 1) level nsl ds False s \<noteq> Stuck"
    and addr: "\<And>k s. absolute k \<Longrightarrow> op_lookupNSAddr R Net k depth True s \<noteq> Stuck"
  shows "resolve_authority E R Net req q servers depth level nsl resp ds s \<noteq> Stuck"
proof -
  obtain nsrr nsmap where c: "collect_ns (m_Ns resp) (None, []) = (nsrr, nsmap)" by fastforce
  have "find_servers E R Net depth True key ttl nsmap' s \<noteq> Stuck"
    if "glue nsl (q_Name q) (m_Extra resp) nsmap = Inr nsmap'" for key ttl nsmap' s
  proof (rule find_servers_ns)
    fix k s
    assume "k \<in> fst ` set nsmap'"
    with glue_keys [OF that] collect_ns_keys [OF c, of k] obtain h n where "RR h (NS_rd n) \<in> set (m_Ns resp)" "k = to_lower n" by auto
    with ns absolute_lower [of n] have "absolute k" by blast
    then show "op_lookupNSAddr R Net k depth True s \<noteq> Stuck" by (rule addr)
  qed
  then show ?thesis using cd res
    by (cases nsrr)
      (auto simp: resolve_authority_def descend_def c resolve_nodata_def validate_delegation_def Let_def not_le elim!: rbind_StuckE
        split: if_split_asm sum.split_asm list.split_asm option.split_asm)
qed

lemma Resolve_ns:
  assumes E: "fq_env E" and cd: "m_CheckingDisabled req" and q: "m_Question req = q # qs"
    and fq: "root \<Longrightarrow> absolute (q_Name q)"
    and res: "\<And>req' a level ds s. 0 < depth \<Longrightarrow> m_CheckingDisabled req' \<Longrightarrow> m_Question req' = q # qs \<Longrightarrow>
      op_Resolve R Net req' a False (depth - 1) level nsl ds False s \<noteq> Stuck"
    and addr: "\<And>k s. absolute k \<Longrightarrow> op_lookupNSAddr R Net k depth True s \<noteq> Stuck"
  shows "Resolve E R Net req a root depth level nsl ds extra s \<noteq> Stuck"
proof -
  have "respond E R Net q servers depth level nsl ds' extra req1 resp s2 \<noteq> Stuck"
    if l: "lookup E Net req servers s1 = Done (Inr resp, req1) s2" for servers ds' req1 resp s1 s2
  proof -
    have r: "m_CheckingDisabled req1" "is_reply E Net resp" using lookup_reply [OF l] cd same_req_sel(1) by auto
    have "m_Question req1 = q # qs" using lookup_reply [OF l] q same_req_sel(2) by auto
    with r(1) res have "\<And>a level ds s. 0 < depth \<Longrightarrow> op_Resolve R Net req1 a False (depth - 1) level nsl ds False s \<noteq> Stuck" by blast
    moreover have "RR h (NS_rd n) \<in> set (m_Ns (cleared resp)) \<Longrightarrow> absolute n" for h n using fq_env_reply(1) [OF E r(2)] by simp
    ultimately have "resolve_authority E R Net req1 q servers depth level nsl (cleared resp) ds' s2 \<noteq> Stuck"
      by (intro resolve_authority_ns r(1) addr) auto
    then show ?thesis using r(1)
      by (auto simp: respond_def resolve_negative_def resolve_answer_def Let_def elim!: rbind_StuckE split: if_split_asm)
  qed
  then show ?thesis
    using ns_start [of root q E "m_CheckingDisabled req" a ds s] fq
    by (auto simp: Resolve_respond [OF q] elim!: rbind_StuckE split: sum.split_asm)
qed

lemma nsaddr_ns:
  assumes E: "fq_env E"
    and trunc: "\<And>req' m req1 s s1. op_Resolve R Net req' rootservers True (depth - 1) 0 True [] False s = Done (Inr m, req1) s1 \<Longrightarrow>
      m_Truncated m \<Longrightarrow> Net \<noteq> ''tcp''"
    and res: "\<And>req' s. 0 < depth \<Longrightarrow> m_CheckingDisabled req' \<Longrightarrow>
      m_Question req' = [\<lparr>q_Name = ns, q_Qtype = TypeA, q_Qclass = ClassINET\<rparr>] \<Longrightarrow>
      op_Resolve R Net req' rootservers True (depth - 1) 0 True [] False s \<noteq> Stuck"
    and tcp: "\<And>s. 0 < depth \<Longrightarrow> Net \<noteq> ''tcp'' \<Longrightarrow> op_lookupNSAddr R ''tcp'' ns depth True s \<noteq> Stuck"
  shows "lookupNSAddr E R Net ns depth True s \<noteq> Stuck"
proof -
  have fb: "try_fallback E Net req r s \<noteq> Stuck" for req r s
    by (auto simp: try_fallback_def elim!: rbind_StuckE split: if_split_asm)
  have nt: "Net \<noteq> ''tcp''" if "try_fallback E Net req (Inl err) s = Done (Inr m, req1) s1" "m_Truncated m" for req err s m req1 s1
    using that lookup_reply [of E Net req fallbackservers s "Inr m" req1] fq_env_reply(2) [OF E, of Net m]
    by (auto simp: try_fallback_def run_simps rget_def elim!: rbind_DoneE split: if_split_asm dest: lookup_reply)
  have "nsaddr_resolve E R Net req ns key depth True s \<noteq> Stuck"
    if req: "m_CheckingDisabled req" "m_Question req = [\<lparr>q_Name = ns, q_Qtype = TypeA, q_Qclass = ClassINET\<rparr>]" for req key s
    using res [OF _ req] trunc tcp fb nt
    by (auto simp: nsaddr_resolve_def nsaddr_answer_def not_le run_simps elim!: rbind_StuckE
        split: if_split_asm sum.split_asm option.split_asm)
  then show ?thesis
    by (auto simp: lookupNSAddr_def new_query_def SetQuestion_def SetEdns0_def Let_def run_simps elim!: rbind_StuckE rbind_DoneE
        split: if_split_asm sum.split_asm option.split_asm prod.split_asm)
qed

lemma resolver_trunc:
  assumes "fq_env E" "op_Resolve (resolver E n) Net req a root depth level nsl ds extra s = Done (Inr m, req1) s1" "m_Truncated m"
  shows "Net \<noteq> ''tcp''"
  using resolver_flags [OF assms(2)] assms(3) fq_env_reply(2) [OF assms(1)] by (auto simp: flags_from_def)

lemma resolver_Suc_sel:
  "op_Resolve (resolver E (Suc n)) = Resolve E (resolver E n)"
  "op_lookupNSAddr (resolver E (Suc n)) = lookupNSAddr E (resolver E n)"
  by simp_all

lemma resolver_ends:
  assumes E: "fq_env E"
  shows "nat depth \<le> d \<Longrightarrow> 3 * d + 2 \<le> n \<Longrightarrow> m_CheckingDisabled req \<Longrightarrow> m_Question req = q # qs \<Longrightarrow>
     (root \<Longrightarrow> absolute (q_Name q)) \<Longrightarrow>
     op_Resolve (resolver E n) Net req a root depth level nsl ds extra s \<noteq> Stuck"
proof (induction d arbitrary: depth n req q qs Net a root level nsl ds extra s)
  case 0
  define k where "k = n - 2"
  have n: "n = Suc (Suc k)" using 0(2) by (simp add: k_def)
  from 0 have "\<not> 0 < depth" by simp
  have addr: "lookupNSAddr E (resolver E k) Net ns depth True s' \<noteq> Stuck" for ns s'
    by (rule nsaddr_ns [OF E resolver_trunc [OF E]]) (use \<open>\<not> 0 < depth\<close> in simp_all)
  show ?case unfolding n resolver_Suc_sel
    by (rule Resolve_ns [OF E 0(3,4)]) (use 0(5) addr \<open>\<not> 0 < depth\<close> in \<open>simp_all only: resolver_Suc_sel simp_thms\<close>)
next
  case (Suc d)
  define k where "k = n - 4"
  have n: "n = Suc (Suc (Suc (Suc k)))" and k: "3 * d + 1 \<le> k" using Suc.prems(2) by (simp_all add: k_def)
  have res: "op_Resolve (resolver E m) Net' req' a' root' (depth - 1) level' nsl' ds' extra' s' \<noteq> Stuck"
    if "3 * d + 2 \<le> m" "m_CheckingDisabled req'" "m_Question req' = q' # qs'" "root' \<Longrightarrow> absolute (q_Name q')"
    for m Net' req' a' root' level' nsl' ds' extra' s' q' qs'
    by (rule Suc.IH [OF _ that]) (use Suc.prems(1) in simp_all)
  have addr: "lookupNSAddr E (resolver E m) Net' ns depth True s' \<noteq> Stuck"
    if "absolute ns" "3 * d + 2 \<le> m" "Net' \<noteq> ''tcp'' \<Longrightarrow> \<forall>s. op_lookupNSAddr (resolver E m) ''tcp'' ns depth True s \<noteq> Stuck"
    for m Net' ns s'
    by (rule nsaddr_ns [OF E resolver_trunc [OF E] res]) (use that in auto)
  have "lookupNSAddr E (resolver E (Suc k)) ''tcp'' ns depth True s' \<noteq> Stuck" if "absolute ns" for ns s'
    by (rule addr) (use that k in simp_all)
  note tcp = this
  have "lookupNSAddr E (resolver E (Suc (Suc k))) Net ns depth True s' \<noteq> Stuck" if "absolute ns" for ns s'
    by (rule addr) (use that k tcp in \<open>simp_all del: resolver.simps add: resolver_Suc_sel\<close>)
  note udp = this
  have step: "Resolve E (resolver E (Suc (Suc k))) Net req' a' False (depth - 1) level' nsl ds' False s' \<noteq> Stuck"
    if "m_CheckingDisabled req'" "m_Question req' = q # qs" for req' a' level' ds' s'
    unfolding resolver_Suc_sel [symmetric] by (rule res [OF _ that]) (use k in simp_all)
  show ?case unfolding n resolver_Suc_sel
    by (rule Resolve_ns [OF E Suc.prems(3,4)])
      (use Suc.prems(5) udp step in \<open>simp_all del: resolver.simps add: resolver_Suc_sel\<close>)
qed

text \<open>C12. Requests with checking disabled end: when the servers send absolute or empty names in NS records and no
  truncated message over TCP, Resolve with the CD flag and depth \<open>d\<close> returns or panics within \<open>3 d + 2\<close> nested calls, on every
  state and from every list of servers. Each level of the recursion costs a call of Resolve, one of lookupNSAddr
  and the repetition of that one over TCP.\<close>

theorem Resolve_cd_ends:
  assumes "fq_env E" "m_CheckingDisabled req" "m_Question req = q # qs" "absolute (q_Name q)"
    and "3 * nat depth + 2 \<le> n"
  shows "op_Resolve (resolver E n) Net req a root depth level nsl ds extra s \<noteq> Stuck"
  by (rule resolver_ends [OF assms(1) order_refl assms(5,2,3,4)])

theorem Resolve_cd_ends_witness:
  "op_Resolve (resolver (demo_env (demo_reply [demo_a])) 17) ''udp'' (demo_req TypeA True) rootservers True 5 0 False [] False
     demo_state \<noteq> Stuck"
  by (rule Resolve_cd_ends [where q = "\<lparr>q_Name = ''x.'', q_Qtype = TypeA, q_Qclass = ClassINET\<rparr>" and qs = "[]"])
    (simp_all add: fq_env_def demo_env_def demo_reply_def demo_req_def msg_zero_def IsFqdn_def)

end
