(* ===== verification/Handler.thy ===== *)
theory Handler
  imports Resolver Block_Cache
begin

text \<open>
  The request handler (\<^verbatim>\<open>handler.go\<close>): \<open>handle\<close>, \<open>query\<close>, \<open>additionalAnswer\<close>, \<open>handleFailed\<close>,
  \<open>writeReplyMsg\<close>. The handler runs over the state of the resolver.

  The OPT object of the client is shared: the handler keeps a pointer to it, the request and the
  answer of the resolver hold it as well, and its DO flag is changed after the answer was built. The
  object has the identity \<open>1\<close>; \<open>upd_client\<close> changes it wherever a message holds it, and the variable \<open>opt\<close>
  is the handler's own view of it.

  The access list, the parser of the HINFO text and the block list are fields of the configuration record.
  \<^verbatim>\<open>Lqueue.Wait\<close> blocks until another request for the same key has ended or ten seconds have passed; it
  changes nothing, so here it takes one tick. Its interleavings are those of the lookup queue's step relation.
\<close>

record hconf =
  hc_RateLimit :: int
  hc_Expire :: u32
  hc_Nullroute :: ip
  hc_Nullroutev6 :: ip
  hc_debugns :: bool
  hc_NewRR :: "string \<Rightarrow> rr option"
  hc_BlockList :: block_cache
  hc_AccessList :: "string \<Rightarrow> bool"

section \<open>The OPT record of the client\<close>

fun is_client :: "rr \<Rightarrow> bool" where
  "is_client (RR h (OPT_rd i os)) = (i = 1)"
| "is_client _ = False"

definition upd_client :: "(rr \<Rightarrow> rr) \<Rightarrow> msg \<Rightarrow> msg" where
  "upd_client f m = m\<lparr>m_Extra := map (\<lambda>r. if is_client r then f r else r) (m_Extra m)\<rparr>"

text \<open>The object with the identity of the client's OPT record and the given options.\<close>

definition opt_setOption :: "edns0 list \<Rightarrow> rr \<Rightarrow> rr" where
  "opt_setOption ops r = RR (Header r) (OPT_rd 1 ops)"

fun opt_Option :: "rr \<Rightarrow> edns0 list" where
  "opt_Option (RR h (OPT_rd i os)) = os"
| "opt_Option _ = []"

section \<open>Replies\<close>

definition handleFailed :: "msg \<Rightarrow> int \<Rightarrow> bool \<Rightarrow> msg" where
  "handleFailed req rcode dsf =
     upd_Edns0 (opt_SetDo dsf)
       ((SetRcode (msg_zero\<lparr>m_Extra := m_Extra req\<rparr>) req rcode)\<lparr>m_RecursionAvailable := True\<rparr>)"

text \<open>
  The first part of \<^verbatim>\<open>query\<close>: an unknown EDNS version is refused; otherwise the request gets an OPT record of
  the resolver's size with the DO flag and at most the client subnet options, and the result says
  whether the client had set the flag.
\<close>

definition edns_prepare :: "msg \<Rightarrow> (msg + rr \<times> msg \<times> bool) go" where
  "edns_prepare req0 =
     (let req = req0\<lparr>m_Extra := map rr_Copy (m_Extra req0)\<rparr>
      in case IsEdns0 req of
           None \<Rightarrow>
             let opt = opt_SetDo True (opt_SetUDPSize DefaultMsgSize (new_OPT 1))
             in Ret (Inr (opt, req\<lparr>m_Extra := m_Extra req @ [opt]\<rparr>, False))
         | Some r \<Rightarrow>
             if \<not> is_OPT r then Panic ''interface conversion''
             else let opt = opt_SetUDPSize DefaultMsgSize r
                  in if opt_Version opt \<noteq> 0
                     then Ret (Inl (handleFailed
                            (upd_Edns0 (\<lambda>_. opt_SetExtendedRcode 16 (opt_SetVersion 0 opt)) req) RcodeBadVers False))
                     else let subnets = filter (\<lambda>p. edns_Option p = 8) (opt_Option opt);
                              opt1 = opt_SetDo True (rr_setTtl 0 (opt_setOption subnets opt))
                          in Ret (Inr (opt1, upd_Edns0 (\<lambda>_. opt1) req, opt_Do opt)))"

text \<open>The end of \<^verbatim>\<open>query\<close>: without the DO flag the DNSSEC records go, and the OPT record is the client's.\<close>

definition finish_reply :: "rr \<Rightarrow> bool \<Rightarrow> msg \<Rightarrow> msg" where
  "finish_reply opt dsReq m =
     (let m1 = (if dsReq then m else clearDNSSEC m); m2 = clearOPT m1
      in m2\<lparr>m_Extra := m_Extra m2 @ [opt_SetDo dsReq opt]\<rparr>)"

section \<open>Following CNAME records\<close>

text \<open>The last CNAME target of a section; a CNAME header on another Go type panics.\<close>

fun last_cname :: "rr list \<Rightarrow> string option \<Rightarrow> string option go" where
  "last_cname [] acc = Ret acc"
| "last_cname (r # rs) acc =
     (if rr_type r = TypeCNAME
      then case Rdata r of CNAME_rd target \<Rightarrow> last_cname rs (Some target) | _ \<Rightarrow> Panic ''interface conversion''
      else last_cname rs acc)"

definition append_answers :: "rr list \<Rightarrow> msg \<Rightarrow> msg" where
  "append_answers rs m = m\<lparr>m_Answer := m_Answer m @ map rr_Copy rs\<rparr>"

text \<open>
  One round per question, five at most. The result of a round is the message and the next target.
\<close>

definition cname_round :: "renv \<Rightarrow> resolver_ops \<Rightarrow> string \<Rightarrow> msg \<Rightarrow> msg \<Rightarrow> (msg \<times> msg \<times> string option) rm" where
  "cname_round E R proto cnameReq m =
     (case m_Question cnameReq of
        [] \<Rightarrow> rpanic ''index out of range''
      | q # _ \<Rightarrow>
          let key = Hash q [m_CheckingDisabled cnameReq]
          in rbind (Qcache_Get E key cnameReq)
               (\<lambda>c. case c of
                  Inr (respCname, _) \<Rightarrow>
                    rbind (rgo (last_cname (m_Answer respCname) None))
                      (\<lambda>next. rret (append_answers (m_Answer respCname) m, cnameReq, next))
                | Inl _ \<Rightarrow>
                    rbind (op_Resolve R proto cnameReq rootservers True (ev_Maxdepth E) 0 False [] False)
                      (\<lambda>(r, cnameReq1). case r of
                         Inl err \<Rightarrow> rret (m, cnameReq1, None)
                       | Inr respCname \<Rightarrow>
                           if m_Answer respCname = [] then rret (m, cnameReq1, None)
                           else rbind (rgo (last_cname (m_Answer respCname) None))
                                  (\<lambda>next. rbind (Qcache_Set E key respCname)
                                     (\<lambda>_. rret (append_answers (m_Answer respCname) m, cnameReq1, next))))))"

fun cname_loop :: "nat \<Rightarrow> renv \<Rightarrow> resolver_ops \<Rightarrow> string \<Rightarrow> msg \<Rightarrow> msg \<Rightarrow> msg rm" where
  "cname_loop 0 E R proto cnameReq m = rret m"
| "cname_loop (Suc n) E R proto cnameReq m =
     rbind (cname_round E R proto cnameReq m)
       (\<lambda>(m1, cnameReq1, next). case next of
          None \<Rightarrow> rret m1
        | Some target \<Rightarrow>
            cname_loop n E R proto
              (cnameReq1\<lparr>m_Question := map (\<lambda>q. q\<lparr>q_Name := target\<rparr>) (m_Question cnameReq1)\<rparr>) m1)"

definition additionalAnswer :: "renv \<Rightarrow> resolver_ops \<Rightarrow> string \<Rightarrow> msg \<Rightarrow> msg \<Rightarrow> msg rm" where
  "additionalAnswer E R proto req m =
     (if m_Answer m = [] then rret m
      else case m_Question req of
        [] \<Rightarrow> rpanic ''index out of range''
      | q # _ \<Rightarrow>
          let answerFound = list_ex (\<lambda>r. rr_type r = q_Qtype q) (m_Answer m) \<and> (q_Qtype q = TypeA \<or> q_Qtype q = TypeAAAA)
          in rbind (rgo (last_cname (m_Answer m) None))
               (\<lambda>target. case target of
                  None \<Rightarrow> rret m
                | Some name \<Rightarrow>
                    rbind (rrnd E)
                      (\<lambda>ident. let cnameReq = SetQuestion (of_nat ident)
                             ((SetEdns0 msg_zero DefaultMsgSize True)
                                \<lparr>m_RecursionDesired := True, m_CheckingDisabled := m_CheckingDisabled req\<rparr>)
                             name (q_Qtype q)
                       in if answerFound then rret m else cname_loop 5 E R proto cnameReq m)))"

section \<open>Debug replies\<close>

text \<open>One HINFO record per server. \<^verbatim>\<open>String\<close> writes the count of a server it has not asked yet.\<close>

definition server_hinfos :: "string \<Rightarrow> u32 \<Rightarrow> server_ref \<Rightarrow> rr list rm" where
  "server_hinfos name ttl a =
     (\<lambda>s. let strings = map AuthServer_String (as_List (rs_heap s ! a));
              header = \<lparr>rh_Name = name, rh_Rrtype = TypeHINFO, rh_Class = ClassINET, rh_Ttl = ttl\<rparr>
          in Done (map (\<lambda>(str, _). RR header (HINFO_rd ''ns'' str)) strings)
               (s\<lparr>rs_heap := (rs_heap s)[a := (rs_heap s ! a)\<lparr>as_List := map snd strings\<rparr>]\<rparr>))"

definition debug_reply :: "renv \<Rightarrow> question \<Rightarrow> msg \<Rightarrow> msg rm" where
  "debug_reply E q req =
     (let m = (SetReply msg_zero req)\<lparr>m_AuthenticatedData := True, m_Authoritative := False, m_RecursionAvailable := True\<rparr>
      in if q_Name q = rootzone
         then rbind (server_hinfos (q_Name q) 0 rootservers) (\<lambda>rs. rret (m\<lparr>m_Ns := m_Ns m @ rs\<rparr>))
         else rbind (Ncache_Get E (Hash \<lparr>q_Name = q_Name q, q_Qtype = TypeNS, q_Qclass = ClassINET\<rparr> []))
                (\<lambda>c. case c of
                   Inl _ \<Rightarrow> rret m
                 | Inr ns \<Rightarrow>
                     rbind (server_hinfos (q_Name q) (ns_TTL ns) (ns_Servers ns)) (\<lambda>rs. rret (m\<lparr>m_Ns := m_Ns m @ rs\<rparr>))))"

section \<open>Blocked names\<close>

definition blocked_reply :: "hconf \<Rightarrow> question \<Rightarrow> msg \<Rightarrow> msg" where
  "blocked_reply C q req =
     (let header = \<lparr>rh_Name = q_Name q, rh_Rrtype = q_Qtype q, rh_Class = ClassINET, rh_Ttl = hc_Expire C\<rparr>;
          rd = (if q_Qtype q = TypeA then A_rd (hc_Nullroute C) else AAAA_rd (hc_Nullroutev6 C))
      in (SetReply msg_zero req)\<lparr>m_Answer := [RR header rd], m_AuthenticatedData := True, m_Authoritative := False,
            m_RecursionAvailable := True\<rparr>)"

section \<open>Query\<close>

definition Lqueue_Wait :: "renv \<Rightarrow> u64 \<Rightarrow> unit rm" where
  "Lqueue_Wait E key = rbind (rnow E) (\<lambda>_. rret ())"

definition Qcache_Limit :: "renv \<Rightarrow> u64 \<Rightarrow> bool rm" where
  "Qcache_Limit E key =
     rbind (rnow E) (\<lambda>now s. case QueryCache_Limit now key (rs_Qcache s) of
       (b, c) \<Rightarrow> Done b (s\<lparr>rs_Qcache := c\<rparr>))"

text \<open>A cache hit.\<close>

definition query_hit ::
  "renv \<Rightarrow> hconf \<Rightarrow> resolver_ops \<Rightarrow> string \<Rightarrow> u64 \<Rightarrow> rr \<Rightarrow> bool \<Rightarrow> msg \<Rightarrow> msg \<Rightarrow> msg rm" where
  "query_hit E C R resolverProto key opt dsReq req mesg =
     rbind (if hc_RateLimit C > 0 then Qcache_Limit E key else rret False)
       (\<lambda>limited. if limited then rret (handleFailed req RcodeServerFailure dsReq)
          else rbind (additionalAnswer E R resolverProto req (mesg\<lparr>m_Id := m_Id req\<rparr>))
                 (\<lambda>m. rret (finish_reply opt dsReq m)))"

text \<open>
  The text of the HINFO record for an empty answer, and the authority section after it: \<open>None\<close> when the
  parser returns no record, for then the section has a nil record that \<^verbatim>\<open>Qcache.Set\<close> fails to copy.
\<close>

definition hinfo_text :: "hconf \<Rightarrow> string \<Rightarrow> string" where
  "hinfo_text C name = name @ '' '' @ itoa (unat (hc_Expire C)) @
     '' IN HINFO comment '' @ [CHR 0x22] @ ''no answer found on authoritative server'' @ [CHR 0x22]"

definition add_hinfo :: "hconf \<Rightarrow> string \<Rightarrow> msg \<Rightarrow> msg option" where
  "add_hinfo C name mesg =
     (if m_Rcode mesg = RcodeSuccess \<and> m_Answer mesg = [] \<and> m_Ns mesg = []
      then map_option (\<lambda>r. mesg\<lparr>m_Ns := [r]\<rparr>) (hc_NewRR C (hinfo_text C name))
      else Some mesg)"

definition default_expire :: "hconf \<Rightarrow> msg \<Rightarrow> msg" where
  "default_expire C mesg =
     (if m_Rcode mesg = RcodeNameError then mesg\<lparr>m_Ns := map (rr_setTtl (hc_Expire C)) (m_Ns mesg)\<rparr> else mesg)"

text \<open>The answer of the resolver, once it is not truncated.\<close>

definition query_answer ::
  "renv \<Rightarrow> hconf \<Rightarrow> resolver_ops \<Rightarrow> string \<Rightarrow> u64 \<Rightarrow> rr \<Rightarrow> bool \<Rightarrow> msg \<Rightarrow> question \<Rightarrow> msg \<Rightarrow> msg rm" where
  "query_answer E C R resolverProto key opt dsReq req q mesg0 =
     (case add_hinfo C (q_Name q) mesg0 of
        None \<Rightarrow> rbind (additionalAnswer E R resolverProto req mesg0) (\<lambda>_. rpanic nil_deref)
      | Some mesg1 \<Rightarrow>
          let mesg = default_expire C mesg1
          in if m_Rcode mesg \<noteq> RcodeSuccess \<and> m_Answer mesg = [] \<and> m_Ns mesg = []
             then rbind (Ecache_Set E key) (\<lambda>_. rret (handleFailed req (m_Rcode mesg) dsReq))
             else rbind (additionalAnswer E R resolverProto req mesg)
                    (\<lambda>m. rbind (Qcache_Set E key (upd_client (opt_SetDo dsReq) mesg))
                       (\<lambda>_. rret (finish_reply opt dsReq m))))"

text \<open>Between \<^verbatim>\<open>Lqueue.Add\<close> and the deferred \<^verbatim>\<open>Lqueue.Done\<close>; \<open>again\<close> is the call of \<^verbatim>\<open>query\<close> over TCP.\<close>

definition query_resolve ::
  "renv \<Rightarrow> hconf \<Rightarrow> resolver_ops \<Rightarrow> (string \<Rightarrow> msg \<Rightarrow> msg rm) \<Rightarrow> string \<Rightarrow> string \<Rightarrow> u64 \<Rightarrow> rr \<Rightarrow> bool \<Rightarrow> msg \<Rightarrow> question \<Rightarrow> msg rm" where
  "query_resolve E C R again proto resolverProto key opt dsReq req0 q =
     rbind (op_Resolve R resolverProto req0 rootservers True (ev_Maxdepth E) 0 False [] False)
       (\<lambda>(r, req). case r of
          Inl err \<Rightarrow> rbind (Ecache_Set E key) (\<lambda>_. rret (handleFailed req RcodeServerFailure dsReq))
        | Inr mesg \<Rightarrow>
            if m_Truncated mesg \<and> proto = ''udp'' then rret mesg
            else if m_Truncated mesg \<and> proto = ''https''
            then rbind (Lqueue_Done key) (\<lambda>_. again ''tcp'' (upd_client (opt_SetDo dsReq) req))
            else query_answer E C R resolverProto key opt dsReq req q mesg)"

definition query_miss ::
  "renv \<Rightarrow> hconf \<Rightarrow> resolver_ops \<Rightarrow> (string \<Rightarrow> msg \<Rightarrow> msg rm) \<Rightarrow> string \<Rightarrow> string \<Rightarrow> u64 \<Rightarrow> rr \<Rightarrow> bool \<Rightarrow> msg \<Rightarrow> question \<Rightarrow> msg rm" where
  "query_miss E C R again proto resolverProto key opt dsReq req q =
     rbind (Ecache_Get E key)
       (\<lambda>e. if e = None then rret (handleFailed req RcodeServerFailure dsReq)
            else if (q_Qtype q = TypeA \<or> q_Qtype q = TypeAAAA) \<and> BlockCache_Exists (q_Name q) (hc_BlockList C)
            then rbind (Qcache_Set E key (blocked_reply C q req)) (\<lambda>_. rret (blocked_reply C q req))
            else rbind (Lqueue_Add key)
                   (\<lambda>_. rbind (query_resolve E C R again proto resolverProto key opt dsReq req q)
                      (\<lambda>m. rbind (Lqueue_Done key) (\<lambda>_. rret m))))"

definition query_step ::
  "renv \<Rightarrow> hconf \<Rightarrow> resolver_ops \<Rightarrow> (string \<Rightarrow> msg \<Rightarrow> msg rm) \<Rightarrow> string \<Rightarrow> msg \<Rightarrow> msg rm" where
  "query_step E C R again proto req0 =
     (case m_Question req0 of
        [] \<Rightarrow> rpanic ''index out of range''
      | q # _ \<Rightarrow>
          rbind (rgo (edns_prepare req0))
            (\<lambda>p. case p of
               Inl failed \<Rightarrow> rret failed
             | Inr (opt, req, dsReq) \<Rightarrow>
                 let resolverProto = (if proto = ''https'' then ''udp'' else proto)
                 in if q_Qtype q = TypeANY then rret (handleFailed req RcodeNotImplemented dsReq)
                    else if hc_debugns C \<and> q_Qtype q = TypeHINFO then debug_reply E q req
                    else if q_Name q \<noteq> rootzone \<and> \<not> m_RecursionDesired req
                    then rret (handleFailed req RcodeServerFailure dsReq)
                    else let key = Hash q [m_CheckingDisabled req]
                         in rbind (Lqueue_Wait E key)
                              (\<lambda>_. rbind (Qcache_Get E key req)
                                 (\<lambda>c. case c of
                                    Inr (mesg, _) \<Rightarrow> query_hit E C R resolverProto key opt dsReq req mesg
                                  | Inl _ \<Rightarrow> query_miss E C R again proto resolverProto key opt dsReq req q))))"

text \<open>The call over TCP does not repeat itself: only \<^verbatim>\<open>https\<close> retries.\<close>

definition query :: "renv \<Rightarrow> hconf \<Rightarrow> resolver_ops \<Rightarrow> string \<Rightarrow> msg \<Rightarrow> msg rm" where
  "query E C R proto req = query_step E C R (query_step E C R (\<lambda>_ _. rstuck)) proto req"

section \<open>Handle\<close>

text \<open>
  A request with its writer: \<open>None\<close> when there is no writer, otherwise the remote address. The result is the
  message that was written, if any; a failure of the write is only logged.
\<close>

definition remoteAddr :: "string option \<Rightarrow> string" where
  "remoteAddr w = (case w of None \<Rightarrow> [] | Some addr \<Rightarrow> addr)"

definition writeReplyMsg :: "string option \<Rightarrow> msg \<Rightarrow> msg option" where
  "writeReplyMsg w m = (case w of None \<Rightarrow> None | Some _ \<Rightarrow> Some m)"

definition handle :: "renv \<Rightarrow> hconf \<Rightarrow> resolver_ops \<Rightarrow> string \<Rightarrow> string option \<Rightarrow> msg \<Rightarrow> msg option rm" where
  "handle E C R proto w req =
     (let client = fst (SplitHostPort (remoteAddr w))
      in if \<not> hc_AccessList C client then rret None
         else rbind (query E C R proto req) (\<lambda>m. rret (writeReplyMsg w m)))"

end
