(* ===== verification/Handler_Contract.thy ===== *)
theory Handler_Contract
  imports Handler Resolver_Contract
begin

text \<open>
  The handler under the resolver's contract: every request with a question is answered with a well-formed message that
  carries its identifier unless it is truncated, and the invariant of the resolver holds after it, whatever was
  served before.
\<close>

definition reply_ok :: "msg \<Rightarrow> msg \<Rightarrow> bool" where
  "reply_ok req m \<longleftrightarrow> ans_ok (m_Id req) m"

text \<open>What the handler's own changes leave of a message.\<close>

definition keeps :: "msg \<Rightarrow> msg \<Rightarrow> bool" where
  "keeps m m' \<longleftrightarrow> msg_wf m' \<and> m_Id m' = m_Id m \<and> m_Truncated m' = m_Truncated m"

lemma keeps_ans_ok: "keeps m m' \<Longrightarrow> ans_ok i m \<Longrightarrow> ans_ok i m'"
  by (auto simp: keeps_def ans_ok_def)

text \<open>The data of a record that \<^verbatim>\<open>dns.NewRR\<close> returns are of the Go type for the type in its header: the parser (\<^verbatim>\<open>setRR\<close> of \<^verbatim>\<open>scan_rr.go\<close>)
  chooses the Go type by that number, and makes generic data of the types it has no entry for (OPT is one, and \<open>rr_wf\<close> leaves it
  open). Which texts it accepts and what records it makes of them is left open: the text begins with the question's name, which
  a JSON request may fill with anything.\<close>

definition parser_typed :: "hconf \<Rightarrow> bool" where
  "parser_typed C \<longleftrightarrow> (\<forall>s r. hc_NewRR C s = Some r \<longrightarrow> rr_wf r)"

section \<open>Triples of the handler\<close>

text \<open>As \<open>vldt\<close>, with one more panic: \<^verbatim>\<open>query\<close> drops the error of \<^verbatim>\<open>dns.NewRR\<close> and goes on with a nil record.\<close>

definition hvld :: "int \<Rightarrow> 'a rm \<Rightarrow> ('a \<Rightarrow> bool) \<Rightarrow> bool" where
  "hvld N m Q \<longleftrightarrow>
     (\<forall>s. rinv N s \<longrightarrow>
        (case m s of Done x s' \<Rightarrow> rinv N s' \<and> Q x | Crash w \<Rightarrow> crash_ok w \<or> w = nil_deref | Stuck \<Rightarrow> True))"

lemma hvldD:
  "hvld N m Q \<Longrightarrow> rinv N s \<Longrightarrow> case m s of Done x s' \<Rightarrow> rinv N s' \<and> Q x | Crash w \<Rightarrow> crash_ok w \<or> w = nil_deref | Stuck \<Rightarrow> True"
  by (simp add: hvld_def)

lemma hvld_lift: "vldt N m Q \<Longrightarrow> hvld N m Q"
  by (fastforce simp: vld_def hvld_def split: outcome.splits)

lemma hvld_ret [simp]: "Q x \<Longrightarrow> hvld N (rret x) Q"
  by (rule hvld_lift) (rule vldt_ret)

lemma hvld_nil [simp]: "hvld N (rpanic nil_deref) Q"
  by (simp add: hvld_def rpanic_def)

lemma hvld_if: "(b \<Longrightarrow> hvld N m Q) \<Longrightarrow> (\<not> b \<Longrightarrow> hvld N m' Q) \<Longrightarrow> hvld N (if b then m else m') Q"
  by simp

lemma hvld_weaken: "hvld N m Q' \<Longrightarrow> (\<And>x. Q' x \<Longrightarrow> Q x) \<Longrightarrow> hvld N m Q"
  by (fastforce simp: hvld_def split: outcome.splits)

lemma hvld_bind:
  assumes "hvld N m Q" and "\<And>x. Q x \<Longrightarrow> hvld N (f x) S"
  shows "hvld N (rbind m f) S"
  unfolding hvld_def
proof (intro allI impI)
  fix s
  assume s: "rinv N s"
  show "case rbind m f s of Done x s' \<Rightarrow> rinv N s' \<and> S x | Crash w \<Rightarrow> crash_ok w \<or> w = nil_deref | Stuck \<Rightarrow> True"
    using hvldD [OF assms(1) s] hvldD [OF assms(2)] by (cases "m s") (simp_all add: rbind_def)
qed

lemmas hvld_vbind = hvld_bind [OF hvld_lift]

section \<open>Messages\<close>

lemma rr_wf_opt [simp]:
  "rr_wf (opt_SetDo d r) = rr_wf r" "rr_wf (opt_SetVersion v r) = rr_wf r" "rr_wf (opt_SetExtendedRcode x r) = rr_wf r"
  "rr_wf (opt_SetUDPSize n r) = rr_wf r"
  by (auto simp: opt_SetDo_def opt_SetVersion_def opt_SetExtendedRcode_def opt_SetUDPSize_def rr_wf_def rr_setTtl_def split: option.split)

lemma is_OPT_opt [simp]:
  "is_OPT (opt_SetDo d r) = is_OPT r" "is_OPT (opt_SetVersion v r) = is_OPT r" "is_OPT (opt_SetExtendedRcode x r) = is_OPT r"
  "is_OPT (opt_SetUDPSize n r) = is_OPT r" "is_OPT (rr_setTtl t r) = is_OPT r"
  by (cases r; cases "Rdata r"; simp add: opt_SetDo_def opt_SetVersion_def opt_SetExtendedRcode_def opt_SetUDPSize_def rr_setTtl_def)+

lemma extra_wf_opt [simp]:
  "extra_wf (opt_SetDo d r) = extra_wf r" "extra_wf (opt_SetVersion v r) = extra_wf r" "extra_wf (opt_SetExtendedRcode x r) = extra_wf r"
  "extra_wf (opt_SetUDPSize n r) = extra_wf r" "extra_wf (rr_setTtl t r) = extra_wf r"
  by (simp_all add: extra_wf_def)

lemma list_all_upd_last: "(\<And>r. rr_type r = TypeOPT \<Longrightarrow> P r \<Longrightarrow> P (f r)) \<Longrightarrow> list_all P rs \<Longrightarrow> list_all P (upd_last_opt f rs)"
  by (induction f rs rule: upd_last_opt.induct) auto

lemma SetReply_sel [simp]:
  "m_Id (SetReply d req) = m_Id req" "m_Extra (SetReply d req) = m_Extra d" "m_Answer (SetReply d req) = m_Answer d"
  "m_Ns (SetReply d req) = m_Ns d" "m_Question req \<noteq> [] \<Longrightarrow> m_Question (SetReply d req) = [hd (m_Question req)]"
  by (auto simp: SetReply_def Let_def split: list.split)

lemma SetRcode_sel [simp]:
  "m_Id (SetRcode d req rc) = m_Id req" "m_Extra (SetRcode d req rc) = m_Extra d" "m_Answer (SetRcode d req rc) = m_Answer d"
  "m_Ns (SetRcode d req rc) = m_Ns d" "m_Question req \<noteq> [] \<Longrightarrow> m_Question (SetRcode d req rc) = [hd (m_Question req)]"
  "m_Rcode (SetRcode d req rc) = rc"
  by (simp_all add: SetRcode_def)

lemma handleFailed_ok: "req_ok req \<Longrightarrow> reply_ok req (handleFailed req rcode dsf)"
  by (simp add: reply_ok_def ans_ok_def handleFailed_def upd_Edns0_def req_ok_def msg_wf_def msg_zero_def list_all_upd_last)

lemma edns_prepare_ok:
  assumes "req_ok req0"
  shows "\<exists>p. edns_prepare req0 = Ret p \<and> (case p of
      Inl m \<Rightarrow> reply_ok req0 m
    | Inr (opt, req, dsReq) \<Rightarrow> req_ok req \<and> m_Id req = m_Id req0 \<and> m_Question req = m_Question req0 \<and> extra_wf opt \<and> is_OPT opt)"
proof -
  define req where "req = req0\<lparr>m_Extra := map rr_Copy (m_Extra req0)\<rparr>"
  have ok: "req_ok req" "m_Id req = m_Id req0" "m_Question req = m_Question req0"
    using assms by (simp_all add: req_def req_ok_def msg_wf_def list_all_iff)
  have upd: "req_ok (upd_Edns0 (\<lambda>_. o') req)" if "extra_wf o'" for o'
    using that ok by (auto simp: upd_Edns0_def req_ok_def msg_wf_def intro!: list_all_upd_last)
  show ?thesis
  proof (cases "IsEdns0 req")
    case None
    then show ?thesis using ok
      by (simp add: edns_prepare_def req_def [symmetric] Let_def req_ok_def msg_wf_def)
         (simp add: new_OPT_def extra_wf_def rr_wf_def opt_SetDo_def opt_SetUDPSize_def rr_setTtl_def)
  next
    case (Some r)
    have r: "extra_wf r" "is_OPT r" "rr_type r = TypeOPT"
      using Some ok by (auto simp: IsEdns0_def req_ok_def msg_wf_def list_all_iff is_OPT_type dest!: last_opt_Some)
    have o1: "extra_wf (opt_setOption ops (opt_SetUDPSize DefaultMsgSize r))" for ops
      using r(3) by (simp add: extra_wf_def rr_wf_def opt_setOption_def opt_SetUDPSize_def)
    show ?thesis
    proof (cases "opt_Version (opt_SetUDPSize DefaultMsgSize r) = 0")
      case True
      with Some r ok upd [of "opt_SetDo True (rr_setTtl 0 (opt_setOption ops (opt_SetUDPSize DefaultMsgSize r)))" for ops] o1
      show ?thesis
        by (simp add: edns_prepare_def req_def [symmetric] Let_def) (simp add: upd_Edns0_def opt_setOption_def opt_SetDo_def rr_setTtl_def)
    next
      case False
      let ?o = "opt_SetExtendedRcode 16 (opt_SetVersion 0 (opt_SetUDPSize DefaultMsgSize r))"
      have "reply_ok (upd_Edns0 (\<lambda>_. ?o) req) (handleFailed (upd_Edns0 (\<lambda>_. ?o) req) RcodeBadVers False)"
        using r upd by (intro handleFailed_ok) simp
      with False Some r ok show ?thesis
        by (simp add: edns_prepare_def req_def [symmetric] Let_def reply_ok_def upd_Edns0_def)
    qed
  qed
qed

lemma finish_reply_ok:
  assumes "msg_wf m" "extra_wf opt"
  shows "keeps m (finish_reply opt dsReq m)"
  using assms by (auto simp: keeps_def finish_reply_def Let_def msg_wf_def clearOPT_def clearDNSSEC_def list_all_iff)

lemma last_cname_Ret: "list_all rr_wf rs \<Longrightarrow> \<exists>t. last_cname rs acc = Ret t"
proof (induction rs acc rule: last_cname.induct)
  case (2 r rs acc)
  then show ?case by (cases r; cases "Rdata r") (auto simp: rr_wf_def)
qed simp

lemma append_answers_ok: "msg_wf m \<Longrightarrow> list_all rr_wf rs \<Longrightarrow> keeps m (append_answers rs m)"
  by (auto simp: keeps_def append_answers_def msg_wf_def list_all_iff)

section \<open>State\<close>

lemma vldt_Lqueue_Wait [vld_rules]: "vldt N (Lqueue_Wait E key) (\<lambda>_. True)"
  unfolding Lqueue_Wait_def by (rule vldt_bind [OF vldt_rnow]) auto

lemma qc_items_Limit:
  assumes "query_cache_inv n c" "qc_items P c"
  shows "qc_items P (snd (QueryCache_Limit t key c))"
proof (cases "qc_lookup c key")
  case (Some q)
  obtain b rl where "Limit (word_of_int t) (qe_RateLimit q) = (b, rl)" by fastforce
  with Some assms show ?thesis
    by (auto simp: QueryCache_Limit_def Let_def qc_lookup_def [symmetric] qc_items_def qc_lookup_overwrite [OF assms(1)])
qed (use assms in \<open>simp add: QueryCache_Limit_def Let_def qc_lookup_def [symmetric]\<close>)

lemma vldt_Qcache_Limit [vld_rules]: "vldt N (Qcache_Limit E key) (\<lambda>_. True)"
  unfolding Qcache_Limit_def
proof (intro vldt_bind [OF vldt_rnow] vld_pair conjI)
  fix now s r c
  assume "rinv N s" and "QueryCache_Limit now key (rs_Qcache s) = (r, c)"
  with query_cache_inv_Limit [of N "rs_Qcache s" now key] qc_items_Limit [of N "rs_Qcache s" item_ok now key]
  show "rinv N (s\<lparr>rs_Qcache := c\<rparr>)" by (simp add: rinv_def)
qed simp_all

lemma vld_server_hinfos: "vld N P (server_hinfos name ttl a) (\<lambda>rs _. list_all rr_wf rs)"
proof -
  have "rinv N (s\<lparr>rs_heap := (rs_heap s)[a := (rs_heap s ! a)\<lparr>as_List := map f (as_List (rs_heap s ! a))\<rparr>]\<rparr>) = rinv N s" for s f
    by (rule same_shapeD(4), rule same_shape_update) simp
  then show ?thesis
    by (auto simp: vld_def server_hinfos_def Let_def list_all_iff rr_wf_def comp_def split: prod.split)
qed

lemma toMsg_ok:
  assumes "item_ok it" "req_ok req"
  shows "msg_wf (toMsg it req)"
  using assms toMsg_wf [OF assms(1), of req] by simp

lemma debug_reply_ok:
  assumes "req_ok req"
  shows "vldt N (debug_reply E q req) (reply_ok req)"
proof -
  let ?m = "(SetReply msg_zero req)\<lparr>m_AuthenticatedData := True, m_Authoritative := False, m_RecursionAvailable := True\<rparr>"
  have m: "reply_ok req (?m\<lparr>m_Ns := m_Ns ?m @ rs\<rparr>)" if "list_all rr_wf rs" for rs
    using assms that by (simp add: reply_ok_def ans_ok_def req_ok_def msg_wf_def msg_zero_def)
  have m0: "reply_ok req ?m" using assms by (simp add: reply_ok_def ans_ok_def req_ok_def msg_wf_def msg_zero_def)
  have h: "vldt N (rbind (server_hinfos name ttl a) (\<lambda>rs. rret (?m\<lparr>m_Ns := m_Ns ?m @ rs\<rparr>))) (reply_ok req)" for name ttl a
    by (rule vldt_bind [OF vld_server_hinfos]) (use m in blast)
  have n: "vldt N (Ncache_Get E key) (\<lambda>_. True)" for key by (rule vld_conseq [OF vld_Ncache_Get]) simp_all
  show ?thesis
    unfolding debug_reply_def Let_def
    by (rule h vldt_bind [OF n] vldt_if vldt_sum vldt_ret m0)+
qed

section \<open>The handler under the contract\<close>

lemma same_req_Question: "same_req req req' \<Longrightarrow> m_Question req' = m_Question req"
  by (auto simp: same_req_def clearOPT_def)

lemma vldt_last_cname: "list_all rr_wf rs \<Longrightarrow> vldt N (rgo (last_cname rs acc)) (\<lambda>_. True)"
  by (drule last_cname_Ret [of _ acc]) (auto intro: vldt_rgo)

context resolver_contract
begin

lemma cname_round_ok:
  assumes E: "env_ok E" and req: "req_ok cnameReq" and m: "msg_wf m"
  shows "vldt N (cname_round E R proto cnameReq m) (\<lambda>p. case p of (m1, req1, _) \<Rightarrow> keeps m m1 \<and> req_ok req1)"
proof -
  obtain q qs where q: "m_Question cnameReq = q # qs" using req by (cases "m_Question cnameReq") (auto simp: req_ok_def)
  let ?Q = "\<lambda>p. case p of (m1, req1, _) \<Rightarrow> keeps m m1 \<and> req_ok req1"
  have add: "keeps m (append_answers (m_Answer resp) m)" if "msg_wf resp" for resp
    using append_answers_ok [OF m, of "m_Answer resp"] that by (simp add: msg_wf_def)
  have cn: "vldt N (rgo (last_cname (m_Answer resp) None)) (\<lambda>_. True)" if "msg_wf resp" for resp
    using that by (intro vldt_last_cname) (simp add: msg_wf_def)
  have hit: "vldt N (rbind (rgo (last_cname (m_Answer resp) None))
      (\<lambda>next. rret (append_answers (m_Answer resp) m, cnameReq, next))) ?Q" if "msg_wf resp" for resp
    by (rule vldt_bind [OF cn [OF that]]) (use add [OF that] req in auto)
  have miss: "vldt N (case r of
        Inl err \<Rightarrow> rret (m, req1, None)
      | Inr resp \<Rightarrow> if m_Answer resp = [] then rret (m, req1, None)
          else rbind (rgo (last_cname (m_Answer resp) None))
                 (\<lambda>next. rbind (Qcache_Set E key resp) (\<lambda>_. rret (append_answers (m_Answer resp) m, req1, next)))) ?Q"
    if "res_ok i r" "req_ok req1" for r i req1 key
  proof (cases r)
    case (Inr resp)
    then have wf: "msg_wf resp" using that(1) by (simp add: ans_ok_def)
    show ?thesis
    proof (cases "m_Answer resp = []")
      case False
      then have "vldt N (rbind (Qcache_Set E key resp) (\<lambda>_. rret (append_answers (m_Answer resp) m, req1, next))) ?Q" for "next"
        by (intro vldt_bind [OF vldt_Qcache_Set [OF wf]]) (use add [OF wf] that(2) in auto)
      then have "vldt N (rbind (rgo (last_cname (m_Answer resp) None))
          (\<lambda>next. rbind (Qcache_Set E key resp) (\<lambda>_. rret (append_answers (m_Answer resp) m, req1, next)))) ?Q"
        by (rule vldt_bind [OF cn [OF wf]])
      then show ?thesis using False Inr by simp
    qed (use Inr that m in \<open>auto simp: keeps_def\<close>)
  qed (use that m in \<open>auto simp: keeps_def\<close>)
  show ?thesis
    unfolding cname_round_def q list.case Let_def
  proof (rule vldt_bind [OF vldt_Qcache_Get])
    fix c :: "cache_err + msg \<times> rate_limiter"
    assume c: "\<forall>m rl. c = Inr (m, rl) \<longrightarrow> (\<exists>it. item_ok it \<and> m = toMsg it cnameReq)"
    show "vldt N (case c of
          Inr (respCname, _) \<Rightarrow> rbind (rgo (last_cname (m_Answer respCname) None))
            (\<lambda>next. rret (append_answers (m_Answer respCname) m, cnameReq, next))
        | Inl _ \<Rightarrow> rbind (op_Resolve R proto cnameReq rootservers True (ev_Maxdepth E) 0 False [] False)
            (\<lambda>(r, cnameReq1). case r of
               Inl err \<Rightarrow> rret (m, cnameReq1, None)
             | Inr respCname \<Rightarrow> if m_Answer respCname = [] then rret (m, cnameReq1, None)
                 else rbind (rgo (last_cname (m_Answer respCname) None))
                        (\<lambda>next. rbind (Qcache_Set E (Hash q [m_CheckingDisabled cnameReq]) respCname)
                           (\<lambda>_. rret (append_answers (m_Answer respCname) m, cnameReq1, next))))) ?Q"
      using c hit toMsg_wf miss same_req_ok [OF _ req]
      by (cases c) (auto intro!: vldt_bind [OF resolve_root [OF E req]])
  qed
qed

lemma cname_loop_ok:
  assumes "env_ok E"
  shows "req_ok cnameReq \<Longrightarrow> msg_wf m \<Longrightarrow> vldt N (cname_loop n E R proto cnameReq m) (keeps m)"
proof (induction n arbitrary: cnameReq m)
  case (Suc n)
  show ?case
    unfolding cname_loop.simps
  proof (rule vldt_bind [OF cname_round_ok [OF assms Suc.prems]])
    fix p :: "msg \<times> msg \<times> string option"
    assume p: "case p of (m1, req1, _) \<Rightarrow> keeps m m1 \<and> req_ok req1"
    obtain m1 req1 "next" where [simp]: "p = (m1, req1, next)" by (cases p)
    have q: "req_ok (req1\<lparr>m_Question := map (\<lambda>q. q\<lparr>q_Name := target\<rparr>) (m_Question req1)\<rparr>)" for target
      using p by (simp add: req_ok_def msg_wf_def)
    have "vldt N (cname_loop n E R proto (req1\<lparr>m_Question := map (\<lambda>q. q\<lparr>q_Name := target\<rparr>) (m_Question req1)\<rparr>) m1) (keeps m)" for target
      using p by (intro vldt_weaken [OF Suc.IH [OF q]]) (auto simp: keeps_def)
    then show "vldt N (case p of (m1, cnameReq1, next) \<Rightarrow> (case next of None \<Rightarrow> rret m1
        | Some target \<Rightarrow> cname_loop n E R proto
            (cnameReq1\<lparr>m_Question := map (\<lambda>q. q\<lparr>q_Name := target\<rparr>) (m_Question cnameReq1)\<rparr>) m1)) (keeps m)"
      using p by (auto split: option.split)
  qed
qed (auto simp: keeps_def)

lemma additionalAnswer_ok:
  assumes "env_ok E" "req_ok req" "msg_wf m"
  shows "vldt N (additionalAnswer E R proto req m) (keeps m)"
proof -
  obtain q qs where q: "m_Question req = q # qs" using assms(2) by (cases "m_Question req") (auto simp: req_ok_def)
  have m: "vldt N (rret m) (keeps m)" using assms(3) by (auto simp: keeps_def)
  have cn: "vldt N (rgo (last_cname (m_Answer m) None)) (\<lambda>_. True)"
    using assms(3) by (intro vldt_last_cname) (simp add: msg_wf_def)
  have creq: "req_ok (SetQuestion i ((SetEdns0 msg_zero DefaultMsgSize True)\<lparr>m_RecursionDesired := True,
      m_CheckingDisabled := cd\<rparr>) name t)" for i cd name t
    by (simp add: req_ok_def msg_wf_def SetQuestion_def SetEdns0_def msg_zero_def new_OPT_def)
       (simp add: extra_wf_def rr_wf_def)
  show ?thesis
    unfolding additionalAnswer_def q list.case Let_def
    by (rule m vldt_if vldt_option vldt_bind [OF cn] vldt_bind [OF vldt_rrnd] cname_loop_ok assms creq)+
qed

lemma finish_ok:
  assumes "keeps m' m" "ans_ok (m_Id req) m'" "extra_wf opt"
  shows "reply_ok req (finish_reply opt dsReq m)"
proof -
  have m: "ans_ok (m_Id req) m" using keeps_ans_ok assms(1,2) by blast
  then have "msg_wf m" by (simp add: ans_ok_def)
  from keeps_ans_ok [OF finish_reply_ok [OF this assms(3)] m] show ?thesis by (simp add: reply_ok_def)
qed

lemma query_hit_ok:
  assumes "env_ok E" "req_ok req" "msg_wf mesg" "extra_wf opt"
  shows "vldt N (query_hit E C R proto key opt dsReq req mesg) (reply_ok req)"
proof -
  have m: "msg_wf (mesg\<lparr>m_Id := m_Id req\<rparr>)" "ans_ok (m_Id req) (mesg\<lparr>m_Id := m_Id req\<rparr>)"
    using assms(3) by (simp_all add: ans_ok_def msg_wf_def)
  have limit: "vldt N (if hc_RateLimit C > 0 then Qcache_Limit E key else rret False) (\<lambda>_. True)"
    using vldt_Qcache_Limit by auto
  show ?thesis
    unfolding query_hit_def
  proof (rule vldt_bind [OF limit], rule vldt_if)
    show "vldt N (rbind (additionalAnswer E R proto req (mesg\<lparr>m_Id := m_Id req\<rparr>)) (\<lambda>m. rret (finish_reply opt dsReq m))) (reply_ok req)"
      by (rule vldt_bind [OF additionalAnswer_ok [OF assms(1,2) m(1)]], rule vldt_ret, erule finish_ok) (use assms(4) m(2) in simp_all)
  qed (use handleFailed_ok [OF assms(2)] in auto)
qed

lemma add_hinfo_ok:
  assumes "parser_typed C" "msg_wf mesg" "add_hinfo C name mesg = Some mesg1"
  shows "keeps mesg mesg1 \<and> (m_Rcode mesg1 = RcodeSuccess \<longrightarrow> m_Answer mesg1 \<noteq> [] \<or> m_Ns mesg1 \<noteq> [])"
  using assms by (auto simp: add_hinfo_def keeps_def msg_wf_def parser_typed_def split: if_split_asm)

lemma query_answer_ok:
  assumes E: "env_ok E" and C: "parser_typed C" and req: "req_ok req" and mesg: "reply_ok req mesg" and opt: "extra_wf opt"
  shows "hvld N (query_answer E C R proto key opt dsReq req q mesg) (reply_ok req)"
proof (cases "add_hinfo C (q_Name q) mesg")
  case None
  have "msg_wf mesg" using mesg by (simp add: reply_ok_def ans_ok_def)
  then show ?thesis
    unfolding query_answer_def None option.case by (rule hvld_vbind [OF additionalAnswer_ok [OF E req]]) simp
next
  case (Some m1)
  have m1: "keeps mesg m1" "m_Rcode m1 = RcodeSuccess \<longrightarrow> m_Answer m1 \<noteq> [] \<or> m_Ns m1 \<noteq> []"
    using add_hinfo_ok [OF C _ Some] mesg by (auto simp: reply_ok_def ans_ok_def)
  define m2 where "m2 = default_expire C m1"
  have m2: "msg_wf m2" "ans_ok (m_Id req) m2" "m_Rcode m2 = m_Rcode m1" "m_Answer m2 = m_Answer m1" "m_Ns m2 = [] \<longleftrightarrow> m_Ns m1 = []"
    using m1(1) mesg by (auto simp: m2_def default_expire_def reply_ok_def keeps_def ans_ok_def msg_wf_def list_all_iff)
  define m3 where "m3 = upd_client (opt_SetDo dsReq) m2"
  have m3: "msg_wf m3" "m_Answer m3 = m_Answer m2" "m_Ns m3 = m_Ns m2"
    using m2(1) by (auto simp: m3_def upd_client_def msg_wf_def list_all_iff)
  show ?thesis
  proof (cases "m_Rcode m2 \<noteq> RcodeSuccess \<and> m_Answer m2 = [] \<and> m_Ns m2 = []")
    case True
    have "vldt N (rbind (Ecache_Set E key) (\<lambda>_. rret (handleFailed req (m_Rcode m2) dsReq))) (reply_ok req)"
      by (rule vldt_bind [OF vldt_Ecache_Set], rule vldt_ret, rule handleFailed_ok [OF req])
    from hvld_lift [OF this] True show ?thesis
      unfolding query_answer_def Some option.case Let_def m2_def by (simp only: simp_thms if_True)
  next
    case False
    with m1(2) m2 m3 have ne: "m_Answer m3 \<noteq> [] \<or> m_Ns m3 \<noteq> []" by auto
    have fin: "vldt N (rbind (Qcache_Set E key m3) (\<lambda>_. rret (finish_reply opt dsReq m))) (reply_ok req)" if "keeps m2 m" for m
      by (rule vldt_bind [OF vldt_Qcache_Set [OF m3(1) ne]], rule vldt_ret, rule finish_ok [OF that]) (use m2 opt in simp_all)
    have "vldt N (rbind (additionalAnswer E R proto req m2)
        (\<lambda>m. rbind (Qcache_Set E key m3) (\<lambda>_. rret (finish_reply opt dsReq m)))) (reply_ok req)"
      by (rule vldt_bind [OF additionalAnswer_ok [OF E req m2(1)] fin])
    from hvld_lift [OF this] False show ?thesis
      unfolding query_answer_def Some option.case Let_def m2_def m3_def by (simp only: simp_thms if_False)
  qed
qed

lemma query_resolve_ok:
  assumes E: "env_ok E" and C: "parser_typed C" and req: "req_ok req" and opt: "extra_wf opt"
    and again: "\<And>req'. proto = ''https'' \<Longrightarrow> req_ok req' \<Longrightarrow> hvld N (again ''tcp'' req') (reply_ok req')"
  shows "hvld N (query_resolve E C R again proto rproto key opt dsReq req q) (reply_ok req)"
proof -
  have cont: "hvld N (case r of
          Inl err \<Rightarrow> rbind (Ecache_Set E key) (\<lambda>_. rret (handleFailed req1 RcodeServerFailure dsReq))
        | Inr mesg \<Rightarrow>
            if m_Truncated mesg \<and> proto = ''udp'' then rret mesg
            else if m_Truncated mesg \<and> proto = ''https''
            then rbind (Lqueue_Done key) (\<lambda>_. again ''tcp'' (upd_client (opt_SetDo dsReq) req1))
            else query_answer E C R rproto key opt dsReq req1 q mesg) (reply_ok req)"
    if r: "res_ok (m_Id req) r" and s: "same_req req req1" for r req1
  proof -
    have req1: "req_ok req1" "m_Id req1 = m_Id req" using same_req_ok [OF s req] same_req_Id [OF s] by auto
    have up: "reply_ok req1 m \<Longrightarrow> reply_ok req m" for m using req1(2) by (simp add: reply_ok_def)
    have req2: "req_ok (upd_client (opt_SetDo dsReq) req1)" "m_Id (upd_client (opt_SetDo dsReq) req1) = m_Id req"
      using req1 by (auto simp: upd_client_def req_ok_def msg_wf_def list_all_iff)
    have tcp: "hvld N (rbind (Lqueue_Done key) (\<lambda>_. again ''tcp'' (upd_client (opt_SetDo dsReq) req1))) (reply_ok req)"
      if "proto = ''https''"
      using hvld_weaken [OF again [OF that req2(1)], of "reply_ok req"] req2(2)
      by (intro hvld_vbind [OF vldt_Lqueue_Done]) (simp add: reply_ok_def)
    have err: "hvld N (rbind (Ecache_Set E key) (\<lambda>_. rret (handleFailed req1 RcodeServerFailure dsReq))) (reply_ok req)"
      by (rule hvld_vbind [OF vldt_Ecache_Set], rule hvld_ret, rule up, rule handleFailed_ok [OF req1(1)])
    have ans: "hvld N (query_answer E C R rproto key opt dsReq req1 q mesg) (reply_ok req)" if "r = Inr mesg" for mesg
      by (rule hvld_weaken [OF query_answer_ok [OF E C req1(1) _ opt] up]) (use that r req1(2) in \<open>simp_all add: reply_ok_def\<close>)
    show ?thesis using tcp err ans r by (auto simp: reply_ok_def split: sum.split)
  qed
  show ?thesis
    unfolding query_resolve_def by (rule hvld_vbind [OF resolve_root [OF E req]]) (use cont in auto)
qed

lemma blocked_reply_ok:
  assumes "req_ok req" "q_Qtype q = TypeA \<or> q_Qtype q = TypeAAAA"
  shows "reply_ok req (blocked_reply C q req)" "m_Answer (blocked_reply C q req) \<noteq> []"
  using assms by (auto simp: blocked_reply_def reply_ok_def ans_ok_def req_ok_def msg_wf_def msg_zero_def rr_wf_def Let_def)

lemma query_miss_ok:
  assumes E: "env_ok E" and C: "parser_typed C" and req: "req_ok req" and opt: "extra_wf opt"
    and again: "\<And>req'. proto = ''https'' \<Longrightarrow> req_ok req' \<Longrightarrow> hvld N (again ''tcp'' req') (reply_ok req')"
  shows "hvld N (query_miss E C R again proto rproto key opt dsReq req q) (reply_ok req)"
proof -
  have blocked: "hvld N (rbind (Qcache_Set E key (blocked_reply C q req)) (\<lambda>_. rret (blocked_reply C q req))) (reply_ok req)"
    if "(q_Qtype q = TypeA \<or> q_Qtype q = TypeAAAA) \<and> b" for b
    using blocked_reply_ok [OF req, of q C] that
    by (intro hvld_vbind [OF vldt_Qcache_Set]) (auto simp: reply_ok_def ans_ok_def)
  have ask: "hvld N (rbind (query_resolve E C R again proto rproto key opt dsReq req q)
      (\<lambda>m. rbind (Lqueue_Done key) (\<lambda>_. rret m))) (reply_ok req)"
  proof (rule hvld_bind)
    show "hvld N (query_resolve E C R again proto rproto key opt dsReq req q) (reply_ok req)"
      by (rule query_resolve_ok [OF E C req opt], rule again)
  qed (auto intro: hvld_vbind [OF vldt_Lqueue_Done])
  show ?thesis
    unfolding query_miss_def
    by (rule hvld_vbind [OF vldt_Ecache_Get], rule hvld_if, rule hvld_ret, rule handleFailed_ok [OF req], rule hvld_if,
        erule blocked, rule hvld_vbind [OF vldt_Lqueue_Add ask])
qed

lemma query_step_ok:
  assumes E: "env_ok E" and C: "parser_typed C" and req0: "req_ok req0"
    and again: "\<And>req'. proto = ''https'' \<Longrightarrow> req_ok req' \<Longrightarrow> hvld N (again ''tcp'' req') (reply_ok req')"
  shows "hvld N (query_step E C R again proto req0) (reply_ok req0)"
proof -
  obtain q qs where q: "m_Question req0 = q # qs" using req0 by (cases "m_Question req0") (auto simp: req_ok_def)
  obtain p where p: "edns_prepare req0 = Ret p" "case p of Inl m \<Rightarrow> reply_ok req0 m
      | Inr (opt, req, dsReq) \<Rightarrow> req_ok req \<and> m_Id req = m_Id req0 \<and> m_Question req = m_Question req0 \<and> extra_wf opt \<and> is_OPT opt"
    using edns_prepare_ok [OF req0] by blast
  have go: "hvld N (rbind (Lqueue_Wait E key) (\<lambda>_. rbind (Qcache_Get E key req)
      (\<lambda>c. case c of Inr (mesg, _) \<Rightarrow> query_hit E C R rproto key opt dsReq req mesg
        | Inl _ \<Rightarrow> query_miss E C R again proto rproto key opt dsReq req q))) (reply_ok req)"
    if "req_ok req" "extra_wf opt" for req opt key rproto dsReq
  proof (rule hvld_vbind [OF vldt_Lqueue_Wait], rule hvld_vbind [OF vldt_Qcache_Get])
    fix c :: "cache_err + msg \<times> rate_limiter"
    assume c: "\<forall>m rl. c = Inr (m, rl) \<longrightarrow> (\<exists>it. item_ok it \<and> m = toMsg it req)"
    show "hvld N (case c of Inr (mesg, _) \<Rightarrow> query_hit E C R rproto key opt dsReq req mesg
        | Inl _ \<Rightarrow> query_miss E C R again proto rproto key opt dsReq req q) (reply_ok req)"
    proof (cases c)
      case (Inr x)
      obtain mesg rl where x: "x = (mesg, rl)" by (cases x)
      with c Inr obtain it where "item_ok it" "mesg = toMsg it req" by blast
      with toMsg_ok [OF _ that(1)] have "msg_wf mesg" by blast
      from hvld_lift [OF query_hit_ok [OF E that(1) this that(2)]] Inr x show ?thesis by simp
    next
      case (Inl e)
      have "hvld N (query_miss E C R again proto rproto key opt dsReq req q) (reply_ok req)"
        by (rule query_miss_ok [OF E C that], rule again)
      with Inl show ?thesis by simp
    qed
  qed
  have step: "hvld N (let resolverProto = (if proto = ''https'' then ''udp'' else proto)
       in if q_Qtype q = TypeANY then rret (handleFailed req RcodeNotImplemented dsReq)
          else if hc_debugns C \<and> q_Qtype q = TypeHINFO then debug_reply E q req
          else if q_Name q \<noteq> rootzone \<and> \<not> m_RecursionDesired req
          then rret (handleFailed req RcodeServerFailure dsReq)
          else let key = Hash q [m_CheckingDisabled req]
               in rbind (Lqueue_Wait E key)
                    (\<lambda>_. rbind (Qcache_Get E key req)
                       (\<lambda>c. case c of
                          Inr (mesg, _) \<Rightarrow> query_hit E C R resolverProto key opt dsReq req mesg
                        | Inl _ \<Rightarrow> query_miss E C R again proto resolverProto key opt dsReq req q))) (reply_ok req)"
    if "req_ok req" "extra_wf opt" for req opt dsReq
    unfolding Let_def
    by (rule hvld_if, rule hvld_ret, rule handleFailed_ok [OF that(1)], rule hvld_if, rule hvld_lift, rule debug_reply_ok [OF that(1)],
        rule hvld_if, rule hvld_ret, rule handleFailed_ok [OF that(1)], rule go [OF that])
  show ?thesis
  proof (cases p)
    case (Inl m)
    with p show ?thesis unfolding query_step_def q list.case by (intro hvld_vbind [OF vldt_rgo_eq [OF p(1)]]) auto
  next
    case (Inr x)
    obtain opt req dsReq where x: "x = (opt, req, dsReq)" by (cases x)
    with p Inr have r: "req_ok req" "extra_wf opt" "m_Id req = m_Id req0" by auto
    have "hvld N m (reply_ok req) \<Longrightarrow> hvld N m (reply_ok req0)" for m
      by (erule hvld_weaken) (simp add: reply_ok_def r(3))
    note this [OF step [OF r(1,2)]]
    then show ?thesis
      unfolding query_step_def q list.case by (intro hvld_vbind [OF vldt_rgo_eq [OF p(1)]]) (simp only: Inr x sum.case prod.case)
  qed
qed

lemma query_ok:
  assumes "env_ok E" "parser_typed C" "req_ok req"
  shows "hvld N (query E C R proto req) (reply_ok req)"
  unfolding query_def
  by (rule query_step_ok [OF assms], rule query_step_ok [OF assms(1,2)]) simp_all

lemma handle_ok:
  assumes "env_ok E" "parser_typed C" "req_ok req"
  shows "hvld N (handle E C R proto w req) (\<lambda>m. \<forall>m'. m = Some m' \<longrightarrow> reply_ok req m')"
  unfolding handle_def Let_def
  by (rule hvld_if, rule hvld_ret, simp, rule hvld_bind [OF query_ok [OF assms]])
     (auto simp: writeReplyMsg_def split: option.split)

end

end
