(* ===== verification/Handler_Facts.thy ===== *)
theory Handler_Facts
  imports Handler_Contract Resolver_Term
begin

text \<open>
  What the handler promises its clients: access control, blocked names, refusals, the DNSSEC records a client did not ask
  for, and that any sequence of requests is served from a good state.
\<close>

section \<open>Any sequence of requests\<close>

fun serve :: "renv \<Rightarrow> hconf \<Rightarrow> resolver_ops \<Rightarrow> (string \<times> string option \<times> msg) list \<Rightarrow> msg option list rm" where
  "serve E C R [] = rret []"
| "serve E C R ((proto, w, req) # rs) =
     rbind (handle E C R proto w req) (\<lambda>m. rbind (serve E C R rs) (\<lambda>ms. rret (m # ms)))"

fun served :: "hconf \<Rightarrow> string \<times> string option \<times> msg \<Rightarrow> msg option \<Rightarrow> bool" where
  "served C (proto, w, req) m =
     ((m \<noteq> None \<longleftrightarrow> w \<noteq> None \<and> hc_AccessList C (fst (SplitHostPort (remoteAddr w)))) \<and>
      (\<forall>m'. m = Some m' \<longrightarrow> msg_wf m' \<and> (m_Truncated m' \<or> m_Id m' = m_Id req)))"

lemma handle_served:
  assumes "env_ok E" "parser_typed C" "req_ok req"
  shows "hvld N (handle E C (resolver E n) proto w req) (served C (proto, w, req))"
proof (cases "hc_AccessList C (fst (SplitHostPort (remoteAddr w)))")
  case True
  have "hvld N (rbind (query E C (resolver E n) proto req) (\<lambda>m. rret (writeReplyMsg w m))) (served C (proto, w, req))"
    by (rule hvld_bind [OF rc.query_ok [OF assms]])
      (use True in \<open>auto simp: writeReplyMsg_def reply_ok_def ans_ok_def split: option.split\<close>)
  with True show ?thesis by (simp add: handle_def)
qed (simp add: handle_def)

lemma serve_served:
  assumes "env_ok E" "parser_typed C"
  shows "list_all (\<lambda>(_, _, req). req_ok req) rs \<Longrightarrow> hvld N (serve E C (resolver E n) rs) (list_all2 (served C) rs)"
proof (induction rs)
  case (Cons x rs)
  obtain proto w req where x: "x = (proto, w, req)" by (cases x)
  from Cons.prems x have req: "req_ok req" and rs: "list_all (\<lambda>(_, _, req). req_ok req) rs" by auto
  show ?case
    unfolding x serve.simps
    by (rule hvld_bind [OF handle_served [OF assms req]], rule hvld_bind [OF Cons.IH [OF rs]], rule hvld_ret)
      (simp only: list_all2_Cons simp_thms)
qed simp

text \<open>C4. The handler serves any sequence of requests: from every state with the resolver's invariant and for requests
  that have a question, each request of an allowed client with a writer is answered, with a well-formed message
  that has the identifier of the request unless it is truncated, and the others are not; afterwards the invariant
  holds again. The root keys are usable, and the records that the text parser returns have data of the type in their header;
  nothing is said about the texts it accepts. A panic can only be one of the five of the resolver or that of \<^verbatim>\<open>query\<close> on the
  nil record, when the parser takes the text made of the question's name for no record.\<close>

theorem handler_serves:
  assumes "env_ok E" "parser_typed C" "rinv N s" "list_all (\<lambda>(_, _, req). msg_wf req \<and> m_Question req \<noteq> []) rs"
  shows "case serve E C (resolver E n) rs s of
      Done ms s' \<Rightarrow> rinv N s' \<and> list_all2 (served C) rs ms
    | Crash w \<Rightarrow> w \<in> {''index out of range'', nil_err, ''root zone keys empty'', ''root zone DS not verified'', ''root zone keys not verified'', nil_deref}
    | Stuck \<Rightarrow> True"
  using hvldD [OF serve_served [OF assms(1,2), of rs N n] assms(3)] assms(4)
  by (auto simp: req_ok_def crash_ok_def split: outcome.splits)

section \<open>Access control\<close>

text \<open>Access control: a request from a remote address whose host is not on the access list gets no reply, sends nothing
  and changes nothing, for every resolver and every request; the host is the one the address was joined from, with
  the brackets of an IPv6 address removed.\<close>

theorem access_denied:
  assumes "\<not> hc_AccessList C host"
    and "CHR ''['' \<notin> set host" "CHR '']'' \<notin> set host"
    and "CHR ''['' \<notin> set port" "CHR '']'' \<notin> set port" "CHR '':'' \<notin> set port"
  shows "handle E C R proto (Some (JoinHostPort host port)) req s = Done None s"
  using SplitHostPort_Join_host [OF assms(2-6)] assms(1) by (simp add: handle_def remoteAddr_def rret_def)

section \<open>Refusals\<close>

lemma handleFailed_sel [simp]:
  "m_Rcode (handleFailed req rc d) = rc" "m_Answer (handleFailed req rc d) = []" "m_Ns (handleFailed req rc d) = []"
  "m_Id (handleFailed req rc d) = m_Id req"
  by (simp_all add: handleFailed_def upd_Edns0_def msg_zero_def)

lemma last_opt_Copy: "last_opt (map rr_Copy rs) = map_option rr_Copy (last_opt rs)"
  by (induction rs) (auto split: option.split)

lemma last_opt_upd_Some:
  "last_opt rs = Some r \<Longrightarrow> rr_type (f r) = TypeOPT \<Longrightarrow> last_opt (upd_last_opt f rs) = Some (f r)"
  by (induction rs) (auto split: option.split_asm if_split_asm)

lemma edns_prepare_cases [consumes 1, case_names badvers ok]:
  assumes "msg_wf req0"
  obtains (badvers) r m where "IsEdns0 req0 = Some r" "opt_Version r \<noteq> 0" "edns_prepare req0 = Ret (Inl (handleFailed m RcodeBadVers False))"
      "m_Id m = m_Id req0"
  | (ok) opt req where "edns_prepare req0 = Ret (Inr (opt, req, isDO req0))" "rr_type opt = TypeOPT" "is_client opt" "IsEdns0 req = Some opt"
      "m_Id req = m_Id req0" "m_RecursionDesired req = m_RecursionDesired req0" "m_CheckingDisabled req = m_CheckingDisabled req0"
      "m_Question req = m_Question req0" "\<And>r. IsEdns0 req0 = Some r \<Longrightarrow> opt_Version r = 0"
proof -
  define req where "req = req0\<lparr>m_Extra := map rr_Copy (m_Extra req0)\<rparr>"
  have e: "IsEdns0 req = map_option rr_Copy (IsEdns0 req0)" by (simp add: req_def IsEdns0_def last_opt_Copy)
  show thesis
  proof (cases "IsEdns0 req0")
    case None
    with e show thesis
      by (intro ok [of "opt_SetDo True (opt_SetUDPSize DefaultMsgSize (new_OPT 1))"
            "req\<lparr>m_Extra := m_Extra req @ [opt_SetDo True (opt_SetUDPSize DefaultMsgSize (new_OPT 1))]\<rparr>"])
        (auto simp: edns_prepare_def req_def Let_def isDO_def new_OPT_def opt_SetUDPSize_def opt_SetDo_def rr_setTtl_def
          IsEdns0_def last_opt_append_OPT)
  next
    case (Some r)
    have r: "is_OPT r" "rr_type r = TypeOPT"
      using Some assms by (auto simp: IsEdns0_def msg_wf_def list_all_iff is_OPT_type dest!: last_opt_Some)
    then have c: "is_OPT (rr_Copy r)" by (cases r; cases "Rdata r") auto
    have v: "opt_Version (opt_SetUDPSize n (rr_Copy r)) = opt_Version r" "opt_Do (opt_SetUDPSize n (rr_Copy r)) = opt_Do r" for n
      by (simp_all add: opt_Version_def opt_Do_def opt_SetUDPSize_def)
    show thesis
    proof (cases "opt_Version r = 0")
      case True
      define opt where "opt = opt_SetUDPSize DefaultMsgSize (rr_Copy r)"
      define opt1 where "opt1 = opt_SetDo True (rr_setTtl 0 (opt_setOption (filter (\<lambda>p. edns_Option p = 8) (opt_Option opt)) opt))"
      have "edns_prepare req0 = Ret (Inr (opt1, upd_Edns0 (\<lambda>_. opt1) req, isDO req0))"
        using Some True e c v by (simp add: edns_prepare_def req_def [symmetric] Let_def isDO_def opt_def opt1_def)
      moreover have "rr_type opt1 = TypeOPT" "is_client opt1"
        using r by (simp_all add: opt1_def opt_def opt_setOption_def opt_SetUDPSize_def opt_SetDo_def rr_setTtl_def)
      moreover from this have "IsEdns0 (upd_Edns0 (\<lambda>_. opt1) req) = Some opt1"
        using e Some last_opt_upd_Some [of "m_Extra req" "rr_Copy r" "\<lambda>_. opt1"] by (simp add: IsEdns0_def upd_Edns0_def)
      ultimately show thesis using Some True
        by (intro ok [of opt1 "upd_Edns0 (\<lambda>_. opt1) req"]) (auto simp: upd_Edns0_def req_def)
    next
      case False
      let ?m = "upd_Edns0 (\<lambda>_. opt_SetExtendedRcode 16 (opt_SetVersion 0 (opt_SetUDPSize DefaultMsgSize (rr_Copy r)))) req"
      have "edns_prepare req0 = Ret (Inl (handleFailed ?m RcodeBadVers False))"
        using Some False e c v by (simp add: edns_prepare_def req_def [symmetric] Let_def)
      with Some False show thesis by (intro badvers [of r ?m]) (auto simp: req_def upd_Edns0_def)
    qed
  qed
qed

text \<open>The end of \<open>query_step\<close> once the OPT record is prepared.\<close>

lemma query_prepared:
  assumes "m_Question req0 = q # qs" "edns_prepare req0 = Ret (Inr (opt, req, d))" "q_Qtype q \<noteq> TypeANY"
    "\<not> (hc_debugns C \<and> q_Qtype q = TypeHINFO)" "q_Name q = rootzone \<or> m_RecursionDesired req"
  shows "query_step E C R again proto req0 s =
    (let resolverProto = (if proto = ''https'' then ''udp'' else proto); key = Hash q [m_CheckingDisabled req]
     in rbind (Lqueue_Wait E key) (\<lambda>_. rbind (Qcache_Get E key req)
          (\<lambda>c. case c of Inr (mesg, _) \<Rightarrow> query_hit E C R resolverProto key opt d req mesg
            | Inl _ \<Rightarrow> query_miss E C R again proto resolverProto key opt d req q)) s)"
  using assms by (auto simp: query_step_def rgo_def rbind_def rret_def Let_def)

text \<open>C15. Requests the handler refuses: an unknown EDNS version, a question of type ANY, and a question other than for the root
  without the RD flag are answered at once with BADVERS, NOTIMP and SERVFAIL, with the identifier of the request
  and no records; nothing is sent and no state changes, whatever the resolver.\<close>

theorem query_refuses:
  assumes "msg_wf req" "m_Question req = q # qs"
    and "(\<exists>r. IsEdns0 req = Some r \<and> opt_Version r \<noteq> 0) \<or> q_Qtype q = TypeANY \<or>
      q_Name q \<noteq> rootzone \<and> \<not> m_RecursionDesired req \<and> \<not> (hc_debugns C \<and> q_Qtype q = TypeHINFO)"
  shows "\<exists>m. query E C R proto req s = Done m s \<and> m_Id m = m_Id req \<and> m_Answer m = [] \<and> m_Ns m = [] \<and>
    m_Rcode m = (if \<exists>r. IsEdns0 req = Some r \<and> opt_Version r \<noteq> 0 then RcodeBadVers
      else if q_Qtype q = TypeANY then RcodeNotImplemented else RcodeServerFailure)"
  using assms(1)
proof (cases rule: edns_prepare_cases)
  case (badvers r m)
  then show ?thesis using assms(2) by (simp add: query_def query_step_def rgo_def rbind_def rret_def)
next
  case (ok opt req1)
  then show ?thesis using assms(2,3) by (auto simp: query_def query_step_def rgo_def rbind_def rret_def Let_def)
qed

section \<open>Blocked names\<close>

lemma Qcache_Get_miss:
  "qc_lookup (rs_Qcache s) key = None \<Longrightarrow> Qcache_Get E key req s = Done (Inl ErrCacheNotFound) (s\<lparr>rs_tick := Suc (rs_tick s)\<rparr>)"
  by (simp add: Qcache_Get_def rnow_def rtick_def rbind_def rret_def QueryCache_Get_def qc_lookup_def Let_def)

lemma Ecache_Get_miss:
  "shard_Get (ec_shards (rs_Ecache s) ! shard_index key) key = None \<Longrightarrow>
   Ecache_Get E key s = Done (Some ErrCacheNotFound) (s\<lparr>rs_tick := Suc (rs_tick s)\<rparr>)"
  by (simp add: Ecache_Get_def rnow_def rtick_def rbind_def rret_def ErrorCache_Get_def Let_def)

text \<open>C14. Blocked names: a recursive question for the address of a blocked name that is in neither cache is answered with the
  configured null address, under the name of the question and with the default expiry, and nothing is sent to any
  server, whatever the resolver.\<close>

theorem blocked_name_not_asked:
  assumes "msg_wf req" "m_Question req = q # qs" "\<And>r. IsEdns0 req = Some r \<Longrightarrow> opt_Version r = 0"
    and "q_Qtype q = TypeA \<or> q_Qtype q = TypeAAAA" "q_Name q = rootzone \<or> m_RecursionDesired req"
    and "BlockCache_Exists (q_Name q) (hc_BlockList C)"
    and "qc_lookup (rs_Qcache s) (Hash q [m_CheckingDisabled req]) = None"
    and "shard_Get (ec_shards (rs_Ecache s) ! shard_index (Hash q [m_CheckingDisabled req])) (Hash q [m_CheckingDisabled req]) = None"
  shows "\<exists>m s'. query E C R proto req s = Done m s' \<and> rs_sent s' = rs_sent s \<and> m_Id m = m_Id req \<and> m_Question m = [q] \<and>
    m_Answer m = [RR \<lparr>rh_Name = q_Name q, rh_Rrtype = q_Qtype q, rh_Class = ClassINET, rh_Ttl = hc_Expire C\<rparr>
      (if q_Qtype q = TypeA then A_rd (hc_Nullroute C) else AAAA_rd (hc_Nullroutev6 C))]"
  using assms(1)
proof (cases rule: edns_prepare_cases)
  case (ok opt req1)
  define key where "key = Hash q [m_CheckingDisabled req]"
  define t where "t k = s\<lparr>rs_tick := rs_tick s + k\<rparr>" for k :: nat
  have wait: "Lqueue_Wait E k s = Done () (t 1)" for k
    by (simp add: Lqueue_Wait_def rnow_def rtick_def rbind_def rret_def t_def)
  have get: "Qcache_Get E key req1 (t 1) = Done (Inl ErrCacheNotFound) (t 2)"
    using Qcache_Get_miss [of "t 1" key E req1] assms(7) by (simp add: t_def key_def)
  have err: "Ecache_Get E key (t 2) = Done (Some ErrCacheNotFound) (t 3)"
    using Ecache_Get_miss [of "t 2" key E] assms(8) by (simp add: t_def key_def numeral_3_eq_3)
  have set: "\<exists>s'. Qcache_Set E key m (t 3) = Done () s' \<and> rs_sent s' = rs_sent s" for m
    by (simp add: Qcache_Set_def rnow_def rrnd_def rtick_def rbind_def rret_def t_def)
  obtain s' where s': "Qcache_Set E key (blocked_reply C q req1) (t 3) = Done () s'" "rs_sent s' = rs_sent s" using set by blast
  have "query E C R proto req s = Done (blocked_reply C q req1) s'"
    unfolding query_def
    by (subst query_prepared [OF assms(2) ok(1)])
      (use assms(4-6) ok wait get err s' in \<open>auto simp: key_def [symmetric] rbind_def rret_def query_miss_def Let_def simp del: One_nat_def\<close>)
  with ok(5,8) assms(2,4) s' show ?thesis
    by (auto simp: blocked_reply_def Let_def)
qed (use assms(3) in blast)

section \<open>DNSSEC records only on request\<close>

text \<open>A reply for a client that did not set the DO flag.\<close>

definition plain :: "msg \<Rightarrow> bool" where
  "plain m \<longleftrightarrow> (\<forall>r \<in> set (m_Answer m) \<union> set (m_Ns m). \<not> is_dnssec r) \<and> (\<forall>opt. IsEdns0 m = Some opt \<longrightarrow> \<not> opt_Do opt)"

lemma handleFailed_plain: "plain (handleFailed req rc False)"
  by (auto simp: plain_def) (auto simp: handleFailed_def upd_Edns0_def IsEdns0_def last_opt_upd)

lemma finish_reply_plain:
  assumes "rr_type opt = TypeOPT"
  shows "plain (finish_reply opt False m)"
  using last_opt_append_OPT [of "opt_SetDo False opt" "m_Extra (clearOPT (clearDNSSEC m))"] assms
  by (auto simp: plain_def finish_reply_def Let_def IsEdns0_def) (simp_all add: clearOPT_def clearDNSSEC_def)

lemma debug_reply_plain: "debug_reply E q req s = Done m s' \<Longrightarrow> plain m"
  by (auto simp: debug_reply_def server_hinfos_def Let_def run_simps plain_def IsEdns0_def msg_zero_def elim!: rbind_DoneE
      split: if_split_asm sum.split_asm prod.split_asm)

lemma blocked_reply_plain: "plain (blocked_reply C q req)"
  by (auto simp: plain_def blocked_reply_def Let_def msg_zero_def IsEdns0_def)

lemma query_answer_plain:
  "query_answer E C R proto key opt False req q mesg s = Done m s' \<Longrightarrow> rr_type opt = TypeOPT \<Longrightarrow> plain m"
  by (auto simp: query_answer_def Let_def run_simps handleFailed_plain finish_reply_plain elim!: rbind_DoneE
      split: option.split_asm if_split_asm)

lemma query_hit_plain:
  "query_hit E C R proto key opt False req mesg s = Done m s' \<Longrightarrow> rr_type opt = TypeOPT \<Longrightarrow> plain m"
  by (auto simp: query_hit_def run_simps handleFailed_plain finish_reply_plain elim!: rbind_DoneE split: if_split_asm)

lemma query_miss_plain:
  assumes "query_miss E C R again proto rproto key opt False req q s = Done m s'" "rr_type opt = TypeOPT"
    and again: "\<And>req1 r s0 s1 s2 s3. proto = ''https'' \<Longrightarrow>
      op_Resolve R rproto req rootservers True (ev_Maxdepth E) 0 False [] False s0 = Done (r, req1) s1 \<Longrightarrow>
      again ''tcp'' (upd_client (opt_SetDo False) req1) s2 = Done m s3 \<Longrightarrow> m_Truncated m \<or> plain m"
  shows "m_Truncated m \<or> plain m"
  using assms(1)
  by (auto simp: query_miss_def query_resolve_def run_simps handleFailed_plain blocked_reply_plain query_answer_plain assms(2)
      elim!: rbind_DoneE split: if_split_asm sum.split_asm) (use again in blast)+

lemma client_reset:
  assumes "msg_wf req" "IsEdns0 req = Some opt" "is_client opt" "same_req req req1"
  shows "msg_wf (upd_client (opt_SetDo False) req1) \<and> \<not> isDO (upd_client (opt_SetDo False) req1)"
proof -
  let ?f = "\<lambda>r. if is_client r then opt_SetDo False r else r"
  have last: "last_opt (map ?f rs) = map_option ?f (last_opt rs)" for rs
    by (induction rs) (auto split: option.split)
  have wf1: "msg_wf req1" using assms(1,4) by (auto simp: same_req_def)
  have "IsEdns0 req1 = None \<or> IsEdns0 req1 = Some opt"
    using assms(1,2,4) IsEdns0_clearOPT by (auto simp: same_req_def)
  then have "\<not> isDO (upd_client (opt_SetDo False) req1)"
    using last [of "m_Extra req1"] assms(3) by (auto simp: isDO_def upd_client_def IsEdns0_def)
  with wf1 show ?thesis by (auto simp: upd_client_def msg_wf_def list_all_iff)
qed

lemma query_step_plain:
  assumes "query_step E C (resolver E n) again proto req0 s = Done m s'" "msg_wf req0" "\<not> isDO req0"
    and again: "\<And>req1 s0 s1. proto = ''https'' \<Longrightarrow> msg_wf req1 \<Longrightarrow> \<not> isDO req1 \<Longrightarrow> again ''tcp'' req1 s0 = Done m s1 \<Longrightarrow>
      m_Truncated m \<or> plain m"
  shows "m_Truncated m \<or> plain m"
proof (cases "m_Question req0")
  case q: (Cons q qs)
  show ?thesis
    using assms(2)
  proof (cases rule: edns_prepare_cases)
    case (badvers r m')
    with assms(1) q show ?thesis by (auto simp: query_step_def run_simps handleFailed_plain elim!: rbind_DoneE)
  next
    case (ok opt req)
    have wf: "msg_wf req" using edns_prepare_ok [of req0] assms(2) q ok(1) by (simp add: req_ok_def)
    have d: "isDO req0 = False" using assms(3) by simp
    have retry: "m_Truncated m \<or> plain m"
      if "proto = ''https''" "op_Resolve (resolver E n) rproto req rootservers True (ev_Maxdepth E) 0 False [] False s0 = Done (r, req1) s1"
        "again ''tcp'' (upd_client (opt_SetDo False) req1) s2 = Done m s3" for rproto r req1 s0 s1 s2 s3
      using again [OF that(1) _ _ that(3)] client_reset [OF wf ok(4,3) resolver_same_req [OF that(2)]] by blast
    have miss: "m_Truncated m \<or> plain m"
      if "query_miss E C (resolver E n) again proto rproto key opt False req q s0 = Done m s'" for rproto key s0
      by (rule query_miss_plain [OF that ok(2)]) (rule retry)
    have miss': "plain m" if "query_miss E C (resolver E n) again proto rproto key opt False req q s0 = Done m s'" "\<not> m_Truncated m"
      for rproto key s0 using miss [OF that(1)] that(2) by blast
    from assms(1) q ok(1) d show ?thesis
      by (cases "m_Truncated m")
        (auto simp: query_step_def run_simps Let_def handleFailed_plain debug_reply_plain query_hit_plain [OF _ ok(2)] miss'
          elim!: rbind_DoneE split: if_split_asm sum.split_asm)
  qed
qed (use assms(1) in \<open>simp add: query_step_def run_simps\<close>)

text \<open>C11. DNSSEC records go only to clients that ask for them: for a well-formed request without the DO flag, over UDP, TCP or
  HTTPS, a reply that is not truncated has no RRSIG, NSEC or NSEC3 record in its answer and authority sections,
  although the resolver always asks for them, and an OPT record of the reply does not have the flag. The additional section
  is not filtered.\<close>

theorem query_strips_dnssec:
  assumes "query E C (resolver E n) proto req s = Done m s'" "msg_wf req" "\<not> isDO req" "\<not> m_Truncated m"
  shows "(\<forall>r \<in> set (m_Answer m) \<union> set (m_Ns m). \<not> is_dnssec r) \<and> (\<forall>opt. IsEdns0 m = Some opt \<longrightarrow> \<not> opt_Do opt)"
proof -
  have "m_Truncated m \<or> plain m"
    using assms(1-3) unfolding query_def
    by (rule query_step_plain) (erule query_step_plain; simp)
  with assms(4) show ?thesis by (simp add: plain_def)
qed

section \<open>Witnesses\<close>

text \<open>A parser that skips comments.\<close>

definition demo_NewRR :: "string \<Rightarrow> rr option" where
  "demo_NewRR s = (if prefix '';'' s then None else Some (RR (demo_header TypeHINFO) (HINFO_rd ''comment'' [])))"

definition demo_conf :: hconf where
  "demo_conf = \<lparr>hc_RateLimit = 0, hc_Expire = 600, hc_Nullroute = [0, 0, 0, 0], hc_Nullroutev6 = replicate 16 0, hc_debugns = False,
     hc_NewRR = demo_NewRR, hc_BlockList = BlockCache_Set ''x.'' NewBlockCache,
     hc_AccessList = (\<lambda>host. host = ''127.0.0.1'')\<rparr>"

lemma demo_conf_ok: "parser_typed demo_conf"
  by (simp add: parser_typed_def demo_conf_def demo_NewRR_def rr_wf_def demo_header_def)

lemma demo_query_any:
  "\<exists>m. query E demo_conf R proto (demo_req TypeANY cd) s = Done m s \<and> m_Rcode m = RcodeNotImplemented \<and> \<not> m_Truncated m"
  by (simp add: query_def query_step_def edns_prepare_def demo_req_def msg_zero_def IsEdns0_def rgo_def rbind_def rret_def Let_def)
     (simp add: handleFailed_def upd_Edns0_def SetRcode_def SetReply_def msg_zero_def Let_def)

theorem handler_serves_witness:
  "\<exists>m s'. serve (demo_env (demo_reply [demo_a])) demo_conf (resolver (demo_env (demo_reply [demo_a])) 1)
      [(''udp'', Some ''10.0.0.1:99'', demo_req TypeA True), (''udp'', Some ''127.0.0.1:99'', demo_req TypeANY True)] demo_state =
      Done [None, Some m] s' \<and> rinv (shard_part 1024) s' \<and> m_Id m = 7"
proof -
  let ?E = "demo_env (demo_reply [demo_a])"
  let ?rs = "[(''udp'', Some ''10.0.0.1:99'', demo_req TypeA True), (''udp'', Some ''127.0.0.1:99'', demo_req TypeANY True)]"
  obtain m where m: "query ?E demo_conf (resolver ?E 1) ''udp'' (demo_req TypeANY True) demo_state = Done m demo_state" "\<not> m_Truncated m"
    using demo_query_any by blast
  have host: "fst (SplitHostPort ''10.0.0.1:99'') = ''10.0.0.1''" "fst (SplitHostPort ''127.0.0.1:99'') = ''127.0.0.1''"
    by code_simp+
  have run: "serve ?E demo_conf (resolver ?E 1) ?rs demo_state = Done [None, Some m] demo_state"
    using m(1) host by (simp add: handle_def remoteAddr_def demo_conf_def writeReplyMsg_def rbind_def rret_def)
  have "list_all (\<lambda>(_, _, req). msg_wf req \<and> m_Question req \<noteq> []) ?rs"
    using demo_req_ok by (simp add: req_ok_def)
  from handler_serves [OF demo_reply_ok demo_conf_ok demo_state_inv(1) this, of "[demo_a]" 1] run demo_a_wf m(2)
  show ?thesis by (simp add: demo_req_def)
qed

theorem access_denied_witness:
  "handle (demo_env (demo_reply [])) demo_conf (resolver (demo_env (demo_reply [])) 1) ''udp'' (Some (JoinHostPort ''2001:db8::1'' ''99''))
     (demo_req TypeA True) demo_state = Done None demo_state"
  by (rule access_denied) (simp_all add: demo_conf_def)

theorem query_refuses_witness:
  "\<exists>m. query (demo_env (demo_reply [])) demo_conf (resolver (demo_env (demo_reply [])) 1) ''udp'' (demo_req TypeANY True) demo_state =
     Done m demo_state \<and> m_Rcode m = RcodeNotImplemented"
  using query_refuses [of "demo_req TypeANY True" "\<lparr>q_Name = ''x.'', q_Qtype = TypeANY, q_Qclass = ClassINET\<rparr>" "[]" demo_conf
      "demo_env (demo_reply [])" "resolver (demo_env (demo_reply [])) 1" "''udp''" demo_state] demo_req_ok [of TypeANY True]
  by (auto simp: req_ok_def) (auto simp: demo_req_def msg_zero_def IsEdns0_def)

theorem blocked_name_not_asked_witness:
  "\<exists>m s'. query (demo_env (demo_reply [])) demo_conf (resolver (demo_env (demo_reply [])) 1) ''udp'' (demo_req TypeA True) demo_state =
     Done m s' \<and> rs_sent s' = [] \<and> m_Answer m = [RR \<lparr>rh_Name = ''x.'', rh_Rrtype = TypeA, rh_Class = ClassINET, rh_Ttl = 600\<rparr> (A_rd [0, 0, 0, 0])]"
proof -
  have "qc_lookup (rs_Qcache demo_state) key = None"
    "shard_Get (ec_shards (rs_Ecache demo_state) ! shard_index key) key = None" for key
    by (simp_all add: demo_state_def new_state_def NewQueryCache_def NewErrorCache_def qc_lookup_def shardSize_def newShard_def shard_Get_def)
  note miss = this
  let ?q = "\<lparr>q_Name = ''x.'', q_Qtype = TypeA, q_Qclass = ClassINET\<rparr>"
  have req: "msg_wf (demo_req TypeA True)" "m_Question (demo_req TypeA True) = [?q]" "IsEdns0 (demo_req TypeA True) = None"
      "m_RecursionDesired (demo_req TypeA True)"
    using demo_req_ok by (simp_all add: req_ok_def) (simp_all add: demo_req_def msg_zero_def IsEdns0_def)
  have c: "BlockCache_Exists ''x.'' (hc_BlockList demo_conf)" "hc_Expire demo_conf = 600" "hc_Nullroute demo_conf = [0, 0, 0, 0]"
    "rs_sent demo_state = []" by (simp_all add: demo_conf_def demo_state_def new_state_def)
  from blocked_name_not_asked [OF req(1,2), of demo_conf demo_state "demo_env (demo_reply [])"
      "resolver (demo_env (demo_reply [])) 1" "''udp''"] req(3,4) c miss
  show ?thesis by (auto simp del: resolver.simps)
qed

theorem query_strips_dnssec_witness:
  "\<exists>m. query (demo_env (demo_reply [])) demo_conf (resolver (demo_env (demo_reply [])) 1) ''udp'' (demo_req TypeANY True) demo_state =
     Done m demo_state \<and> (\<forall>opt. IsEdns0 m = Some opt \<longrightarrow> \<not> opt_Do opt)"
proof -
  obtain m where m: "query (demo_env (demo_reply [])) demo_conf (resolver (demo_env (demo_reply [])) 1) ''udp'' (demo_req TypeANY True)
      demo_state = Done m demo_state" "\<not> m_Truncated m"
    using demo_query_any [of "demo_env (demo_reply [])" "resolver (demo_env (demo_reply [])) 1" "''udp''" True demo_state] by blast
  have "msg_wf (demo_req TypeANY True)" "\<not> isDO (demo_req TypeANY True)"
    using demo_req_ok by (simp_all add: req_ok_def) (simp add: isDO_def demo_req_def msg_zero_def IsEdns0_def)
  from query_strips_dnssec [OF m(1) this m(2)] m(1) show ?thesis by blast
qed

end
