(* ===== verification/Client_View.thy ===== *)
theory Client_View
  imports Handler_Facts
begin

text \<open>
  What of a server's reply reaches the client: a question that is neither cached nor blocked goes to the root servers of a
  resolver that knows no others, and the reply is followed from there to the message that \<open>query\<close> returns. An AD flag that a
  server made up comes through, and an empty reply to a name that the text parser does not accept stops the handler.
\<close>

section \<open>A question that is asked\<close>

text \<open>The conditions under which \<open>query\<close> asks: no refusal, no entry in either cache, and the name is not blocked.\<close>

definition asked :: "hconf \<Rightarrow> msg \<Rightarrow> question \<Rightarrow> rstate \<Rightarrow> bool" where
  "asked C req q s \<longleftrightarrow> msg_wf req \<and> (\<exists>qs. m_Question req = q # qs) \<and> (\<forall>r. IsEdns0 req = Some r \<longrightarrow> opt_Version r = 0) \<and>
     q_Qtype q \<noteq> TypeANY \<and> \<not> (hc_debugns C \<and> q_Qtype q = TypeHINFO) \<and> (q_Name q = rootzone \<or> m_RecursionDesired req) \<and>
     \<not> ((q_Qtype q = TypeA \<or> q_Qtype q = TypeAAAA) \<and> BlockCache_Exists (q_Name q) (hc_BlockList C)) \<and>
     qc_lookup (rs_Qcache s) (Hash q [m_CheckingDisabled req]) = None \<and>
     shard_Get (ec_shards (rs_Ecache s) ! shard_index (Hash q [m_CheckingDisabled req])) (Hash q [m_CheckingDisabled req]) = None"

lemma query_asked:
  assumes "asked C req q s"
  obtains opt req1 where "rr_type opt = TypeOPT" "\<exists>qs. m_Question req1 = q # qs" "m_CheckingDisabled req1 = m_CheckingDisabled req"
    "\<And>E R proto. query E C R proto req s =
       rbind (query_resolve E C R (query_step E C R (\<lambda>_ _. rstuck)) proto (if proto = ''https'' then ''udp'' else proto)
           (Hash q [m_CheckingDisabled req]) opt (isDO req) req1 q)
         (\<lambda>m. rbind (Lqueue_Done (Hash q [m_CheckingDisabled req])) (\<lambda>_. rret m))
         (s\<lparr>rs_tick := rs_tick s + 3, rs_Lqueue := LQueue_Add (Hash q [m_CheckingDisabled req]) (rs_Lqueue s)\<rparr>)"
proof -
  obtain qs where q: "m_Question req = q # qs" and wf: "msg_wf req" using assms by (auto simp: asked_def)
  show thesis
    using wf
  proof (cases rule: edns_prepare_cases)
    case (badvers r m)
    with assms show thesis by (auto simp: asked_def)
  next
    case (ok opt req1)
    define key where "key = Hash q [m_CheckingDisabled req]"
    define t where "t k = s\<lparr>rs_tick := rs_tick s + k\<rparr>" for k :: nat
    have wait: "Lqueue_Wait E k s = Done () (t 1)" for E k
      by (simp add: Lqueue_Wait_def rnow_def rtick_def rbind_def rret_def t_def)
    have get: "Qcache_Get E key req1 (t 1) = Done (Inl ErrCacheNotFound) (t 2)" for E
      using Qcache_Get_miss [of "t 1" key E req1] assms by (simp add: t_def key_def asked_def)
    have err: "Ecache_Get E key (t 2) = Done (Some ErrCacheNotFound) (t 3)" for E
      using Ecache_Get_miss [of "t 2" key E] assms by (simp add: t_def key_def asked_def numeral_3_eq_3)
    have add: "Lqueue_Add key (t 3) = Done () (s\<lparr>rs_tick := rs_tick s + 3, rs_Lqueue := LQueue_Add key (rs_Lqueue s)\<rparr>)"
      by (simp add: Lqueue_Add_def t_def)
    have run: "query E C R proto req s =
       rbind (query_resolve E C R (query_step E C R (\<lambda>_ _. rstuck)) proto (if proto = ''https'' then ''udp'' else proto) key opt (isDO req) req1 q)
         (\<lambda>m. rbind (Lqueue_Done key) (\<lambda>_. rret m)) (s\<lparr>rs_tick := rs_tick s + 3, rs_Lqueue := LQueue_Add key (rs_Lqueue s)\<rparr>)" for E R proto
      unfolding query_def
      by (subst query_prepared [OF q ok(1)])
        (use assms ok wait get err add in \<open>auto simp: asked_def key_def [symmetric] rbind_def query_miss_def Let_def simp del: One_nat_def\<close>)
    show thesis by (rule that [of opt req1]) (use ok q run in \<open>simp_all add: key_def\<close>)
  qed
qed

section \<open>A resolver that knows only the root servers\<close>

text \<open>Without cached name servers the walk ends at the root servers, and only the clock has moved.\<close>

lemma searchCache_tick:
  "nc_m (rs_Ncache s) = [] \<Longrightarrow> searchCache E n q cd s = Done r s' \<Longrightarrow> r = (rootservers, []) \<and> (\<exists>t. s' = s\<lparr>rs_tick := t\<rparr>)"
proof (induction n arbitrary: q s)
  case (Suc n)
  let ?q = "q\<lparr>q_Qtype := TypeNS, q_Name := upperName (q_Name q)\<rparr>"
  have get: "Ncache_Get E key s = Done (Inl ErrCacheNotFound) (s\<lparr>rs_tick := Suc (rs_tick s)\<rparr>)" for key
    using Suc.prems(1) by (simp add: Ncache_Get_def rnow_def rtick_def rbind_def rret_def NSCache_Get_def)
  show ?case
  proof (cases "upperName (q_Name q) = []")
    case False
    with Suc.prems(2) get have "searchCache E n ?q cd (s\<lparr>rs_tick := Suc (rs_tick s)\<rparr>) = Done r s'"
      by (simp add: rbind_def Let_def)
    from Suc.IH [OF _ this] Suc.prems(1) show ?thesis by auto
  qed (use Suc.prems(2) get in \<open>auto simp: rbind_def rret_def Let_def\<close>)
qed (simp add: run_simps)

lemma start_servers_root:
  assumes "nc_m (rs_Ncache s) = []" "q_Name q = [] \<or> IsFqdn (q_Name q)"
  obtains t where "start_servers E q cd True rootservers [] s = Done (rootservers, []) (s\<lparr>rs_tick := t\<rparr>)"
proof (cases "q_Qtype q = TypeDS")
  case True
  then show thesis using that [of "rs_tick s"] by (simp add: start_servers_def rret_def)
next
  case False
  obtain r s' where "searchCache E (Suc (length (q_Name q))) q cd s = Done r s'"
    using searchCache_closest_ex [of q "Suc (length (q_Name q))" E cd s] assms(2) by auto
  with searchCache_tick [OF assms(1) this] False that show thesis by (auto simp: start_servers_def)
qed

text \<open>The first server's reply, when every server gives the same.\<close>

lemma Resolve_first:
  assumes "nc_m (rs_Ncache s) = []" "q_Name q = [] \<or> IsFqdn (q_Name q)" "servers_ne rootservers s" "m_Question req = q # qs"
    and "\<And>t net host r. ev_exchange E t net host r = (Inr resp, rtt)" "m_Rcode resp = RcodeSuccess"
  obtains s1 where "rs_Lqueue s1 = rs_Lqueue s"
    "\<And>R depth. Resolve E R Net req rootservers True depth 0 False [] False s =
       respond E R Net q rootservers depth 0 False [] False req resp s1"
proof -
  obtain t where t: "start_servers E q (m_CheckingDisabled req) True rootservers [] s = Done (rootservers, []) (s\<lparr>rs_tick := t\<rparr>)"
    by (rule start_servers_root [OF assms(1,2)])
  have "servers_ne rootservers (s\<lparr>rs_tick := t\<rparr>)" using assms(3) by (simp add: servers_ne_def)
  then obtain s1 where "lookup E Net req rootservers (s\<lparr>rs_tick := t\<rparr>) = Done (Inr resp, req) s1" "same_shape (s\<lparr>rs_tick := t\<rparr>) s1"
    using lookup_first [of E Net req "\<lambda>r. r = resp" rootservers "s\<lparr>rs_tick := t\<rparr>"] assms(5,6) by auto
  with t that [of s1] show thesis by (simp add: Resolve_respond [OF assms(4)] rbind_def same_shape_def)
qed

section \<open>The AD flag\<close>

lemma last_cname_none: "\<forall>r \<in> set rs. rr_type r \<noteq> TypeCNAME \<Longrightarrow> last_cname rs acc = Ret acc"
  by (induction rs) auto

lemma finish_reply_AD: "m_AuthenticatedData (finish_reply opt d m) = m_AuthenticatedData m"
  by (simp add: finish_reply_def Let_def clearOPT_def clearDNSSEC_def)

lemma query_answer_plain_answer:
  assumes "m_Answer mesg \<noteq> []" "\<forall>r \<in> set (m_Answer mesg). rr_type r \<noteq> TypeCNAME" "\<exists>qs. m_Question req = q # qs"
  obtains m s' where "query_answer E C R proto key opt d req q mesg s = Done m s'" "m_AuthenticatedData m = m_AuthenticatedData mesg"
    "rs_Lqueue s' = rs_Lqueue s"
proof -
  define m1 where "m1 = default_expire C mesg"
  have m1: "m_Answer m1 = m_Answer mesg" "m_AuthenticatedData m1 = m_AuthenticatedData mesg"
    by (simp_all add: m1_def default_expire_def)
  have add: "additionalAnswer E R proto req m1 s = Done m1 s"
    using assms m1(1) last_cname_none [of "m_Answer mesg"] by (auto simp: additionalAnswer_def rgo_def rbind_def rret_def Let_def)
  obtain s' where s': "Qcache_Set E key (upd_client (opt_SetDo d) m1) s = Done () s'" "rs_Lqueue s' = rs_Lqueue s"
    by (simp add: Qcache_Set_def rnow_def rrnd_def rtick_def rbind_def rret_def)
  show thesis
  proof (rule that)
    show "query_answer E C R proto key opt d req q mesg s = Done (finish_reply opt d m1) s'"
      using assms(1) m1(1) add s'(1) by (simp add: query_answer_def add_hinfo_def m1_def [symmetric] rbind_def rret_def Let_def)
  qed (use m1(2) s'(2) finish_reply_AD in simp_all)
qed

text \<open>C34. A flag that a server sets is relayed: when a question is asked and the answer is not validated, because the request has the
  CD flag or because the resolver has no DS records above the signer of the answer, the reply that the client gets has the
  AD flag exactly when the server's message has it. The resolver here knows the root servers only, every server gives the
  same untruncated answer without an alias, and the first signature of the question's name is not the root's.\<close>

theorem query_relays_AD:
  assumes "asked C req q s" "q_Name q = [] \<or> IsFqdn (q_Name q)"
    and "nc_m (rs_Ncache s) = []" "servers_ne rootservers s" "lqueue_inv (rs_Lqueue s)"
    and "\<And>t net host r. ev_exchange E t net host r = (Inr resp, rtt)"
    and "m_Rcode resp = RcodeSuccess" "\<not> m_Truncated resp" "m_Answer resp \<noteq> []" "\<forall>r \<in> set (m_Answer resp). rr_type r \<noteq> TypeCNAME"
    and "m_CheckingDisabled req \<or> fst (answer_signer (q_Name q) (m_Answer resp)) \<noteq> rootzone"
  shows "\<exists>m s'. query E C (resolver E (Suc n)) proto req s = Done m s' \<and> m_AuthenticatedData m = m_AuthenticatedData resp"
proof -
  let ?key = "Hash q [m_CheckingDisabled req]" and ?net = "if proto = ''https'' then ''udp'' else proto"
  let ?s = "s\<lparr>rs_tick := rs_tick s + 3, rs_Lqueue := LQueue_Add ?key (rs_Lqueue s)\<rparr>"
  obtain opt req1 where r1: "\<exists>qs. m_Question req1 = q # qs" "m_CheckingDisabled req1 = m_CheckingDisabled req"
    and run: "query E C (resolver E (Suc n)) proto req s =
       rbind (query_resolve E C (resolver E (Suc n)) (query_step E C (resolver E (Suc n)) (\<lambda>_ _. rstuck)) proto ?net ?key opt (isDO req) req1 q)
         (\<lambda>m. rbind (Lqueue_Done ?key) (\<lambda>_. rret m)) ?s"
    using query_asked [OF assms(1)] by metis
  obtain qs where q: "m_Question req1 = q # qs" using r1(1) by blast
  obtain s1 where s1: "rs_Lqueue s1 = LQueue_Add ?key (rs_Lqueue s)"
    and res: "\<And>R depth. Resolve E R ?net req1 rootservers True depth 0 False [] False ?s =
       respond E R ?net q rootservers depth 0 False [] False req1 resp s1"
    by (rule Resolve_first [of ?s q req1 qs E resp rtt ?net]) (use assms q in \<open>simp_all add: servers_ne_def\<close>)
  define mesg where "mesg = finish_answer req1 False (cleared resp)"
  have mesg: "m_Answer mesg = m_Answer resp" "m_AuthenticatedData mesg = m_AuthenticatedData resp" "m_Truncated mesg = m_Truncated resp"
    by (simp_all add: mesg_def finish_answer_def)
  have "resolve_answer E R ?net req1 q (cleared resp) [] False s1 = Done (Inr mesg) s1" for R
    using assms(11) r1(2) by (cases "answer_signer (q_Name q) (m_Answer resp)")
      (auto simp: resolve_answer_def ds_select_def rbind_def rret_def mesg_def)
  then have op: "op_Resolve (resolver E (Suc n)) ?net req1 rootservers True (ev_Maxdepth E) 0 False [] False ?s = Done (Inr mesg, req1) s1"
    using assms(8,9) by (simp add: res respond_def rbind_def rret_def)
  obtain m s2 where m: "query_answer E C (resolver E (Suc n)) ?net ?key opt (isDO req) req1 q mesg s1 = Done m s2"
      "m_AuthenticatedData m = m_AuthenticatedData mesg" "rs_Lqueue s2 = rs_Lqueue s1"
    by (rule query_answer_plain_answer [of mesg req1 q]) (use mesg assms(9,10) q in auto)
  have "lqueue_inv (rs_Lqueue s2)" using m(3) s1 lqueue_inv_Add [OF assms(5)] by simp
  then obtain s3 where "Lqueue_Done ?key s2 = Done () s3" by (simp add: Lqueue_Done_def LQueue_Done_Ret)
  with m op assms(8) mesg show ?thesis by (simp only: run query_resolve_def rbind_def outcome.case) (simp add: rret_def)
qed

section \<open>A name that is no record text\<close>

text \<open>When every server answers a question with an empty message and the parser returns no record for the text with the question's
  name, the nil record is used and the handler panics. Names of JSON requests are not escaped, so a name that begins with a
  semicolon is such a text.\<close>

theorem unparsed_name_panics:
  assumes "asked C req q s" "q_Name q = [] \<or> IsFqdn (q_Name q)" "nc_m (rs_Ncache s) = []" "servers_ne rootservers s"
    and "\<And>t net host r. ev_exchange E t net host r = (Inr resp, rtt)"
    and "m_Rcode resp = RcodeSuccess" "\<not> m_Truncated resp" "m_Answer resp = []" "m_Ns resp = []"
    and "hc_NewRR C (hinfo_text C (q_Name q)) = None"
  shows "query E C (resolver E (Suc n)) proto req s = Crash nil_deref"
proof -
  let ?key = "Hash q [m_CheckingDisabled req]" and ?net = "if proto = ''https'' then ''udp'' else proto"
  let ?s = "s\<lparr>rs_tick := rs_tick s + 3, rs_Lqueue := LQueue_Add ?key (rs_Lqueue s)\<rparr>"
  obtain opt req1 where r1: "\<exists>qs. m_Question req1 = q # qs"
    and run: "query E C (resolver E (Suc n)) proto req s =
       rbind (query_resolve E C (resolver E (Suc n)) (query_step E C (resolver E (Suc n)) (\<lambda>_ _. rstuck)) proto ?net ?key opt (isDO req) req1 q)
         (\<lambda>m. rbind (Lqueue_Done ?key) (\<lambda>_. rret m)) ?s"
    using query_asked [OF assms(1)] by metis
  obtain qs where q: "m_Question req1 = q # qs" using r1(1) by blast
  obtain s1 where
    res: "\<And>R depth. Resolve E R ?net req1 rootservers True depth 0 False [] False ?s =
       respond E R ?net q rootservers depth 0 False [] False req1 resp s1"
    by (rule Resolve_first [of ?s q req1 qs E resp rtt ?net]) (use assms q in \<open>simp_all add: servers_ne_def\<close>)
  have e: "m_Answer (resolve_empty req1) = []" "m_Ns (resolve_empty req1) = []" "m_Rcode (resolve_empty req1) = RcodeSuccess"
    "\<not> m_Truncated (resolve_empty req1)"
    using q by (simp_all add: resolve_empty_def SetRcode_def SetReply_def msg_zero_def Let_def)
  have op: "op_Resolve (resolver E (Suc n)) ?net req1 rootservers True (ev_Maxdepth E) 0 False [] False ?s = Done (Inr (resolve_empty req1), req1) s1"
    using assms(6-9) by (simp add: res respond_def rret_def)
  have "query_answer E C R ?net ?key opt (isDO req) req1 q (resolve_empty req1) s1 = Crash nil_deref" for R
    using assms(10) e by (simp add: query_answer_def add_hinfo_def additionalAnswer_def rbind_def rret_def rpanic_def)
  with op e show ?thesis by (simp only: run query_resolve_def rbind_def outcome.case) simp
qed

section \<open>Witnesses\<close>

lemma demo_fresh: "nc_m (rs_Ncache demo_state) = []" "servers_ne rootservers demo_state" "lqueue_inv (rs_Lqueue demo_state)"
  using ref_ok_ne [OF demo_state_inv] demo_state_inv(1) by (simp_all add: rinv_def) (simp add: demo_state_def new_state_def NewNSCache_def)

text \<open>A question of type NS, which the block list leaves alone.\<close>

definition demo_ask :: "string \<Rightarrow> msg" where
  "demo_ask name = (demo_req TypeNS False)\<lparr>m_Question := [\<lparr>q_Name = name, q_Qtype = TypeNS, q_Qclass = ClassINET\<rparr>]\<rparr>"

lemma demo_ask_asked: "asked demo_conf (demo_ask name) \<lparr>q_Name = name, q_Qtype = TypeNS, q_Qclass = ClassINET\<rparr> demo_state"
proof -
  have "qc_lookup (rs_Qcache demo_state) key = None"
    "shard_Get (ec_shards (rs_Ecache demo_state) ! shard_index key) key = None" for key
    by (simp_all add: demo_state_def new_state_def NewQueryCache_def NewErrorCache_def qc_lookup_def shardSize_def newShard_def shard_Get_def)
  then show ?thesis
    by (simp add: asked_def) (simp add: demo_ask_def demo_req_def demo_conf_def msg_zero_def msg_wf_def IsEdns0_def)
qed

theorem query_relays_AD_witness:
  "\<exists>m s'. query (demo_env (\<lambda>_. (demo_reply [demo_a] msg_zero)\<lparr>m_AuthenticatedData := True\<rparr>)) demo_conf
     (resolver (demo_env (\<lambda>_. (demo_reply [demo_a] msg_zero)\<lparr>m_AuthenticatedData := True\<rparr>)) (Suc 0)) ''udp'' (demo_ask ''x.'') demo_state =
     Done m s' \<and> m_AuthenticatedData m"
  using query_relays_AD [OF demo_ask_asked [of "''x.''"] _ demo_fresh, of "demo_env (\<lambda>_. (demo_reply [demo_a] msg_zero)\<lparr>m_AuthenticatedData := True\<rparr>)"
      "(demo_reply [demo_a] msg_zero)\<lparr>m_AuthenticatedData := True\<rparr>" 1 0 "''udp''"]
  by (simp add: IsFqdn_def demo_env_def) (simp add: demo_reply_def demo_a_def demo_header_def msg_zero_def)

theorem unparsed_name_panics_witness:
  "query (demo_env (\<lambda>_. demo_reply [] msg_zero)) demo_conf (resolver (demo_env (\<lambda>_. demo_reply [] msg_zero)) (Suc 0)) ''https''
     (demo_ask '';.'') demo_state = Crash nil_deref"
  using unparsed_name_panics [OF demo_ask_asked [of "'';.''"] _ demo_fresh(1,2), of "demo_env (\<lambda>_. demo_reply [] msg_zero)"
      "demo_reply [] msg_zero" 1 0 "''https''"]
  by (simp add: IsFqdn_def demo_env_def) (simp add: demo_reply_def msg_zero_def demo_conf_def demo_NewRR_def hinfo_text_def)

end
