(* ===== verification/Access_List.thy ===== *)
theory Access_List
  imports Net_Util
begin

unbundle bit_operations_syntax

text \<open>
  The access list: parsing of addresses and networks (\<^verbatim>\<open>net.ParseIP\<close>, \<^verbatim>\<open>net.ParseCIDR\<close>) and the path-compressed
  trie of the vendored library \<^verbatim>\<open>cidranger\<close> that \<^verbatim>\<open>main.go\<close> fills and the handlers ask. A network number, an array of
  32-bit words in the library, is the list of its bits, the most significant first.

  The reference is the set of the configured networks; the trie refines it.
\<close>

section \<open>Parsing addresses\<close>

definition hex_value :: "char \<Rightarrow> nat option" where
  "hex_value c = (let n = of_char c in
     if 48 \<le> n \<and> n \<le> 57 then Some (n - 48) else if 97 \<le> n \<and> n \<le> 102 then Some (n - 87)
     else if 65 \<le> n \<and> n \<le> 70 then Some (n - 55) else None)"

text \<open>The loop of \<^verbatim>\<open>dtoi\<close> and \<^verbatim>\<open>xtoi\<close>: the value and the number of digits; \<open>None\<close> is a number that is too big.\<close>

fun digit_run :: "nat \<Rightarrow> nat \<Rightarrow> nat \<Rightarrow> string \<Rightarrow> (nat \<times> nat) option" where
  "digit_run base n i [] = Some (n, i)"
| "digit_run base n i (c # cs) =
     (case hex_value c of
        Some d \<Rightarrow> if d < base then (if n * base + d \<ge> 0xFFFFFF then None else digit_run base (n * base + d) (Suc i) cs)
                  else Some (n, i)
      | None \<Rightarrow> Some (n, i))"

definition parse_number :: "nat \<Rightarrow> string \<Rightarrow> (nat \<times> nat) option" where
  "parse_number base s = (case digit_run base 0 0 s of Some (n, i) \<Rightarrow> if i = 0 then None else Some (n, i) | None \<Rightarrow> None)"

fun parse_octets :: "nat \<Rightarrow> string \<Rightarrow> ip option" where
  "parse_octets 0 s = (if s = [] then Some [] else None)"
| "parse_octets (Suc k) s =
     (if s = [] then None
      else if k < 3 \<and> hd s \<noteq> CHR ''.'' then None
      else let s1 = (if k < 3 then tl s else s)
           in case parse_number 10 s1 of
                None \<Rightarrow> None
              | Some (n, c) \<Rightarrow> if n > 255 then None else map_option ((#) (of_nat n)) (parse_octets k (drop c s1)))"

definition v4InV6Prefix :: ip where
  "v4InV6Prefix = replicate 10 0 @ [255, 255]"

definition parseIPv4 :: "string \<Rightarrow> ip option" where
  "parseIPv4 s = map_option ((@) v4InV6Prefix) (parse_octets 4 s)"

text \<open>The loop of \<^verbatim>\<open>parseIPv6\<close>: the bytes so far, the position of the ellipsis and the rest of the text.\<close>

fun parse_groups :: "nat \<Rightarrow> ip \<Rightarrow> nat option \<Rightarrow> string \<Rightarrow> (ip \<times> nat option \<times> string) option" where
  "parse_groups 0 a ellipsis s = Some (a, ellipsis, s)"
| "parse_groups (Suc k) a ellipsis s =
     (case parse_number 16 s of
        None \<Rightarrow> None
      | Some (n, c) \<Rightarrow>
          if n > 0xFFFF then None
          else if c < length s \<and> s ! c = CHR ''.''
          then if ellipsis = None \<and> length a \<noteq> 12 then None
               else if length a + 4 > 16 then None
               else map_option (\<lambda>ip4. (a @ drop 12 ip4, ellipsis, [])) (parseIPv4 s)
          else let a1 = a @ [of_nat (n div 256), of_nat n]; s1 = drop c s
               in if s1 = [] then Some (a1, ellipsis, [])
                  else if hd s1 \<noteq> CHR '':'' \<or> length s1 = 1 then None
                  else if s1 ! 1 = CHR '':''
                  then if ellipsis \<noteq> None then None
                       else if drop 2 s1 = [] then Some (a1, Some (length a1), [])
                       else parse_groups k a1 (Some (length a1)) (drop 2 s1)
                  else parse_groups k a1 ellipsis (tl s1))"

definition parseIPv6 :: "string \<Rightarrow> ip option" where
  "parseIPv6 s =
     (let lead = prefix ''::'' s; s1 = (if lead then drop 2 s else s)
      in if lead \<and> s1 = [] then Some (replicate 16 0)
         else case parse_groups 8 [] (if lead then Some 0 else None) s1 of
                None \<Rightarrow> None
              | Some (a, ellipsis, rest) \<Rightarrow>
                  if rest \<noteq> [] then None
                  else if length a < 16
                  then (case ellipsis of
                          None \<Rightarrow> None
                        | Some e \<Rightarrow> Some (take e a @ replicate (16 - length a) 0 @ drop e a))
                  else if ellipsis \<noteq> None then None else Some a)"

fun ParseIP_from :: "string \<Rightarrow> string \<Rightarrow> ip option" where
  "ParseIP_from s [] = None"
| "ParseIP_from s (c # cs) =
     (if c = CHR ''.'' then parseIPv4 s else if c = CHR '':'' then parseIPv6 s else ParseIP_from s cs)"

definition ParseIP :: "string \<Rightarrow> ip option" where
  "ParseIP s = ParseIP_from s s"

definition ip_Mask :: "nat \<Rightarrow> ip \<Rightarrow> ip" where
  "ip_Mask ones a = map (\<lambda>(i, b). b AND push_bit (8 - min 8 (ones - 8 * i)) 255) (enumerate 0 a)"

text \<open>The network: its address, the ones of its mask and the length of the mask.\<close>

definition ParseCIDR :: "string \<Rightarrow> (ip \<times> nat \<times> nat) option" where
  "ParseCIDR s =
     (let addr = takeWhile (\<lambda>c. c \<noteq> CHR ''/'') s; mask = tl (dropWhile (\<lambda>c. c \<noteq> CHR ''/'') s)
      in if CHR ''/'' \<notin> set s then None
         else case (case parseIPv4 addr of Some a \<Rightarrow> Some (drop 12 a) | None \<Rightarrow> parseIPv6 addr) of
                None \<Rightarrow> None
              | Some a \<Rightarrow>
                  (case parse_number 10 mask of
                     None \<Rightarrow> None
                   | Some (n, i) \<Rightarrow> if i \<noteq> length mask \<or> n > 8 * length a then None else Some (ip_Mask n a, n, 8 * length a)))"

section \<open>Network numbers\<close>

definition byte_bits :: "u8 \<Rightarrow> bool list" where
  "byte_bits b = map (\<lambda>i. bit b (7 - i)) [0..<8]"

definition ip_bits :: "ip \<Rightarrow> bool list" where
  "ip_bits a = concat (map byte_bits a)"

definition NewNetworkNumber :: "ip \<Rightarrow> bool list option" where
  "NewNetworkNumber a =
     (case To4 a of Some v4 \<Rightarrow> Some (ip_bits v4) | None \<Rightarrow> if length a = 16 then Some (ip_bits a) else None)"

text \<open>A network: its number, the ones of its mask, and the length of the mask in bits.\<close>

record network =
  nw_Number :: "bool list"
  nw_ones :: nat
  nw_bits :: nat

definition nw_Mask :: "network \<Rightarrow> bool list" where
  "nw_Mask n = replicate (nw_ones n) True @ replicate (nw_bits n - nw_ones n) False"

definition NewNetwork :: "ip \<times> nat \<times> nat \<Rightarrow> network" where
  "NewNetwork = (\<lambda>(a, ones, bits).
     \<lparr>nw_Number = (case NewNetworkNumber a of Some n \<Rightarrow> n | None \<Rightarrow> []), nw_ones = ones, nw_bits = bits\<rparr>)"

definition nw_Masked :: "nat \<Rightarrow> network \<Rightarrow> network" where
  "nw_Masked ones n =
     (if ones \<le> length (nw_Number n)
      then \<lparr>nw_Number = take ones (nw_Number n) @ replicate (length (nw_Number n) - ones) False, nw_ones = ones, nw_bits = length (nw_Number n)\<rparr>
      else \<lparr>nw_Number = [], nw_ones = 0, nw_bits = 0\<rparr>)"

definition nw_Contains :: "network \<Rightarrow> bool list \<Rightarrow> bool" where
  "nw_Contains n nn \<longleftrightarrow> length (nw_Mask n) = length nn \<and> map2 (\<and>) nn (nw_Mask n) = nw_Number n"

text \<open>Networks are compared by their text, in which an IPv4 address in a 128-bit network has the last 32 bits of the mask.\<close>

definition nw_text :: "network \<Rightarrow> (bool list \<times> nat) option" where
  "nw_text n = (if nw_Number n = [] then None
     else Some (nw_Number n, if length (nw_Number n) = 32 \<and> nw_bits n = 128 then nw_ones n - 96 else nw_ones n))"

definition nw_Equal :: "network \<Rightarrow> network \<Rightarrow> bool" where
  "nw_Equal n n1 \<longleftrightarrow> nw_text n = nw_text n1"

definition nn_Bit :: "bool list \<Rightarrow> int \<Rightarrow> (string + bool) go" where
  "nn_Bit n position =
     (if position > int (length n) - 1 then Ret (Inl ''bit position not valid'')
      else if position < 0 then Panic ''index out of range''
      else Ret (Inr (n ! (length n - 1 - nat position))))"

text \<open>The length of the common beginning, and the position of its last bit as the library counts it.\<close>

fun common_bits :: "bool list \<Rightarrow> bool list \<Rightarrow> nat" where
  "common_bits (a # as) (b # bs) = (if a = b then Suc (common_bits as bs) else 0)"
| "common_bits _ _ = 0"

definition nn_LeastCommonBitPosition :: "bool list \<Rightarrow> bool list \<Rightarrow> string + nat" where
  "nn_LeastCommonBitPosition n n1 =
     (if length n \<noteq> length n1 then Inl ''Network input version mismatch''
      else let k = common_bits n n1
           in if k = length n then Inr 0
              else if k = 0 then Inl ''No greatest common bit'' else Inr (length n - k))"

definition LeastCommonBitPosition :: "network \<Rightarrow> network \<Rightarrow> string + nat" where
  "LeastCommonBitPosition n n1 =
     (case nn_LeastCommonBitPosition (nw_Number n) (nw_Number n1) of
        Inl e \<Rightarrow> Inl e
      | Inr lcb \<Rightarrow> Inr (max (length (nw_Number n1) - min (nw_ones n) (nw_ones n1)) lcb))"

section \<open>The trie\<close>

datatype trie = Trie (tr_network: network) (tr_skipped: nat) (tr_entry: bool) (tr_zero: "trie option") (tr_one: "trie option")

definition tr_child :: "bool \<Rightarrow> trie \<Rightarrow> trie option" where
  "tr_child b p = (if b then tr_one p else tr_zero p)"

definition tr_set_child :: "bool \<Rightarrow> trie \<Rightarrow> trie \<Rightarrow> trie" where
  "tr_set_child b c p = (if b then Trie (tr_network p) (tr_skipped p) (tr_entry p) (tr_zero p) (Some c)
     else Trie (tr_network p) (tr_skipped p) (tr_entry p) (Some c) (tr_one p))"

definition newPrefixTree :: "nat \<Rightarrow> trie" where
  "newPrefixTree bits = Trie \<lparr>nw_Number = replicate bits False, nw_ones = 0, nw_bits = bits\<rparr> 0 False None None"

definition newPathprefixTrie :: "network \<Rightarrow> nat \<Rightarrow> trie" where
  "newPathprefixTrie n skipped = Trie (nw_Masked skipped n) skipped False None None"

definition newEntryTrie :: "network \<Rightarrow> trie" where
  "newEntryTrie n = Trie (nw_Masked (nw_ones n) n) (nw_ones n) True None None"

definition totalNumberOfBits :: "trie \<Rightarrow> nat" where
  "totalNumberOfBits p = length (nw_Number (tr_network p))"

definition targetBitPosition :: "trie \<Rightarrow> int" where
  "targetBitPosition p = int (totalNumberOfBits p) - int (tr_skipped p) - 1"

fun trie_contains :: "trie \<Rightarrow> bool list \<Rightarrow> bool go" where
  "trie_contains (Trie net skipped entry zero one) number =
     (if \<not> nw_Contains net number then Ret False
      else if entry then Ret True
      else let pos = int (length (nw_Number net)) - int skipped - 1
           in if pos < 0 then Ret False
              else go_bind (nn_Bit number pos)
                (\<lambda>b. case b of
                   Inl _ \<Rightarrow> Ret False
                 | Inr True \<Rightarrow> (case one of None \<Rightarrow> Ret False | Some c \<Rightarrow> trie_contains c number)
                 | Inr False \<Rightarrow> (case zero of None \<Rightarrow> Ret False | Some c \<Rightarrow> trie_contains c number)))"

text \<open>The prefix that is inserted is always a new node, so its own children are free.\<close>

definition insertPrefix :: "bool \<Rightarrow> trie \<Rightarrow> trie \<Rightarrow> (string + trie) go" where
  "insertPrefix b pre p =
     (case tr_child b p of
        None \<Rightarrow> Ret (Inr (tr_set_child b pre p))
      | Some child \<Rightarrow>
          go_bind (nn_Bit (nw_Number (tr_network child)) (targetBitPosition pre))
            (\<lambda>r. case r of
               Inl e \<Rightarrow> Ret (Inl e)
             | Inr pb \<Rightarrow> Ret (Inr (tr_set_child b (tr_set_child pb child pre) p))))"

text \<open>
  Insertion descends to a child, which may be a path node that was just created; \<open>None\<close> is that the fuel has run out. The result of the
  library's \<^verbatim>\<open>insert\<close> is its error, or the node itself, which it changes.
\<close>

fun trie_insert :: "nat \<Rightarrow> network \<Rightarrow> trie \<Rightarrow> (string + trie) go option" where
  "trie_insert 0 n p = None"
| "trie_insert (Suc k) n p =
     (if nw_Equal (tr_network p) n
      then Some (Ret (Inr (Trie (tr_network p) (tr_skipped p) True (tr_zero p) (tr_one p))))
      else case nn_Bit (nw_Number n) (targetBitPosition p) of
             Panic w \<Rightarrow> Some (Panic w)
           | Ret (Inl e) \<Rightarrow> Some (Ret (Inl e))
           | Ret (Inr b) \<Rightarrow>
               (case tr_child b p of
                  None \<Rightarrow> Some (insertPrefix b (newEntryTrie n) p)
                | Some child \<Rightarrow>
                    (case LeastCommonBitPosition n (tr_network child) of
                       Inl e \<Rightarrow> Some (Ret (Inl e))
                     | Inr lcb \<Rightarrow>
                         if int lcb > targetBitPosition child + 1
                         then (case insertPrefix b (newPathprefixTrie n (totalNumberOfBits p - lcb)) p of
                                 Panic w \<Rightarrow> Some (Panic w)
                               | Ret (Inl e) \<Rightarrow> Some (Ret (Inl e))
                               | Ret (Inr p1) \<Rightarrow>
                                   map_option (map_go (map_sum id (\<lambda>c. tr_set_child b c p1)))
                                     (trie_insert k n (the (tr_child b p1))))
                         else map_option (map_go (map_sum id (\<lambda>c. tr_set_child b c p))) (trie_insert k n child))))"

section \<open>The access list\<close>

record ranger =
  rg_v4 :: trie
  rg_v6 :: trie

definition NewPCTrieRanger :: ranger where
  "NewPCTrieRanger = \<lparr>rg_v4 = newPrefixTree 32, rg_v6 = newPrefixTree 128\<rparr>"

text \<open>The fuel of an insertion: a descent passes each bit at most twice.\<close>

definition trie_fuel :: nat where
  "trie_fuel = 300"

definition ranger_Insert :: "ip \<times> nat \<times> nat \<Rightarrow> ranger \<Rightarrow> (string + ranger) go option" where
  "ranger_Insert net rg =
     (if To4 (fst net) \<noteq> None
      then map_option (map_go (map_sum id (\<lambda>t. rg\<lparr>rg_v4 := t\<rparr>))) (trie_insert trie_fuel (NewNetwork net) (rg_v4 rg))
      else if length (fst net) = 16
      then map_option (map_go (map_sum id (\<lambda>t. rg\<lparr>rg_v6 := t\<rparr>))) (trie_insert trie_fuel (NewNetwork net) (rg_v6 rg))
      else Some (Ret (Inl ''Invalid network number input'')))"

definition ranger_Contains :: "ranger \<Rightarrow> ip option \<Rightarrow> bool go" where
  "ranger_Contains rg a =
     (case Option.bind a NewNetworkNumber of
        None \<Rightarrow> Ret False
      | Some nn \<Rightarrow> trie_contains (if To4 (the a) \<noteq> None then rg_v4 rg else rg_v6 rg) nn)"

text \<open>The loop of \<^verbatim>\<open>start\<close>: the first network that does not parse or cannot be inserted ends the process.\<close>

fun fill_access_list :: "string list \<Rightarrow> ranger \<Rightarrow> (string + ranger) go option" where
  "fill_access_list [] rg = Some (Ret (Inr rg))"
| "fill_access_list (cidr # cidrs) rg =
     (case ParseCIDR cidr of
        None \<Rightarrow> Some (Ret (Inl ''Access list parse cidr failed''))
      | Some net \<Rightarrow>
          (case ranger_Insert net rg of
             Some (Ret (Inr rg1)) \<Rightarrow> fill_access_list cidrs rg1
           | Some (Ret (Inl e)) \<Rightarrow> Some (Ret (Inl ''Access list insert cidr failed''))
           | other \<Rightarrow> other))"

end
