(* ===== verification/Doh.thy ===== *)
theory Doh
  imports Handler Access_List
begin

text \<open>
  DNS over HTTPS: the package \<^verbatim>\<open>doh\<close> (\<^verbatim>\<open>doh/msg.go\<close>, \<^verbatim>\<open>doh/qtype.go\<close>) and the HTTP handlers (\<^verbatim>\<open>doh.go\<close>).
  An HTTP request is a record of what the handlers read of it, a response is its status, content type and body.
  What comes from the DNS library is in the record \<open>doh_lib\<close>: packing and unpacking of messages, the text of a record
  and of its header. The JSON encoder is the one of the standard library, for the types of this package.
\<close>

section \<open>Types of questions\<close>

definition qtype_table :: "(string \<times> u16) list" where
  "qtype_table =
     [(''A'', 1), (''NS'', 2), (''MD'', 3), (''MF'', 4), (''CNAME'', 5), (''SOA'', 6), (''MB'', 7),
      (''MG'', 8), (''MR'', 9), (''NULL'', 10), (''PTR'', 12), (''HINFO'', 13), (''MINFO'', 14), (''MX'', 15),
      (''TXT'', 16), (''RP'', 17), (''AFSDB'', 18), (''X25'', 19), (''ISDN'', 20), (''RT'', 21),
      (''NSAPPTR'', 23), (''SIG'', 24), (''KEY'', 25), (''PX'', 26), (''GPOS'', 27), (''AAAA'', 28),
      (''LOC'', 29), (''NXT'', 30), (''EID'', 31), (''NIMLOC'', 32), (''SRV'', 33), (''ATMA'', 34),
      (''NAPTR'', 35), (''KX'', 36), (''CERT'', 37), (''DNAME'', 39), (''OPT'', 41), (''DS'', 43),
      (''SSHFP'', 44), (''RRSIG'', 46), (''NSEC'', 47), (''DNSKEY'', 48), (''DHCID'', 49), (''NSEC3'', 50),
      (''NSEC3PARAM'', 51), (''TLSA'', 52), (''SMIMEA'', 53), (''HIP'', 55), (''NINFO'', 56), (''RKEY'', 57),
      (''TALINK'', 58), (''CDS'', 59), (''CDNSKEY'', 60), (''OPENPGPKEY'', 61), (''CSYNC'', 62),
      (''SPF'', 99), (''UINFO'', 100), (''UIG'', 101), (''GID'', 102), (''UNSPEC'', 103), (''NID'', 104),
      (''L32'', 105), (''L64'', 106), (''LP'', 107), (''EUI48'', 108), (''EUI64'', 109), (''URI'', 256),
      (''CAA'', 257), (''AVC'', 258), (''TKEY'', 249), (''TSIG'', 250), (''IXFR'', 251), (''AXFR'', 252),
      (''MAILB'', 253), (''MAILA'', 254), (''ANY'', 255), (''TA'', 32768), (''DLV'', 32769),
      (''RESERVED'', 65535)]"

text \<open>\<^verbatim>\<open>strings.ToUpper\<close>, as far as it matters for a table of ASCII names: besides the ASCII letters, two other letters have an
  ASCII capital, the dotless i (C4 B1) and the long s (C5 BF).\<close>

fun strings_ToUpper :: "string \<Rightarrow> string" where
  "strings_ToUpper [] = []"
| "strings_ToUpper (c # cs) =
     (case cs of
        d # ds \<Rightarrow>
          if of_char c = (0xC4 :: nat) \<and> of_char d = (0xB1 :: nat) then CHR ''I'' # strings_ToUpper ds
          else if of_char c = (0xC5 :: nat) \<and> of_char d = (0xBF :: nat) then CHR ''S'' # strings_ToUpper ds
          else upper_byte c # strings_ToUpper cs
      | [] \<Rightarrow> [upper_byte c])"

text \<open>\<^verbatim>\<open>strconv.Atoi\<close>: a sign and digits, within 64 bits.\<close>

fun digits_value :: "int \<Rightarrow> string \<Rightarrow> int option" where
  "digits_value acc [] = Some acc"
| "digits_value acc (c # cs) =
     (let n = of_char c :: nat
      in if 48 \<le> n \<and> n \<le> 57 then digits_value (acc * 10 + int (n - 48)) cs else None)"

definition Atoi :: "string \<Rightarrow> int option" where
  "Atoi s =
     (let negative = (s \<noteq> [] \<and> hd s = CHR ''-'');
          ds = (if s \<noteq> [] \<and> (hd s = CHR ''-'' \<or> hd s = CHR ''+'') then tl s else s)
      in if ds = [] then None
         else case digits_value 0 ds of
                None \<Rightarrow> None
              | Some v \<Rightarrow> let w = (if negative then - v else v)
                          in if - (2 ^ 63) \<le> w \<and> w < 2 ^ 63 then Some w else None)"

definition ParseQTYPE :: "string \<Rightarrow> u16" where
  "ParseQTYPE s =
     (if s = [] then TypeA
      else case Atoi s of
             Some v \<Rightarrow> word_of_int v
           | None \<Rightarrow> (case gmap_get qtype_table (strings_ToUpper s) of Some v \<Rightarrow> v | None \<Rightarrow> TypeNone))"

section \<open>Messages\<close>

record doh_RR =
  dr_Name :: string
  dr_Type :: u16
  dr_TTL :: u32
  dr_Data :: string

record doh_Msg =
  dm_Status :: int
  dm_TC :: bool
  dm_RD :: bool
  dm_RA :: bool
  dm_AD :: bool
  dm_CD :: bool
  dm_Question :: "question list"
  dm_Answer :: "doh_RR list"
  dm_Authority :: "doh_RR list"

record doh_lib =
  lb_Unpack :: "u8 list \<Rightarrow> msg option"
  lb_Pack :: "msg \<Rightarrow> u8 list option"
  lb_String :: "rr \<Rightarrow> string"
  lb_Header_String :: "rr_header \<Rightarrow> string"

definition TrimPrefix :: "string \<Rightarrow> string \<Rightarrow> string" where
  "TrimPrefix s p = (if prefix p s then drop (length p) s else s)"

definition new_RR :: "doh_lib \<Rightarrow> rr \<Rightarrow> doh_RR" where
  "new_RR L a = \<lparr>dr_Name = rr_name a, dr_Type = rr_type a, dr_TTL = rr_ttl a,
     dr_Data = TrimPrefix (lb_String L a) (lb_Header_String L (Header a))\<rparr>"

definition NewMsg :: "doh_lib \<Rightarrow> msg option \<Rightarrow> doh_Msg option" where
  "NewMsg L m =
     (case m of
        None \<Rightarrow> None
      | Some m \<Rightarrow> Some \<lparr>dm_Status = m_Rcode m, dm_TC = m_Truncated m, dm_RD = m_RecursionDesired m, dm_RA = m_RecursionAvailable m,
          dm_AD = m_AuthenticatedData m, dm_CD = m_CheckingDisabled m, dm_Question = m_Question m,
          dm_Answer = map (new_RR L) (m_Answer m), dm_Authority = map (new_RR L) (m_Ns m)\<rparr>)"

section \<open>The JSON text of a message\<close>

text \<open>
  \<^verbatim>\<open>json.Marshal\<close> of a message, which cannot fail for these types: the fields in their order, without the empty
  sections. Strings are escaped so that the text is also safe inside a script: a byte below 80 is copied or escaped, a byte
  that starts no rune becomes the replacement character, and of the other runes only U+2028 and U+2029 are escaped.
\<close>

definition json_byte :: "nat \<Rightarrow> string" where
  "json_byte b =
     (if b = 92 \<or> b = 34 then [CHR 0x5C, char_of b]
      else if b = 10 then [CHR 0x5C, CHR ''n''] else if b = 13 then [CHR 0x5C, CHR ''r''] else if b = 9 then [CHR 0x5C, CHR ''t'']
      else if b < 32 \<or> b = 60 \<or> b = 62 \<or> b = 38 then CHR 0x5C # ''u00'' @ [hex_digit (b div 16), hex_digit (b mod 16)]
      else [char_of b])"

definition json_rune :: "string \<Rightarrow> string" where
  "json_rune s =
     (if of_char (hd s) < (0x80 :: nat) then json_byte (of_char (hd s))
      else if rune_len s = 1 then CHR 0x5C # ''ufffd''
      else if take 2 s = [CHR 0xE2, CHR 0x80] \<and> byte_in s 2 0xA8 0xA9
      then CHR 0x5C # ''u202'' @ [hex_digit (of_char (s ! 2) mod 16)]
      else take (rune_len s) s)"

function json_chars :: "string \<Rightarrow> string" where
  "json_chars [] = []"
| "json_chars (c # cs) = json_rune (c # cs) @ json_chars (drop (rune_len (c # cs)) (c # cs))"
  by pat_completeness auto
termination
  by (relation "measure length") (auto simp: rune_len_pos)

declare json_chars.simps(2) [simp del]

definition json_string :: "string \<Rightarrow> string" where
  "json_string s = CHR 0x22 # json_chars s @ [CHR 0x22]"

definition json_bool :: "bool \<Rightarrow> string" where
  "json_bool b = (if b then ''true'' else ''false'')"

definition json_int :: "int \<Rightarrow> string" where
  "json_int n = (if n < 0 then CHR ''-'' # itoa (nat (- n)) else itoa (nat n))"

definition json_object :: "(string \<times> string) list \<Rightarrow> string" where
  "json_object fs = ''{'' @ strings_join (map (\<lambda>(k, v). json_string k @ '':'' @ v) fs) '','' @ ''}''"

definition json_array :: "string list \<Rightarrow> string" where
  "json_array vs = ''['' @ strings_join vs '','' @ '']''"

definition json_question :: "question \<Rightarrow> string" where
  "json_question q = json_object [(''name'', json_string (q_Name q)), (''type'', itoa (unat (q_Qtype q)))]"

definition json_RR :: "doh_RR \<Rightarrow> string" where
  "json_RR r = json_object [(''name'', json_string (dr_Name r)), (''type'', itoa (unat (dr_Type r))), (''TTL'', itoa (unat (dr_TTL r))),
     (''data'', json_string (dr_Data r))]"

definition Marshal :: "doh_Msg option \<Rightarrow> string" where
  "Marshal m =
     (case m of
        None \<Rightarrow> ''null''
      | Some m \<Rightarrow> json_object
          ([(''Status'', json_int (dm_Status m)), (''TC'', json_bool (dm_TC m)), (''RD'', json_bool (dm_RD m)), (''RA'', json_bool (dm_RA m)),
            (''AD'', json_bool (dm_AD m)), (''CD'', json_bool (dm_CD m)), (''Question'', json_array (map json_question (dm_Question m)))] @
           (if dm_Answer m = [] then [] else [(''Answer'', json_array (map json_RR (dm_Answer m)))]) @
           (if dm_Authority m = [] then [] else [(''Authority'', json_array (map json_RR (dm_Authority m)))])))"

section \<open>Requests and responses\<close>

record http_req =
  hr_RemoteAddr :: string
  hr_Method :: string
  hr_Query :: "string \<Rightarrow> string"
  hr_Header :: "string \<Rightarrow> string"
  hr_Body :: "u8 list option"

datatype http_body = Text_body string | Wire_body "u8 list" | Json_body string

record http_resp =
  hp_Status :: nat
  hp_Server :: string
  hp_Type :: string
  hp_Body :: http_body

fun StatusText :: "nat \<Rightarrow> string" where
  "StatusText n =
     (if n = 400 then ''Bad Request'' else if n = 401 then ''Unauthorized'' else if n = 405 then ''Method Not Allowed''
      else if n = 415 then ''Unsupported Media Type'' else if n = 500 then ''Internal Server Error'' else [])"

text \<open>\<^verbatim>\<open>http.Error\<close> ends the text with a line break.\<close>

definition http_Error :: "nat \<Rightarrow> http_resp" where
  "http_Error code = \<lparr>hp_Status = code, hp_Server = [], hp_Type = ''text/plain; charset=utf-8'',
     hp_Body = Text_body (StatusText code @ [CHR 0x0A])\<rparr>"

text \<open>The build version of \<^verbatim>\<open>main.go\<close>, which the answers name.\<close>

definition Version :: string where
  "Version = ''0.2.2''"

definition server_header :: string where
  "server_header = ''SDNS/'' @ Version"

text \<open>\<^verbatim>\<open>base64.RawURLEncoding\<close>: no padding, line breaks are skipped.\<close>

definition b64url_digit :: "char \<Rightarrow> nat option" where
  "b64url_digit c = (if c = CHR ''-'' then Some 62 else if c = CHR ''_'' then Some 63
     else if c = CHR ''+'' \<or> c = CHR ''/'' then None else b64_digit c)"

fun b64url_quanta :: "nat list \<Rightarrow> u8 list option" where
  "b64url_quanta [] = Some []"
| "b64url_quanta [a] = None"
| "b64url_quanta [a, b] = Some (take 1 (b64_bytes a b 0 0))"
| "b64url_quanta [a, b, c] = Some (take 2 (b64_bytes a b c 0))"
| "b64url_quanta (a # b # c # d # ds) = map_option (\<lambda>bs. b64_bytes a b c d @ bs) (b64url_quanta ds)"

definition b64url_decode :: "string \<Rightarrow> u8 list option" where
  "b64url_decode s =
     (let ds = map b64url_digit (filter (\<lambda>c. of_char c \<noteq> (10 :: nat) \<and> of_char c \<noteq> (13 :: nat)) s)
      in if None \<in> set ds then None else b64url_quanta (map the ds))"

section \<open>The wire format\<close>

text \<open>The bytes of the message, or the status of the error.\<close>

definition wire_bytes :: "http_req \<Rightarrow> nat + u8 list" where
  "wire_bytes r =
     (if hr_Method r = ''GET''
      then case b64url_decode (hr_Query r ''dns'') of
             None \<Rightarrow> Inl 400
           | Some buf \<Rightarrow> if buf = [] then Inl 400 else Inr buf
      else if hr_Method r = ''POST''
      then if hr_Header r ''Content-Type'' \<noteq> ''application/dns-message'' then Inl 415
           else case hr_Body r of None \<Rightarrow> Inl 500 | Some buf \<Rightarrow> Inr buf
      else Inl 405)"

definition handleWireFormat :: "renv \<Rightarrow> hconf \<Rightarrow> resolver_ops \<Rightarrow> doh_lib \<Rightarrow> http_req \<Rightarrow> http_resp rm" where
  "handleWireFormat E C R L r =
     (case wire_bytes r of
        Inl code \<Rightarrow> rret (http_Error code)
      | Inr buf \<Rightarrow>
          (case lb_Unpack L buf of
             None \<Rightarrow> rret (http_Error 400)
           | Some req \<Rightarrow>
               rbind (query E C R ''https'' req)
                 (\<lambda>m. rret (case lb_Pack L m of
                    None \<Rightarrow> http_Error 500
                  | Some packed \<Rightarrow> \<lparr>hp_Status = 200, hp_Server = server_header, hp_Type = ''application/dns-message'',
                      hp_Body = Wire_body packed\<rparr>))))"

section \<open>JSON\<close>

definition subnet_option :: "string \<Rightarrow> edns0 list option" where
  "subnet_option ecs =
     (if ecs = [] then Some []
      else case ParseCIDR ecs of
             None \<Rightarrow> None
           | Some (addr, ones, bits) \<Rightarrow>
               Some [EDNS0_SUBNET (if bits = 32 then 1 else 2) (of_nat ones) 0 addr])"

definition json_request :: "http_req \<Rightarrow> msg option" where
  "json_request r =
     (let name = hr_Query r ''name''; name1 = (if suffix ''.'' name then name else name @ ''.'');
          qtype = ParseQTYPE (hr_Query r ''type'')
      in if name = [] \<or> qtype = TypeNone then None
         else case subnet_option (hr_Query r ''edns_client_subnet'') of
                None \<Rightarrow> None
              | Some options \<Rightarrow>
                  let opt = RR \<lparr>rh_Name = ''.'', rh_Rrtype = TypeOPT, rh_Class = 4096, rh_Ttl = 0\<rparr> (OPT_rd 0 options);
                      opt1 = (if hr_Query r ''do'' = ''true'' then opt_SetDo True opt else opt)
                  in Some (msg_zero\<lparr>m_RecursionDesired := True, m_CheckingDisabled := (hr_Query r ''cd'' = ''true''),
                       m_Question := [\<lparr>q_Name = name1, q_Qtype = qtype, q_Qclass = ClassINET\<rparr>], m_Extra := [opt1]\<rparr>))"

definition handleJSON :: "renv \<Rightarrow> hconf \<Rightarrow> resolver_ops \<Rightarrow> doh_lib \<Rightarrow> http_req \<Rightarrow> http_resp rm" where
  "handleJSON E C R L r =
     (case json_request r of
        None \<Rightarrow> rret (http_Error 400)
      | Some req \<Rightarrow>
          rbind (query E C R ''https'' req)
            (\<lambda>m. rret \<lparr>hp_Status = 200, hp_Server = server_header,
               hp_Type = (if strings_contains (hr_Header r ''Accept'') ''text/html'' then ''application/x-javascript''
                          else ''application/dns-json''),
               hp_Body = Json_body (Marshal (NewMsg L (Some m)))\<rparr>))"

definition ServeHTTP :: "renv \<Rightarrow> hconf \<Rightarrow> resolver_ops \<Rightarrow> doh_lib \<Rightarrow> http_req \<Rightarrow> http_resp rm" where
  "ServeHTTP E C R L r =
     (let client = fst (SplitHostPort (hr_RemoteAddr r))
      in if \<not> hc_AccessList C client then rret (http_Error 401)
         else if hr_Method r = ''GET'' \<and> hr_Query r ''dns'' = [] then handleJSON E C R L r
         else handleWireFormat E C R L r)"

section \<open>Properties of the question types\<close>

lemma digits_value_append:
  "digits_value acc (xs @ [c]) = (case digits_value acc xs of None \<Rightarrow> None
     | Some v \<Rightarrow> if 48 \<le> (of_char c :: nat) \<and> of_char c \<le> (57 :: nat) then Some (v * 10 + int (of_char c - 48)) else None)"
  by (induction acc xs rule: digits_value.induct) (auto simp: Let_def)

lemma digits_value_itoa: "digits_value 0 (itoa n) = Some (int n)"
proof (induction n rule: itoa.induct)
  case (1 n)
  have c: "of_char (char_of (48 + d) :: char) = (48 + d :: nat)" if "d < 10" for d :: nat
    using that by (simp add: of_char_of)
  show ?case
  proof (cases "n < 10")
    case True
    then show ?thesis by (subst itoa.simps) (simp add: c Let_def)
  next
    case False
    have "int (n div 10) * 10 + int (n mod 10) = int n" by presburger
    with False 1 show ?thesis by (subst itoa.simps) (simp add: digits_value_append c)
  qed
qed

lemma itoa_hd: "itoa n \<noteq> [] \<and> 48 \<le> (of_char (hd (itoa n)) :: nat)"
proof (induction n rule: itoa.induct)
  case (1 n)
  then show ?case by (cases "n < 10") (auto simp: itoa.simps [of n] of_char_of hd_append)
qed

lemma Atoi_itoa: "n < 2 ^ 63 \<Longrightarrow> Atoi (itoa n) = Some (int n)"
proof -
  have "hd (itoa n) \<noteq> CHR ''-''" "hd (itoa n) \<noteq> CHR ''+''" using itoa_hd [of n] by auto
  then show "n < 2 ^ 63 \<Longrightarrow> Atoi (itoa n) = Some (int n)" using itoa_hd [of n] by (simp add: Atoi_def digits_value_itoa)
qed

definition capital :: "char \<Rightarrow> bool" where
  "capital c \<longleftrightarrow> 65 \<le> (of_char c :: nat) \<and> of_char c \<le> (90 :: nat)"

definition alnum :: "char \<Rightarrow> bool" where
  "alnum c \<longleftrightarrow> capital c \<or> 48 \<le> (of_char c :: nat) \<and> of_char c \<le> (57 :: nat)"

lemma qtype_names: "list_all (\<lambda>(name, _). name \<noteq> [] \<and> capital (hd name) \<and> list_all alnum name) qtype_table"
  unfolding qtype_table_def by (simp add: capital_def alnum_def)

lemma ToUpper_ascii: "list_all (\<lambda>c. (of_char c :: nat) < 128) s \<Longrightarrow> strings_ToUpper s = to_upper s"
proof (induction s)
  case (Cons c cs)
  then show ?case by (cases cs) (simp_all add: to_upper_def)
qed (simp add: to_upper_def)

lemma alnum_bytes:
  assumes "alnum c"
  shows "(of_char c :: nat) < 128" "(of_char (lower_byte c) :: nat) < 128" "upper_byte c = c" "upper_byte (lower_byte c) = c"
  using assms by (auto simp: alnum_def capital_def lower_byte_def upper_byte_def of_char_of Let_def)

lemma ToUpper_alnum:
  assumes "list_all alnum s"
  shows "strings_ToUpper s = s" "strings_ToUpper (to_lower s) = s"
proof -
  have a: "\<forall>c \<in> set s. alnum c" using assms by (simp add: list_all_iff)
  have "list_all (\<lambda>c. (of_char c :: nat) < 128) s" "list_all (\<lambda>c. (of_char c :: nat) < 128) (to_lower s)"
    using a alnum_bytes by (auto simp: list_all_iff to_lower_def)
  then show "strings_ToUpper s = s" "strings_ToUpper (to_lower s) = s"
    using a alnum_bytes by (simp_all add: ToUpper_ascii to_upper_def to_lower_def map_idI)
qed

lemma Atoi_letter: "s \<noteq> [] \<Longrightarrow> 57 < (of_char (hd s) :: nat) \<Longrightarrow> Atoi s = None"
  by (cases s) (auto simp: Atoi_def Let_def)

lemma capital_bytes: "capital c \<Longrightarrow> 57 < (of_char c :: nat) \<and> 57 < (of_char (lower_byte c) :: nat)"
  by (auto simp: capital_def lower_byte_def of_char_of Let_def)

lemma ParseQTYPE_name:
  assumes "name \<noteq> []" "capital (hd name)" "list_all alnum name" "gmap_get qtype_table name = Some v"
  shows "ParseQTYPE name = v" "ParseQTYPE (to_lower name) = v"
proof -
  have "Atoi name = None" "Atoi (to_lower name) = None"
    using capital_bytes [OF assms(2)] assms(1) by (auto intro!: Atoi_letter simp: to_lower_def hd_map)
  with ToUpper_alnum [OF assms(3)] assms(1,4) show "ParseQTYPE name = v" "ParseQTYPE (to_lower name) = v"
    by (simp_all add: ParseQTYPE_def)
qed

lemma qtype_distinct: "distinct (map fst qtype_table)"
  unfolding qtype_table_def by code_simp

lemma qtype_lookup: "(name, v) \<in> set qtype_table \<Longrightarrow> gmap_get qtype_table name = Some v"
  using qtype_distinct by simp

text \<open>Question types survive their text: the decimal text of every 16-bit type parses to that type, the name of every entry of the
  table parses to its value, in capitals and in small letters, and the empty text stands for A.\<close>

theorem ParseQTYPE_roundtrip:
  "ParseQTYPE (itoa (unat t)) = t \<and> ParseQTYPE [] = TypeA \<and>
   list_all (\<lambda>(name, v). ParseQTYPE name = v \<and> ParseQTYPE (to_lower name) = v) qtype_table"
proof (intro conjI)
  have "unat t < 2 ^ LENGTH(16)" by (rule unsigned_less)
  then have "unat t < 2 ^ 63" by simp
  from Atoi_itoa [OF this] itoa_hd [of "unat t"] show "ParseQTYPE (itoa (unat t)) = t"
    by (simp add: ParseQTYPE_def)
  show "list_all (\<lambda>(name, v). ParseQTYPE name = v \<and> ParseQTYPE (to_lower name) = v) qtype_table"
    using qtype_names
    by (auto simp: list_all_iff [of _ qtype_table] intro!: ParseQTYPE_name qtype_lookup)
qed (simp add: ParseQTYPE_def)

text \<open>Types that are misread: the type UID is unknown, because its entry is under the name UIG, and numbers outside 16 bits
  wrap around to another type instead of being refused.\<close>

theorem ParseQTYPE_misreads:
  "ParseQTYPE ''UID'' = TypeNone \<and> ParseQTYPE ''UIG'' = 101 \<and> ParseQTYPE ''65537'' = TypeA \<and> ParseQTYPE ''-1'' = 65535"
  by (intro conjI; code_simp)

end
