(* ===== verification/Doh_Json.thy ===== *)
theory Doh_Json
  imports Doh
begin

text \<open>
  The JSON answers of the HTTP handlers, read back. \<open>read_json\<close> is a reader of JSON texts without white space; what \<open>Marshal\<close>
  writes for a message reads as the object with the fields of \<^verbatim>\<open>doh/msg.go\<close>. Strings come back as \<open>valid_text\<close>: the text itself
  when it is UTF-8, with the replacement character for every byte that starts no rune.
\<close>

section \<open>A reader\<close>

datatype json_value = JNull | JBool bool | JNum int | JStr string | JArr "json_value list" | JObj "(string \<times> json_value) list"

definition then_read :: "'a list \<Rightarrow> ('a list \<times> string) option \<Rightarrow> ('a list \<times> string) option" where
  "then_read t x = map_option (\<lambda>(u, r). (t @ u, r)) x"

lemma then_read_simps [simp]:
  "then_read t None = None" "then_read t (Some (u, r)) = Some (t @ u, r)" "then_read [] x = x"
  "then_read t (then_read u x) = then_read (t @ u) x"
  by (cases x; auto simp: then_read_def)+

definition json_hex :: "char \<Rightarrow> nat option" where
  "json_hex c =
     (let n = of_char c :: nat
      in if 48 \<le> n \<and> n \<le> 57 then Some (n - 48) else if 97 \<le> n \<and> n \<le> 102 then Some (n - 87)
         else if 65 \<le> n \<and> n \<le> 70 then Some (n - 55) else None)"

definition hex4 :: "char \<Rightarrow> char \<Rightarrow> char \<Rightarrow> char \<Rightarrow> nat option" where
  "hex4 a b c d =
     (case (json_hex a, json_hex b, json_hex c, json_hex d) of
        (Some w, Some x, Some y, Some z) \<Rightarrow> Some (4096 * w + 256 * x + 16 * y + z)
      | _ \<Rightarrow> None)"

text \<open>The UTF-8 bytes of a code point of four hexadecimal digits; surrogates are refused.\<close>

definition utf8 :: "nat \<Rightarrow> string option" where
  "utf8 n =
     (if n < 128 then Some [char_of n]
      else if n < 2048 then Some [char_of (192 + n div 64), char_of (128 + n mod 64)]
      else if 55296 \<le> n \<and> n < 57344 then None
      else Some [char_of (224 + n div 4096), char_of (128 + n div 64 mod 64), char_of (128 + n mod 64)])"

text \<open>The escape after a backslash and the rest of the text.\<close>

definition read_escape :: "string \<Rightarrow> (string \<times> string) option" where
  "read_escape s =
     (case s of
        [] \<Rightarrow> None
      | e # r \<Rightarrow>
          if e = CHR 0x22 \<or> e = CHR 0x5C \<or> e = CHR ''/'' then Some ([e], r)
          else if e = CHR ''b'' then Some ([CHR 0x08], r) else if e = CHR ''f'' then Some ([CHR 0x0C], r)
          else if e = CHR ''n'' then Some ([CHR 0x0A], r) else if e = CHR ''r'' then Some ([CHR 0x0D], r)
          else if e = CHR ''t'' then Some ([CHR 0x09], r)
          else if e = CHR ''u'' then
            (case r of
               a # b # c # d # r' \<Rightarrow> map_option (\<lambda>t. (t, r')) (Option.bind (hex4 a b c d) utf8)
             | _ \<Rightarrow> None)
          else None)"

text \<open>The characters up to the closing quote, and the text after it.\<close>

function read_chars :: "string \<Rightarrow> (string \<times> string) option" where
  "read_chars [] = None"
| "read_chars (c # cs) =
     (if c = CHR 0x22 then Some ([], cs)
      else if c = CHR 0x5C
      then case read_escape cs of
             None \<Rightarrow> None
           | Some (t, r) \<Rightarrow> if length r < length cs then then_read t (read_chars r) else None
      else if of_char c < (32 :: nat) then None
      else then_read [c] (read_chars cs))"
  by pat_completeness auto
termination
  by (relation "measure length") auto

definition is_digit :: "char \<Rightarrow> bool" where
  "is_digit c \<longleftrightarrow> 48 \<le> (of_char c :: nat) \<and> (of_char c :: nat) \<le> 57"

definition read_digits :: "string \<Rightarrow> (int \<times> string) option" where
  "read_digits s =
     (let ds = takeWhile is_digit s
      in if ds = [] then None else map_option (\<lambda>v. (v, dropWhile is_digit s)) (digits_value 0 ds))"

text \<open>Values, and the rest of an array and of an object after its first value has begun; the fuel bounds the nesting and the
  number of elements.\<close>

fun read_value :: "nat \<Rightarrow> string \<Rightarrow> (json_value \<times> string) option"
  and read_items :: "nat \<Rightarrow> string \<Rightarrow> (json_value list \<times> string) option"
  and read_fields :: "nat \<Rightarrow> string \<Rightarrow> ((string \<times> json_value) list \<times> string) option" where
  "read_value 0 s = None"
| "read_value (Suc n) s =
     (if s = [] then None
      else if hd s = CHR 0x22 then map_option (map_prod JStr id) (read_chars (tl s))
      else if hd s = CHR ''['' then
        (if take 1 (tl s) = '']'' then Some (JArr [], drop 2 s) else map_option (map_prod JArr id) (read_items n (tl s)))
      else if hd s = CHR ''{'' then
        (if take 1 (tl s) = ''}'' then Some (JObj [], drop 2 s) else map_option (map_prod JObj id) (read_fields n (tl s)))
      else if hd s = CHR ''-'' then map_option (map_prod (\<lambda>v. JNum (- v)) id) (read_digits (tl s))
      else if is_digit (hd s) then map_option (map_prod JNum id) (read_digits s)
      else if take 4 s = ''true'' then Some (JBool True, drop 4 s)
      else if take 5 s = ''false'' then Some (JBool False, drop 5 s)
      else if take 4 s = ''null'' then Some (JNull, drop 4 s)
      else None)"
| "read_items 0 s = None"
| "read_items (Suc n) s =
     (case read_value n s of
        Some (v, c # r) \<Rightarrow>
          if c = CHR '','' then then_read [v] (read_items n r)
          else if c = CHR '']'' then Some ([v], r) else None
      | _ \<Rightarrow> None)"
| "read_fields 0 s = None"
| "read_fields (Suc n) s =
     (if take 1 s \<noteq> [CHR 0x22] then None
      else case read_chars (tl s) of
        Some (k, c # r) \<Rightarrow>
          if c \<noteq> CHR '':'' then None
          else (case read_value n r of
                  Some (v, d # r') \<Rightarrow>
                    if d = CHR '','' then then_read [(k, v)] (read_fields n r')
                    else if d = CHR ''}'' then Some ([(k, v)], r') else None
                | _ \<Rightarrow> None)
      | _ \<Rightarrow> None)"

definition read_json :: "string \<Rightarrow> json_value option" where
  "read_json s = (case read_value (2 * length s + 2) s of Some (j, []) \<Rightarrow> Some j | _ \<Rightarrow> None)"

section \<open>Strings\<close>

definition valid_rune :: "string \<Rightarrow> string" where
  "valid_rune s = (if 0x80 \<le> (of_char (hd s) :: nat) \<and> rune_len s = 1 then [CHR 0xEF, CHR 0xBF, CHR 0xBD] else take (rune_len s) s)"

function valid_text :: "string \<Rightarrow> string" where
  "valid_text [] = []"
| "valid_text (c # cs) = valid_rune (c # cs) @ valid_text (drop (rune_len (c # cs)) (c # cs))"
  by pat_completeness auto
termination
  by (relation "measure length") (auto simp: rune_len_pos)

declare valid_text.simps(2) [simp del] read_chars.simps(2) [simp del]

lemma ascii_rune_len: "s \<noteq> [] \<Longrightarrow> (of_char (hd s) :: nat) < 128 \<Longrightarrow> rune_len s = 1"
  by (cases s) (auto simp: rune_len_def byte_in_def)

lemma valid_text_ascii: "\<forall>c \<in> set s. (of_char c :: nat) < 128 \<Longrightarrow> valid_text s = s"
proof (induction s)
  case (Cons c cs)
  then show ?case by (simp add: valid_text.simps(2) valid_rune_def ascii_rune_len)
qed simp

lemma char_of_eq: "(of_char c :: nat) = n \<Longrightarrow> char_of n = c"
  by (metis char_of_char)

lemma json_hex_digit: "n < 16 \<Longrightarrow> json_hex (hex_digit n) = Some n"
  by (auto simp: json_hex_def hex_digit_def of_char_of Let_def)

lemma read_chars_plain: "32 \<le> (of_char c :: nat) \<Longrightarrow> c \<noteq> CHR 0x22 \<Longrightarrow> c \<noteq> CHR 0x5C \<Longrightarrow>
  read_chars (c # cs) = then_read [c] (read_chars cs)"
  by (simp add: read_chars.simps(2))

lemma read_chars_plains: "\<forall>c \<in> set t. 128 \<le> (of_char c :: nat) \<Longrightarrow> read_chars (t @ r) = then_read t (read_chars r)"
proof (induction t)
  case (Cons c t)
  then have "read_chars (c # t @ r) = then_read [c] (read_chars (t @ r))"
    by (intro read_chars_plain) auto
  with Cons show ?case by simp
qed simp

lemma read_chars_escape:
  "read_escape cs = Some (t, r) \<Longrightarrow> length r < length cs \<Longrightarrow> read_chars (CHR 0x5C # cs) = then_read t (read_chars r)"
  by (simp add: read_chars.simps(2))

lemma read_escape_u:
  "Option.bind (hex4 a b c d) utf8 = Some t \<Longrightarrow> read_escape (CHR ''u'' # a # b # c # d # r) = Some (t, r)"
  by (simp add: read_escape_def)

lemma read_json_byte:
  assumes "b < 128"
  shows "read_chars (json_byte b @ r) = then_read [char_of b] (read_chars r)"
proof -
  have c: "(of_char (char_of b :: char) :: nat) = b" using assms by (simp add: of_char_of)
  have eq: "char_of b = x \<longleftrightarrow> b = of_char x" for x :: char using c by (metis char_of_char)
  have ch: "char_of (34 :: nat) = CHR 0x22" "char_of (92 :: nat) = CHR 0x5C" "char_of (10 :: nat) = CHR 0x0A" "char_of (13 :: nat) = CHR 0x0D"
    "char_of (9 :: nat) = CHR 0x09" by (simp_all add: char_of_eq)
  have u: "read_chars (CHR 0x5C # ''u00'' @ [hex_digit (b div 16), hex_digit (b mod 16)] @ r) = then_read [char_of b] (read_chars r)"
  proof -
    have z: "json_hex CHR ''0'' = Some 0" by (simp add: json_hex_def)
    have "hex4 CHR ''0'' CHR ''0'' (hex_digit (b div 16)) (hex_digit (b mod 16)) = Some b"
      using json_hex_digit [of "b div 16"] json_hex_digit [of "b mod 16"] assms by (simp add: hex4_def z)
    then have "read_escape (CHR ''u'' # CHR ''0'' # CHR ''0'' # hex_digit (b div 16) # hex_digit (b mod 16) # r) = Some ([char_of b], r)"
      by (intro read_escape_u) (simp add: utf8_def assms)
    from read_chars_escape [OF this] show ?thesis by simp
  qed
  have two: "read_chars (CHR 0x5C # e # r) = then_read [x] (read_chars r)" if "read_escape (e # r) = Some ([x], r)" for e x
    using read_chars_escape [OF that] by simp
  have plain: "read_chars (char_of b # r) = then_read [char_of b] (read_chars r)" if "32 \<le> b" "b \<noteq> 92" "b \<noteq> 34"
    using read_chars_plain [of "char_of b" r] that c eq by simp
  show ?thesis
    using u plain two [of "CHR 0x22" "CHR 0x22"] two [of "CHR 0x5C" "CHR 0x5C"] two [of "CHR ''n''" "CHR 0x0A"] two [of "CHR ''r''" "CHR 0x0D"]
      two [of "CHR ''t''" "CHR 0x09"]
    by (auto simp: json_byte_def read_escape_def ch)
qed

lemma rune_bytes:
  assumes "rune_len s \<noteq> 1" "c \<in> set (take (rune_len s) s)"
  shows "128 \<le> (of_char c :: nat)"
proof -
  obtain i where i: "i < rune_len s" "i < length s" "c = s ! i" using assms(2) by (auto simp: in_set_conv_nth)
  have "i < 4" using i(1) by (auto simp: rune_len_def split: if_split_asm)
  then have "i = 0 \<or> i = 1 \<or> i = 2 \<or> i = 3" by linarith
  with i assms(1) show ?thesis by (auto simp: rune_len_def byte_in_def split: if_split_asm)
qed

text \<open>The line and paragraph separators, which are escaped although they are valid.\<close>

lemma read_separator:
  assumes "n = 8 \<or> n = 9"
  shows "read_chars (CHR 0x5C # ''u202'' @ [hex_digit n] @ r) = then_read [CHR 0xE2, CHR 0x80, char_of (0xA0 + n)] (read_chars r)"
proof -
  have "Option.bind (hex4 CHR ''2'' CHR ''0'' CHR ''2'' (hex_digit n)) utf8 = Some [CHR 0xE2, CHR 0x80, char_of (0xA0 + n)]"
    using json_hex_digit [of n] assms
    by (auto simp: hex4_def json_hex_def [of "CHR ''2''"] json_hex_def [of "CHR ''0''"] utf8_def intro!: char_of_eq)
  from read_chars_escape [OF read_escape_u [OF this]] show ?thesis by simp
qed

lemma read_replacement: "read_chars (CHR 0x5C # ''ufffd'' @ r) = then_read [CHR 0xEF, CHR 0xBF, CHR 0xBD] (read_chars r)"
proof -
  have "Option.bind (hex4 CHR ''f'' CHR ''f'' CHR ''f'' CHR ''d'') utf8 = Some [CHR 0xEF, CHR 0xBF, CHR 0xBD]"
    by (simp add: hex4_def json_hex_def utf8_def) (intro conjI char_of_eq; simp)
  from read_chars_escape [OF read_escape_u [OF this]] show ?thesis by simp
qed

lemma separator_rune:
  assumes "take 2 s = [CHR 0xE2, CHR 0x80]" "byte_in s 2 0xA8 0xA9"
  shows "take (rune_len s) s = [CHR 0xE2, CHR 0x80, char_of (0xA0 + of_char (s ! 2) mod 16 :: nat)] \<and>
    (of_char (s ! 2) mod 16 = (8 :: nat) \<or> of_char (s ! 2) mod 16 = (9 :: nat))"
proof -
  obtain x rest where s: "s = CHR 0xE2 # CHR 0x80 # x # rest"
    using assms by (cases s; cases "tl s"; cases "tl (tl s)") (auto simp: byte_in_def)
  have x: "of_char x = (0xA8 :: nat) \<or> of_char x = (0xA9 :: nat)" using assms(2) s by (auto simp: byte_in_def)
  then have "rune_len s = 3" using s by (auto simp: rune_len_def byte_in_def)
  moreover have "char_of (0xA0 + of_char x mod 16 :: nat) = x" using x by (intro char_of_eq) auto
  ultimately show ?thesis using s x by auto
qed

lemma read_json_rune:
  assumes "s \<noteq> []"
  shows "read_chars (json_rune s @ r) = then_read (valid_rune s) (read_chars r)"
proof -
  consider (ascii) "of_char (hd s) < (0x80 :: nat)" | (bad) "\<not> of_char (hd s) < (0x80 :: nat)" "rune_len s = 1"
    | (separator) "\<not> of_char (hd s) < (0x80 :: nat)" "rune_len s \<noteq> 1" "take 2 s = [CHR 0xE2, CHR 0x80]" "byte_in s 2 0xA8 0xA9"
    | (rune) "\<not> of_char (hd s) < (0x80 :: nat)" "rune_len s \<noteq> 1" "\<not> (take 2 s = [CHR 0xE2, CHR 0x80] \<and> byte_in s 2 0xA8 0xA9)"
    by blast
  then show ?thesis
  proof cases
    case ascii
    with assms have "take (rune_len s) s = [hd s]" by (cases s) (simp_all add: ascii_rune_len)
    with ascii read_json_byte [of "of_char (hd s)" r] show ?thesis by (simp add: json_rune_def valid_rune_def)
  next
    case bad
    then show ?thesis using read_replacement [of r] by (simp add: json_rune_def valid_rune_def)
  next
    case separator
    with separator_rune [OF separator(3,4)] read_separator [of "of_char (s ! 2) mod 16" r] show ?thesis
      by (simp add: json_rune_def valid_rune_def)
  next
    case rune
    then show ?thesis using read_chars_plains [of "take (rune_len s) s" r] rune_bytes [OF rune(2)] by (auto simp: json_rune_def valid_rune_def)
  qed
qed

lemma read_json_chars: "read_chars (json_chars s @ CHR 0x22 # rest) = Some (valid_text s, rest)"
proof (induction s rule: json_chars.induct)
  case 1
  show ?case by (simp add: read_chars.simps(2))
next
  case (2 c cs)
  then show ?case using read_json_rune [of "c # cs" "json_chars (drop (rune_len (c # cs)) (c # cs)) @ CHR 0x22 # rest"]
    by (simp add: json_chars.simps(2) valid_text.simps(2))
qed

section \<open>Values\<close>

text \<open>What is printed for a value, what a reader makes of it, and the fuel it takes.\<close>

fun print_json :: "json_value \<Rightarrow> string" where
  "print_json JNull = ''null''"
| "print_json (JBool b) = json_bool b"
| "print_json (JNum i) = json_int i"
| "print_json (JStr s) = json_string s"
| "print_json (JArr vs) = json_array (map print_json vs)"
| "print_json (JObj fs) = json_object (map (map_prod id print_json) fs)"

fun valid_json :: "json_value \<Rightarrow> json_value" where
  "valid_json (JStr s) = JStr (valid_text s)"
| "valid_json (JArr vs) = JArr (map valid_json vs)"
| "valid_json (JObj fs) = JObj (map (map_prod valid_text valid_json) fs)"
| "valid_json j = j"

fun need :: "json_value \<Rightarrow> nat" where
  "need (JArr vs) = Suc (sum_list (map (\<lambda>v. Suc (need v)) vs))"
| "need (JObj fs) = Suc (sum_list (map (\<lambda>f. Suc (need (snd f))) fs))"
| "need j = 1"

abbreviation ends_number :: "string \<Rightarrow> bool" where
  "ends_number rest \<equiv> rest = [] \<or> \<not> is_digit (hd rest)"

lemma itoa_all_digits: "itoa n \<noteq> [] \<and> (\<forall>c \<in> set (itoa n). is_digit c)"
proof (induction n rule: itoa.induct)
  case (1 n)
  have "is_digit (char_of (48 + k))" if "k < 10" for k :: nat
    using that by (simp add: is_digit_def of_char_of)
  with 1 show ?case by (cases "n < 10") (auto simp: itoa.simps [of n])
qed

lemma read_digits_itoa:
  assumes "ends_number rest"
  shows "read_digits (itoa n @ rest) = Some (int n, rest)"
proof -
  have "takeWhile is_digit (itoa n @ rest) = itoa n" "dropWhile is_digit (itoa n @ rest) = rest"
    using itoa_all_digits [of n] assms by (cases rest; simp add: takeWhile_append2 dropWhile_append2)+
  then show ?thesis using itoa_all_digits [of n] digits_value_itoa [of n] by (simp add: read_digits_def)
qed

lemma digit_not: "is_digit c \<Longrightarrow> c \<noteq> CHR 0x22 \<and> c \<noteq> CHR ''['' \<and> c \<noteq> CHR '']'' \<and> c \<noteq> CHR ''{'' \<and> c \<noteq> CHR ''-''"
  by (auto simp: is_digit_def)

lemma read_number:
  assumes "ends_number rest"
  shows "read_value (Suc n) (json_int i @ rest) = Some (JNum i, rest)"
proof (cases "i < 0")
  case True
  then show ?thesis using read_digits_itoa [OF assms, of "nat (- i)"] by (simp add: json_int_def)
next
  case False
  obtain c cs where c: "itoa (nat i) = c # cs" "is_digit c" using itoa_all_digits [of "nat i"] by (cases "itoa (nat i)") auto
  with False digit_not [OF c(2)] read_digits_itoa [OF assms, of "nat i"] show ?thesis by (simp add: json_int_def)
qed

lemma print_json_hd: "\<exists>c cs. print_json j = c # cs \<and> c \<noteq> CHR '']''"
proof (cases j)
  case (JNum i)
  obtain c cs where "itoa (nat i) = c # cs" "is_digit c" using itoa_all_digits [of "nat i"] by (cases "itoa (nat i)") auto
  with JNum digit_not show ?thesis by (auto simp: json_int_def)
qed (simp_all add: json_bool_def json_string_def json_array_def json_object_def)

lemma read_items_print:
  assumes "\<And>v n rest. v \<in> set vs \<Longrightarrow> need v \<le> n \<Longrightarrow> ends_number rest \<Longrightarrow> read_value n (print_json v @ rest) = Some (valid_json v, rest)"
    and "vs \<noteq> []" "sum_list (map (\<lambda>v. Suc (need v)) vs) \<le> n"
  shows "read_items n (strings_join (map print_json vs) '','' @ CHR '']'' # rest) = Some (map valid_json vs, rest)"
  using assms
proof (induction vs arbitrary: n)
  case (Cons v vs)
  obtain m where n: "n = Suc m" using Cons.prems(3) by (cases n) auto
  show ?case
  proof (cases "vs = []")
    case True
    have "read_value m (print_json v @ CHR '']'' # rest) = Some (valid_json v, CHR '']'' # rest)"
      by (rule Cons.prems(1)) (use Cons.prems(3) n in \<open>simp_all add: is_digit_def\<close>)
    with True n show ?thesis by simp
  next
    case False
    then obtain w ws where vs: "vs = w # ws" by (cases vs) auto
    have "read_value m (print_json v @ CHR '','' # t) = Some (valid_json v, CHR '','' # t)" for t
      by (rule Cons.prems(1)) (use Cons.prems(3) n in \<open>simp_all add: is_digit_def\<close>)
    moreover have "read_items m (strings_join (map print_json vs) '','' @ CHR '']'' # rest) = Some (map valid_json vs, rest)"
      by (rule Cons.IH) (use Cons.prems n False in auto)
    ultimately show ?thesis using n vs by simp
  qed
qed simp

lemma read_fields_print:
  assumes "\<And>f n rest. f \<in> set fs \<Longrightarrow> need (snd f) \<le> n \<Longrightarrow> ends_number rest \<Longrightarrow>
      read_value n (print_json (snd f) @ rest) = Some (valid_json (snd f), rest)"
    and "fs \<noteq> []" "sum_list (map (\<lambda>f. Suc (need (snd f))) fs) \<le> n"
  shows "read_fields n (strings_join (map (\<lambda>(k, v). json_string k @ '':'' @ v) (map (map_prod id print_json) fs)) '','' @ CHR ''}'' # rest) =
    Some (map (map_prod valid_text valid_json) fs, rest)"
  using assms
proof (induction fs arbitrary: n)
  case (Cons f fs)
  obtain k v where f: "f = (k, v)" by (cases f)
  obtain m where n: "n = Suc m" using Cons.prems(3) by (cases n) auto
  have key: "read_chars (json_chars k @ CHR 0x22 # CHR '':'' # t) = Some (valid_text k, CHR '':'' # t)" for t
    by (rule read_json_chars)
  have val: "read_value m (print_json v @ d # t) = Some (valid_json v, d # t)" if "\<not> is_digit d" for d t
    using Cons.prems(1) [of f m "d # t"] Cons.prems(3) n f that by simp
  show ?case
  proof (cases "fs = []")
    case True
    with n f key val show ?thesis by (simp add: json_string_def is_digit_def)
  next
    case False
    then obtain w ws where fs: "fs = w # ws" by (cases fs) auto
    have "read_fields m (strings_join (map (\<lambda>(k, v). json_string k @ '':'' @ v) (map (map_prod id print_json) fs)) '','' @ CHR ''}'' # rest) =
        Some (map (map_prod valid_text valid_json) fs, rest)"
      by (rule Cons.IH) (use Cons.prems n False in auto)
    then show ?thesis using n f fs key val by (simp add: json_string_def is_digit_def id_def)
  qed
qed simp

lemma read_print: "need j \<le> n \<Longrightarrow> ends_number rest \<Longrightarrow> read_value n (print_json j @ rest) = Some (valid_json j, rest)"
proof (induction j arbitrary: n rest)
  case (JNum i)
  then show ?case using read_number [OF JNum(2)] by (cases n) simp_all
next
  case (JStr s)
  then show ?case using read_json_chars [of s rest] by (cases n) (simp_all add: json_string_def)
next
  case (JArr vs)
  obtain m where n: "n = Suc m" using JArr.prems(1) by (cases n) auto
  show ?case
  proof (cases vs)
    case (Cons w ws)
    obtain c cs where c: "print_json w = c # cs" "c \<noteq> CHR '']''" using print_json_hd by blast
    have "read_items m (strings_join (map print_json vs) '','' @ CHR '']'' # rest) = Some (map valid_json vs, rest)"
      by (rule read_items_print) (use JArr n Cons in auto)
    moreover have "\<exists>t. strings_join (map print_json vs) '','' = c # t" using Cons c(1) by (cases ws) auto
    ultimately show ?thesis using n c(2) by (auto simp: json_array_def)
  qed (simp add: n json_array_def)
next
  case (JObj fs)
  obtain m where n: "n = Suc m" using JObj.prems(1) by (cases n) auto
  let ?t = "strings_join (map (\<lambda>(k, v). json_string k @ '':'' @ v) (map (map_prod id print_json) fs)) '',''"
  show ?case
  proof (cases fs)
    case (Cons w ws)
    have "read_fields m (?t @ CHR ''}'' # rest) = Some (map (map_prod valid_text valid_json) fs, rest)"
      by (rule read_fields_print) (use JObj n Cons in \<open>auto simp: snds.simps\<close>)
    moreover have "\<exists>t. ?t = CHR 0x22 # t" using Cons by (cases ws; cases w) (auto simp: json_string_def)
    ultimately show ?thesis using n by (auto simp: json_object_def)
  qed (simp add: n json_object_def)
qed (case_tac n; simp add: json_bool_def is_digit_def)+

text \<open>The fuel of \<open>read_json\<close> is enough for its own text.\<close>

lemma length_join: "vs \<noteq> [] \<Longrightarrow> Suc (length (strings_join vs [c])) = sum_list (map (\<lambda>v. Suc (length v)) vs)"
  by (induction vs "[c]" rule: strings_join.induct) auto

lemma sum_list_double: "(\<And>x. x \<in> set xs \<Longrightarrow> f x \<le> 2 * g x) \<Longrightarrow> sum_list (map f xs) \<le> 2 * (sum_list (map g xs) :: nat)"
proof (induction xs)
  case (Cons x xs)
  then have "f x \<le> 2 * g x" "sum_list (map f xs) \<le> 2 * sum_list (map g xs)" by auto
  then show ?case by simp
qed simp

lemma need_length: "need j \<le> 2 * length (print_json j)"
proof (induction j)
  case (JArr vs)
  have "sum_list (map (\<lambda>v. Suc (need v)) vs) \<le> 2 * sum_list (map (\<lambda>v. Suc (length (print_json v))) vs)"
    using JArr.IH by (intro sum_list_double) fastforce
  then show ?case
    using length_join [of "map print_json vs" "CHR '',''"]
    by (cases "vs = []") (simp_all add: json_array_def comp_def)
next
  case (JObj fs)
  let ?g = "\<lambda>f. json_string (fst f) @ '':'' @ print_json (snd f)"
  have "need (snd f) \<le> 2 * length (print_json (snd f))" if "f \<in> set fs" for f
    using JObj.IH [OF that] by (cases f) (auto simp: snds.simps)
  then have "sum_list (map (\<lambda>f. Suc (need (snd f))) fs) \<le> 2 * sum_list (map (\<lambda>f. Suc (length (?g f))) fs)"
    by (intro sum_list_double) fastforce
  moreover have "map (\<lambda>(k, v). json_string k @ '':'' @ v) (map (map_prod id print_json) fs) = map ?g fs" by auto
  then have "length (print_json (JObj fs)) = 2 + length (strings_join (map ?g fs) '','')"
    unfolding print_json.simps json_object_def by (simp del: map_map)
  moreover have "Suc (length (strings_join (map ?g fs) '','')) = sum_list (map (\<lambda>f. Suc (length (?g f))) fs)" if "fs \<noteq> []"
    using length_join [of "map ?g fs" "CHR '',''"] that unfolding map_map comp_def by simp
  ultimately show ?case unfolding need.simps by (cases "fs = []") (simp only: list.map sum_list.Nil, simp, linarith)
next
  case (JNum i)
  then show ?case using print_json_hd [of "JNum i"] by auto
qed (simp_all add: json_bool_def json_string_def)

lemma read_json_print: "read_json (print_json j) = Some (valid_json j)"
  using read_print [of j "2 * length (print_json j) + 2" "[]"] need_length [of j] by (simp add: read_json_def)

section \<open>The answer to a JSON request\<close>

definition question_json :: "question \<Rightarrow> json_value" where
  "question_json q = JObj [(''name'', JStr (q_Name q)), (''type'', JNum (uint (q_Qtype q)))]"

definition RR_json :: "doh_RR \<Rightarrow> json_value" where
  "RR_json r = JObj [(''name'', JStr (dr_Name r)), (''type'', JNum (uint (dr_Type r))), (''TTL'', JNum (uint (dr_TTL r))), (''data'', JStr (dr_Data r))]"

definition Msg_json :: "doh_Msg \<Rightarrow> json_value" where
  "Msg_json m = JObj
     ([(''Status'', JNum (dm_Status m)), (''TC'', JBool (dm_TC m)), (''RD'', JBool (dm_RD m)), (''RA'', JBool (dm_RA m)),
       (''AD'', JBool (dm_AD m)), (''CD'', JBool (dm_CD m)), (''Question'', JArr (map question_json (dm_Question m)))] @
      (if dm_Answer m = [] then [] else [(''Answer'', JArr (map RR_json (dm_Answer m)))]) @
      (if dm_Authority m = [] then [] else [(''Authority'', JArr (map RR_json (dm_Authority m)))]))"

lemma itoa_unat: "itoa (unat w) = json_int (uint w)"
  using uint_ge_0 [of w] by (simp add: json_int_def del: uint_ge_0)

lemma print_parts:
  "print_json (question_json q) = json_question q" "print_json (RR_json r) = json_RR r"
  by (simp_all add: question_json_def json_question_def RR_json_def json_RR_def itoa_unat)

lemma Marshal_print: "Marshal (Some m) = print_json (Msg_json m)"
  by (simp add: Marshal_def Msg_json_def print_parts comp_def)

lemma ascii_keys:
  "valid_text ''Status'' = ''Status''" "valid_text ''TC'' = ''TC''" "valid_text ''RD'' = ''RD''" "valid_text ''RA'' = ''RA''"
  "valid_text ''AD'' = ''AD''" "valid_text ''CD'' = ''CD''" "valid_text ''Question'' = ''Question''" "valid_text ''Answer'' = ''Answer''"
  "valid_text ''Authority'' = ''Authority''" "valid_text ''name'' = ''name''" "valid_text ''type'' = ''type''" "valid_text ''TTL'' = ''TTL''"
  "valid_text ''data'' = ''data''"
  by (simp_all add: valid_text_ascii)

text \<open>C26. The JSON answer says what the message says: the text that is sent for a message reads back as the object with its code, its
  TC, RD, RA, AD and CD flags, the name and type of every question, and, where there are any, the name, type, TTL and text
  (without the header) of every answer and authority record, in their order, whatever bytes the names and texts have; a byte
  that is not part of UTF-8 reads as the replacement character. The additional section is left out.\<close>

theorem Marshal_reads_back:
  "read_json (Marshal (NewMsg L (Some m))) =
     (let rr = (\<lambda>a. JObj [(''name'', JStr (valid_text (rr_name a))), (''type'', JNum (uint (rr_type a))), (''TTL'', JNum (uint (rr_ttl a))),
          (''data'', JStr (valid_text (TrimPrefix (lb_String L a) (lb_Header_String L (Header a)))))])
      in Some (JObj
        ([(''Status'', JNum (m_Rcode m)), (''TC'', JBool (m_Truncated m)), (''RD'', JBool (m_RecursionDesired m)),
          (''RA'', JBool (m_RecursionAvailable m)), (''AD'', JBool (m_AuthenticatedData m)), (''CD'', JBool (m_CheckingDisabled m)),
          (''Question'', JArr (map (\<lambda>q. JObj [(''name'', JStr (valid_text (q_Name q))), (''type'', JNum (uint (q_Qtype q)))]) (m_Question m)))] @
         (if m_Answer m = [] then [] else [(''Answer'', JArr (map rr (m_Answer m)))]) @
         (if m_Ns m = [] then [] else [(''Authority'', JArr (map rr (m_Ns m)))]))))"
  by (simp add: NewMsg_def Marshal_print read_json_print Let_def)
     (simp add: Msg_json_def question_json_def RR_json_def new_RR_def ascii_keys comp_def)

end
