(* ===== verification/Doh_Facts.thy ===== *)
theory Doh_Facts
  imports Doh Handler_Facts
begin

text \<open>
  What the HTTP handlers promise on top of the contract of \<open>query\<close>: the status of every request, the invariant of the
  resolver afterwards, and the one kind of request that makes them panic.
\<close>

definition http_statuses :: "nat list" where
  "http_statuses = [200, 400, 401, 405, 415, 500]"

definition asks_nothing :: "doh_lib \<Rightarrow> http_req \<Rightarrow> bool" where
  "asks_nothing L r \<longleftrightarrow>
     \<not> (hr_Method r = ''GET'' \<and> hr_Query r ''dns'' = []) \<and>
     (case wire_bytes r of
        Inl _ \<Rightarrow> False
      | Inr buf \<Rightarrow> (case lb_Unpack L buf of None \<Rightarrow> False | Some m \<Rightarrow> m_Question m = []))"

lemma wire_bytes_status: "wire_bytes r = Inl code \<Longrightarrow> code \<in> set http_statuses - {401}"
  by (auto simp: wire_bytes_def http_statuses_def split: option.split_asm if_split_asm)

lemma json_request_ok: "json_request r = Some req \<Longrightarrow> req_ok req"
  by (auto simp: json_request_def req_ok_def msg_wf_def msg_zero_def rr_wf_def extra_wf_def opt_SetDo_def rr_setTtl_def Let_def
      split: if_split_asm option.split_asm)

lemma json_request_Question:
  "json_request r = Some req \<Longrightarrow>
   \<exists>name t. m_Question req = [\<lparr>q_Name = name, q_Qtype = t, q_Qclass = ClassINET\<rparr>] \<and> suffix ''.'' name \<and> t \<noteq> TypeNone"
  by (auto simp: json_request_def Let_def suffix_def split: if_split_asm option.split_asm)

abbreviation answered :: "http_resp \<Rightarrow> bool" where
  "answered p \<equiv> hp_Status p \<in> set http_statuses - {401}"

lemma handleJSON_ok:
  assumes "env_ok E" "parser_typed C"
  shows "hvld N (handleJSON E C (resolver E n) L r) answered"
proof (cases "json_request r")
  case (Some req)
  have "hvld N (rbind (query E C (resolver E n) ''https'' req) (\<lambda>m. rret (f m))) answered" if "\<And>m. answered (f m)" for f
    by (rule hvld_bind [OF rc.query_ok [OF assms json_request_ok [OF Some]]]) (use that in auto)
  then show ?thesis unfolding handleJSON_def Some option.case
    by (simp add: http_Error_def http_statuses_def split: option.split)
qed (simp add: handleJSON_def http_Error_def http_statuses_def)

lemma handleWireFormat_ok:
  assumes "env_ok E" "parser_typed C" "\<And>buf m. lb_Unpack L buf = Some m \<Longrightarrow> msg_wf m"
    and "\<And>buf m. wire_bytes r = Inr buf \<Longrightarrow> lb_Unpack L buf = Some m \<Longrightarrow> m_Question m \<noteq> []"
  shows "hvld N (handleWireFormat E C (resolver E n) L r) answered"
proof (cases "wire_bytes r")
  case (Inl code)
  then show ?thesis using wire_bytes_status [OF Inl] by (simp add: handleWireFormat_def http_Error_def)
next
  case (Inr buf)
  show ?thesis
  proof (cases "lb_Unpack L buf")
    case (Some req)
    have "req_ok req" using assms(3,4) Inr Some by (simp add: req_ok_def)
    then have "hvld N (rbind (query E C (resolver E n) ''https'' req) (\<lambda>m. rret (f m))) answered" if "\<And>m. answered (f m)" for f
      by (intro hvld_bind [OF rc.query_ok [OF assms(1,2)]]) (use that in auto)
    then show ?thesis unfolding handleWireFormat_def Inr Some sum.case option.case
      by (simp add: http_Error_def http_statuses_def split: option.split)
  qed (simp add: handleWireFormat_def Inr http_Error_def http_statuses_def)
qed

lemma ServeHTTP_no_question:
  assumes "hc_AccessList C (fst (SplitHostPort (hr_RemoteAddr r)))" "asks_nothing L r"
  shows "ServeHTTP E C R L r s = Crash ''index out of range''"
  using assms by (auto simp: ServeHTTP_def asks_nothing_def handleWireFormat_def query_def query_step_def rbind_def rpanic_def
      split: sum.split_asm option.split_asm)

text \<open>C25. Every HTTP request is answered with a status of the protocol: when unpacking yields records whose data fit their types,
  as the records of the text parser do, and the root keys are usable, a request ends with one of the six statuses, 401
  exactly when the client is not on the access list, and the resolver's invariant holds again. A panic is one of the five
  of the resolver, the index error among them being also that of a request without a question, or that of \<^verbatim>\<open>query\<close> on the
  nil record of a name that the text parser does not accept.\<close>

theorem doh_safe:
  assumes "env_ok E" "parser_typed C" "rinv N s" "\<And>buf m. lb_Unpack L buf = Some m \<Longrightarrow> msg_wf m"
  shows "case ServeHTTP E C (resolver E n) L r s of
      Done p s' \<Rightarrow> rinv N s' \<and> hp_Status p \<in> {200, 400, 401, 405, 415, 500} \<and>
        (hp_Status p = 401 \<longleftrightarrow> \<not> hc_AccessList C (fst (SplitHostPort (hr_RemoteAddr r))))
    | Crash w \<Rightarrow> w \<in> {''index out of range'', nil_err, ''root zone keys empty'', ''root zone DS not verified'', ''root zone keys not verified'', nil_deref}
    | Stuck \<Rightarrow> True"
proof (cases "hc_AccessList C (fst (SplitHostPort (hr_RemoteAddr r)))")
  case allowed: True
  show ?thesis
  proof (cases "asks_nothing L r")
    case False
    have "hvld N (ServeHTTP E C (resolver E n) L r) answered"
    proof (cases "hr_Method r = ''GET'' \<and> hr_Query r ''dns'' = []")
      case True
      then show ?thesis using allowed handleJSON_ok [OF assms(1,2)] by (simp add: ServeHTTP_def)
    next
      case wire: False
      with False have "\<And>buf m. wire_bytes r = Inr buf \<Longrightarrow> lb_Unpack L buf = Some m \<Longrightarrow> m_Question m \<noteq> []"
        by (auto simp: asks_nothing_def)
      from handleWireFormat_ok [OF assms(1,2,4) this] wire allowed show ?thesis by (auto simp: ServeHTTP_def)
    qed
    from hvldD [OF this assms(3)] allowed show ?thesis
      by (cases "ServeHTTP E C (resolver E n) L r s") (auto simp: crash_ok_def http_statuses_def)
  qed (simp add: ServeHTTP_no_question [OF allowed])
qed (use assms(3) in \<open>simp add: ServeHTTP_def http_Error_def rret_def\<close>)

section \<open>Witnesses\<close>

text \<open>A library whose unpacking yields a message without a question for one byte, and a request of type ANY for two.\<close>

definition demo_lib :: doh_lib where
  "demo_lib =
     \<lparr>lb_Unpack = (\<lambda>buf. if length buf = 1 then Some msg_zero else if length buf = 2 then Some (demo_req TypeANY True) else None),
      lb_Pack = (\<lambda>m. Some [0, 0]), lb_String = (\<lambda>_. []), lb_Header_String = (\<lambda>_. [])\<rparr>"

definition demo_post :: "u8 list \<Rightarrow> http_req" where
  "demo_post buf = \<lparr>hr_RemoteAddr = ''127.0.0.1:99'', hr_Method = ''POST'', hr_Query = (\<lambda>_. []),
     hr_Header = (\<lambda>_. ''application/dns-message''), hr_Body = Some buf\<rparr>"

lemma demo_post_allowed: "hc_AccessList demo_conf (fst (SplitHostPort (hr_RemoteAddr (demo_post buf))))"
proof -
  have "fst (SplitHostPort ''127.0.0.1:99'') = ''127.0.0.1''" by code_simp
  then show ?thesis by (simp add: demo_conf_def demo_post_def)
qed

theorem doh_safe_witness:
  "\<exists>p s'. ServeHTTP (demo_env (demo_reply [demo_a])) demo_conf (resolver (demo_env (demo_reply [demo_a])) 1) demo_lib (demo_post [0, 0])
     demo_state = Done p s' \<and> rinv (shard_part 1024) s' \<and> hp_Status p = 200"
proof -
  let ?E = "demo_env (demo_reply [demo_a])"
  obtain m where m: "query ?E demo_conf (resolver ?E 1) ''https'' (demo_req TypeANY True) demo_state = Done m demo_state"
    using demo_query_any by blast
  have lib: "lb_Unpack demo_lib buf = Some m \<Longrightarrow> msg_wf m" for buf m
    using demo_req_ok by (auto simp: demo_lib_def req_ok_def msg_wf_def msg_zero_def split: if_split_asm)
  have "ServeHTTP ?E demo_conf (resolver ?E 1) demo_lib (demo_post [0, 0]) demo_state =
      Done \<lparr>hp_Status = 200, hp_Server = server_header, hp_Type = ''application/dns-message'', hp_Body = Wire_body [0, 0]\<rparr> demo_state"
    using m demo_post_allowed by (simp add: ServeHTTP_def handleWireFormat_def wire_bytes_def demo_post_def demo_lib_def rbind_def rret_def)
  with doh_safe [OF _ demo_conf_ok demo_state_inv(1), where E = ?E and L = demo_lib and n = 1 and r = "demo_post [0, 0]"] lib demo_reply_ok [of "[demo_a]"] demo_a_wf
  show ?thesis by simp
qed

end
