(* ===== verification/Server.thy ===== *)
theory Server
  imports Handler
begin

text \<open>
  The listeners (\<^verbatim>\<open>server.go\<close>) and the multiplexer of the DNS library they hand their requests to
  (\<^verbatim>\<open>serve_mux.go\<close>). A handler is a value of any type in the multiplexer; the listeners register the handlers
  \<^verbatim>\<open>TCP\<close> and \<^verbatim>\<open>UDP\<close> of the request handler for the root, and \<open>ServeDNS\<close> runs the one it finds. The sockets
  themselves are not modelled: \<open>Server_Run\<close> yields the list of the listeners it starts.
\<close>

section \<open>The multiplexer\<close>

type_synonym 'h mux = "(string, 'h) gmap"

definition mux_Handle :: "string \<Rightarrow> 'h \<Rightarrow> 'h mux \<Rightarrow> 'h mux go" where
  "mux_Handle pattern h z =
     (if pattern = [] then Panic (''dns: invalid pattern '' @ pattern) else Ret (gmap_set (Fqdn pattern) h z))"

text \<open>The walk over the labels: \<open>Inl\<close> is the early return, \<open>Inr\<close> the handler remembered for a DS question.\<close>

function mux_walk :: "'h mux \<Rightarrow> string \<Rightarrow> u16 \<Rightarrow> nat \<Rightarrow> 'h option \<Rightarrow> 'h + 'h option" where
  "mux_walk z q t off handler =
     (let found = gmap_get z (drop off q)
      in if found \<noteq> None \<and> t \<noteq> TypeDS then Inl (the found)
         else let handler1 = (if found \<noteq> None then found else handler)
              in case NextLabel q off of (off', end) \<Rightarrow> if end then Inr handler1 else mux_walk z q t off' handler1)"
  by pat_completeness auto
termination
  by (relation "measure (\<lambda>(z, q, t, off, h). length q - off)")
    (auto simp: NextLabel_def dest!: sym [of _ "NextLabel_loop _ _ _"] NextLabel_loop_less)

declare mux_walk.simps [simp del]

definition mux_match :: "'h mux \<Rightarrow> string \<Rightarrow> u16 \<Rightarrow> 'h option" where
  "mux_match z q t =
     (case mux_walk z (to_lower q) t 0 None of
        Inl h \<Rightarrow> Some h
      | Inr handler \<Rightarrow> (case gmap_get z ''.'' of Some h \<Rightarrow> Some h | None \<Rightarrow> handler))"

type_synonym dns_handler = "string option \<Rightarrow> msg \<Rightarrow> msg option rm"

text \<open>The writer that a listener passes is never nil, so a message of \<^verbatim>\<open>HandleFailed\<close> is always written.\<close>

definition HandleFailed :: "string option \<Rightarrow> msg \<Rightarrow> msg option" where
  "HandleFailed w r = writeReplyMsg w (SetRcode msg_zero r RcodeServerFailure)"

definition ServeDNS :: "dns_handler mux \<Rightarrow> dns_handler" where
  "ServeDNS z w req =
     (case (case m_Question req of [] \<Rightarrow> None | q # _ \<Rightarrow> mux_match z (q_Name q) (q_Qtype q)) of
        Some h \<Rightarrow> h w req
      | None \<Rightarrow> rret (HandleFailed w req))"

section \<open>The listeners\<close>

record server =
  sv_host :: string
  sv_tlsHost :: string
  sv_dohHost :: string
  sv_tlsCertificate :: string
  sv_tlsPrivateKey :: string
  sv_rTimeout :: int
  sv_wTimeout :: int

record 'h dns_server =
  ds_Addr :: string
  ds_Net :: string
  ds_Handler :: "'h mux"
  ds_UDPSize :: nat
  ds_Certificate :: "(string \<times> string) option"
  ds_ReadTimeout :: int
  ds_WriteTimeout :: int
  ds_ReusePort :: bool

record https_server =
  hs_Addr :: string
  hs_Certificate :: "string \<times> string"
  hs_Timeouts :: "int \<times> int \<times> int"

datatype 'h listener = Dns_listener "'h dns_server" | Https_listener https_server

text \<open>
  \<open>load\<close> says whether a certificate and key can be loaded; when they cannot, \<^verbatim>\<open>log.Crit\<close> ends the process and
  the result is its message.
\<close>

definition Server_Run :: "(string \<Rightarrow> string \<Rightarrow> bool) \<Rightarrow> 'h \<Rightarrow> 'h \<Rightarrow> server \<Rightarrow> (string + 'h listener list) go" where
  "Server_Run load tcp udp s =
     go_bind (mux_Handle ''.'' tcp [])
       (\<lambda>tcpHandler. go_bind (mux_Handle ''.'' udp [])
          (\<lambda>udpHandler.
             let tcpServer = \<lparr>ds_Addr = sv_host s, ds_Net = ''tcp'', ds_Handler = tcpHandler, ds_UDPSize = 0, ds_Certificate = None,
                   ds_ReadTimeout = sv_rTimeout s, ds_WriteTimeout = sv_wTimeout s, ds_ReusePort = True\<rparr>;
                 udpServer = \<lparr>ds_Addr = sv_host s, ds_Net = ''udp'', ds_Handler = udpHandler, ds_UDPSize = 4096, ds_Certificate = None,
                   ds_ReadTimeout = sv_rTimeout s, ds_WriteTimeout = sv_wTimeout s, ds_ReusePort = True\<rparr>;
                 tlsServer = \<lparr>ds_Addr = sv_tlsHost s, ds_Net = ''tcp-tls'', ds_Handler = tcpHandler, ds_UDPSize = 0,
                   ds_Certificate = Some (sv_tlsCertificate s, sv_tlsPrivateKey s),
                   ds_ReadTimeout = sv_rTimeout s, ds_WriteTimeout = sv_wTimeout s, ds_ReusePort = False\<rparr>;
                 srv = \<lparr>hs_Addr = sv_dohHost s, hs_Certificate = (sv_tlsCertificate s, sv_tlsPrivateKey s),
                   hs_Timeouts = (30 * second, 30 * second, 30 * second)\<rparr>
             in if sv_tlsHost s \<noteq> [] \<and> \<not> load (sv_tlsCertificate s) (sv_tlsPrivateKey s)
                then Ret (Inl ''TLS certificate load failed'')
                else Ret (Inr ([Dns_listener udpServer, Dns_listener tcpServer] @
                       (if sv_tlsHost s \<noteq> [] then [Dns_listener tlsServer] else []) @
                       (if sv_dohHost s \<noteq> [] then [Https_listener srv] else [])))))"

section \<open>Dispatch\<close>

lemma mux_walk_in:
  "mux_walk z q t off handler = Inl h \<Longrightarrow> \<exists>p. gmap_get z p = Some h"
  by (induction z q t off handler rule: mux_walk.induct)
    (subst (asm) (2) mux_walk.simps, auto simp: Let_def split: prod.split_asm if_split_asm)

lemma mux_match_root:
  assumes "z = gmap_set ''.'' h []"
  shows "mux_match z q t = Some h"
proof -
  have get: "gmap_get z p = (if p = ''.'' then Some h else None)" for p using assms by simp
  show ?thesis
    using mux_walk_in [of z "to_lower q" t 0 None] get
    by (auto simp: mux_match_def split: sum.split if_split_asm)
qed

lemma ServeDNS_listener:
  assumes "Server_Run load (handle E C R ''tcp'') (handle E C R ''udp'') srv = Ret (Inr ls)" "Dns_listener d \<in> set ls"
  shows "ServeDNS (ds_Handler d) w req s =
    (if m_Question req = [] then Done (map_option (\<lambda>_. SetRcode msg_zero req RcodeServerFailure) w) s
     else handle E C R (if ds_Net d = ''udp'' then ''udp'' else ''tcp'') w req s)"
proof -
  have z: "ds_Handler d = gmap_set ''.'' (handle E C R (if ds_Net d = ''udp'' then ''udp'' else ''tcp'')) []"
    using assms by (auto simp: Server_Run_def mux_Handle_def Fqdn_def IsFqdn_def Let_def split: if_split_asm)
  show ?thesis
    by (cases "m_Question req"; cases w)
      (auto simp: ServeDNS_def mux_match_root [OF z] HandleFailed_def writeReplyMsg_def rret_def)
qed

text \<open>Every DNS listener hands every question to the handler: on each of the listeners that \<^verbatim>\<open>Run\<close> starts, a request
  with a question reaches the handler of its protocol, UDP requests as \<^verbatim>\<open>udp\<close>, those over TCP and TLS as \<^verbatim>\<open>tcp\<close>, whatever
  the name, its case and the type; a request without a question never reaches it and is refused with SERVFAIL.\<close>

theorem server_dispatch:
  assumes "Server_Run load (handle E C R ''tcp'') (handle E C R ''udp'') srv = Ret (Inr ls)" "Dns_listener d \<in> set ls"
  shows "ServeDNS (ds_Handler d) w req s =
    (if m_Question req = [] then Done (map_option (\<lambda>_. SetRcode msg_zero req RcodeServerFailure) w) s
     else handle E C R (if ds_Net d = ''udp'' then ''udp'' else ''tcp'') w req s)"
  using assms by (rule ServeDNS_listener)

theorem server_dispatch_witness:
  "\<forall>E C R s. \<exists>ls d. Server_Run (\<lambda>_ _. True) (handle E C R ''tcp'') (handle E C R ''udp'')
       \<lparr>sv_host = '':53'', sv_tlsHost = '':853'', sv_dohHost = [], sv_tlsCertificate = ''c'', sv_tlsPrivateKey = ''k'',
        sv_rTimeout = 5, sv_wTimeout = 5\<rparr> = Ret (Inr ls) \<and> Dns_listener d \<in> set ls \<and> ds_Net d = ''tcp-tls'' \<and>
     ServeDNS (ds_Handler d) (Some ''192.0.2.1:99'') (msg_zero\<lparr>m_Question := [\<lparr>q_Name = ''WWW.x.'', q_Qtype = TypeDS, q_Qclass = ClassINET\<rparr>]\<rparr>) s =
       handle E C R ''tcp'' (Some ''192.0.2.1:99'') (msg_zero\<lparr>m_Question := [\<lparr>q_Name = ''WWW.x.'', q_Qtype = TypeDS, q_Qclass = ClassINET\<rparr>]\<rparr>) s"
proof (intro allI)
  fix E C R s
  let ?srv = "\<lparr>sv_host = '':53'', sv_tlsHost = '':853'', sv_dohHost = [], sv_tlsCertificate = ''c'', sv_tlsPrivateKey = ''k'',
        sv_rTimeout = 5, sv_wTimeout = 5\<rparr>"
  obtain ls d where ls: "Server_Run (\<lambda>_ _. True) (handle E C R ''tcp'') (handle E C R ''udp'') ?srv = Ret (Inr ls)"
      "Dns_listener d \<in> set ls" "ds_Net d = ''tcp-tls''"
    by (force simp: Server_Run_def mux_Handle_def Let_def)
  from server_dispatch [OF ls(1,2), of "Some ''192.0.2.1:99''"
      "msg_zero\<lparr>m_Question := [\<lparr>q_Name = ''WWW.x.'', q_Qtype = TypeDS, q_Qclass = ClassINET\<rparr>]\<rparr>" s] ls
  show "\<exists>ls d. Server_Run (\<lambda>_ _. True) (handle E C R ''tcp'') (handle E C R ''udp'') ?srv = Ret (Inr ls) \<and> Dns_listener d \<in> set ls \<and>
      ds_Net d = ''tcp-tls'' \<and>
      ServeDNS (ds_Handler d) (Some ''192.0.2.1:99'') (msg_zero\<lparr>m_Question := [\<lparr>q_Name = ''WWW.x.'', q_Qtype = TypeDS, q_Qclass = ClassINET\<rparr>]\<rparr>) s =
       handle E C R ''tcp'' (Some ''192.0.2.1:99'') (msg_zero\<lparr>m_Question := [\<lparr>q_Name = ''WWW.x.'', q_Qtype = TypeDS, q_Qclass = ClassINET\<rparr>]\<rparr>) s"
    by (intro exI [of _ ls] exI [of _ d]) simp
qed

end
