(* ===== verification/Access_List_Facts.thy ===== *)
theory Access_List_Facts
  imports Access_List "HOL-Library.Sublist"
begin

text \<open>
  The trie of the access list refines the set of its networks: the abstraction \<open>trie_nets\<close> reads the networks off a
  trie, insertion adds one, and a lookup is membership in one of them.
\<close>

section \<open>Networks as prefixes\<close>

definition net_of :: "nat \<Rightarrow> bool list \<Rightarrow> network" where
  "net_of T p = \<lparr>nw_Number = p @ replicate (T - length p) False, nw_ones = length p, nw_bits = T\<rparr>"

lemma net_of_sel [simp]:
  "nw_Number (net_of T p) = p @ replicate (T - length p) False" "nw_ones (net_of T p) = length p" "nw_bits (net_of T p) = T"
  by (simp_all add: net_of_def)

lemma take_net_of [simp]: "take (length p) (nw_Number (net_of T p)) = p"
  by simp

lemma net_of_eq: "length p \<le> T \<Longrightarrow> length q \<le> T \<Longrightarrow> net_of T p = net_of T q \<longleftrightarrow> p = q"
  by (metis take_net_of net_of_sel(2))

lemma nw_Equal_net_of:
  assumes "length p \<le> T" "length q \<le> T" "0 < T"
  shows "nw_Equal (net_of T p) (net_of T q) \<longleftrightarrow> p = q"
proof -
  have "p @ replicate (T - length p) False \<noteq> []" "q @ replicate (T - length q) False \<noteq> []"
    using assms by (auto simp flip: length_greater_0_conv simp del: length_greater_0_conv)
  moreover have "length (p @ replicate (T - length p) False) = T" "length (q @ replicate (T - length q) False) = T"
    using assms by auto
  ultimately show ?thesis using net_of_eq [OF assms(1,2)] by (auto simp: nw_Equal_def nw_text_def net_of_def)
qed

lemma nw_Masked_net_of: "k \<le> length p \<Longrightarrow> length p \<le> T \<Longrightarrow> nw_Masked k (net_of T p) = net_of T (take k p)"
  by (simp add: nw_Masked_def net_of_def)

lemma map2_and_mask: "k \<le> length x \<Longrightarrow> map2 (\<and>) x (replicate k True @ replicate (length x - k) False) = take k x @ replicate (length x - k) False"
proof (induction x arbitrary: k)
  case (Cons b x)
  then show ?case by (cases k) (auto simp: map_replicate_const zip_replicate2 intro: nth_equalityI)
qed simp

lemma nw_Contains_net_of:
  assumes "length p \<le> T" "length x = T"
  shows "nw_Contains (net_of T p) x \<longleftrightarrow> prefix p x"
proof -
  have "map2 (\<and>) x (nw_Mask (net_of T p)) = take (length p) x @ replicate (T - length p) False"
    using map2_and_mask [of "length p" x] assms by (simp add: nw_Mask_def)
  then show ?thesis using assms by (auto simp: nw_Contains_def nw_Mask_def prefix_def) (metis append_take_drop_id)
qed

section \<open>Common beginnings\<close>

lemma common_bits_le: "common_bits p q \<le> length p" "common_bits p q \<le> length q"
  by (induction p q rule: common_bits.induct) auto

lemma common_bits_take: "take (common_bits p q) p = take (common_bits p q) q"
  by (induction p q rule: common_bits.induct) auto

lemma common_bits_pad: "min (min (length p) (length q)) (common_bits (p @ x) (q @ y)) = common_bits p q"
  by (induction p q rule: common_bits.induct) auto

lemma common_bits_prefix: "prefix r p \<Longrightarrow> prefix r q \<Longrightarrow> length r \<le> common_bits p q"
  by (induction r arbitrary: p q) (auto simp: prefix_def)

lemma LeastCommonBitPosition_net_of:
  assumes "length p \<le> T" "length q \<le> T" "0 < common_bits p q"
  shows "LeastCommonBitPosition (net_of T p) (net_of T q) = Inr (T - common_bits p q)"
proof -
  let ?k = "common_bits (nw_Number (net_of T p)) (nw_Number (net_of T q))"
  have len: "length (nw_Number (net_of T p)) = T" "length (nw_Number (net_of T q)) = T" using assms by auto
  have k: "min (min (length p) (length q)) ?k = common_bits p q" using common_bits_pad by simp
  then have "?k \<noteq> 0" using assms(3) by auto
  then have "nn_LeastCommonBitPosition (nw_Number (net_of T p)) (nw_Number (net_of T q)) = Inr (T - ?k)"
    using len by (auto simp: nn_LeastCommonBitPosition_def Let_def simp del: net_of_sel)
  moreover have "max (T - min (length p) (length q)) (T - ?k) = T - common_bits p q" using k by linarith
  ultimately show ?thesis using len by (simp add: LeastCommonBitPosition_def del: net_of_sel(1))
qed

lemma nn_Bit_net_of:
  assumes "k < length p" "length p \<le> T"
  shows "nn_Bit (nw_Number (net_of T p)) (int T - int k - 1) = Ret (Inr (p ! k))"
proof -
  have "T - 1 - nat (int T - int k - 1) = k" using assms by linarith
  then show ?thesis using assms by (auto simp: nn_Bit_def nth_append)
qed

section \<open>Well-formed tries\<close>

inductive trie_ok :: "nat \<Rightarrow> bool list \<Rightarrow> trie \<Rightarrow> bool" for T where
  node: "length pre \<le> T \<Longrightarrow>
    (\<forall>b c. tr_child b (Trie (net_of T pre) (length pre) e z o1) = Some c \<longrightarrow> (\<exists>q. prefix (pre @ [b]) q \<and> trie_ok T q c)) \<Longrightarrow>
    trie_ok T pre (Trie (net_of T pre) (length pre) e z o1)"

inductive_cases trie_okE: "trie_ok T pre t"

lemma trie_ok_iff:
  "trie_ok T pre t \<longleftrightarrow> length pre \<le> T \<and> tr_network t = net_of T pre \<and> tr_skipped t = length pre \<and>
     (\<forall>b c. tr_child b t = Some c \<longrightarrow> (\<exists>q. prefix (pre @ [b]) q \<and> trie_ok T q c))"
  by (cases t) (auto elim: trie_okE intro: trie_ok.node)

fun trie_nets :: "trie \<Rightarrow> bool list set" where
  "trie_nets (Trie net skipped entry zero one) =
     (if entry then {take skipped (nw_Number net)} else {}) \<union>
     (case zero of None \<Rightarrow> {} | Some c \<Rightarrow> trie_nets c) \<union> (case one of None \<Rightarrow> {} | Some c \<Rightarrow> trie_nets c)"

definition child_nets :: "bool \<Rightarrow> trie \<Rightarrow> bool list set" where
  "child_nets b t = (case tr_child b t of None \<Rightarrow> {} | Some c \<Rightarrow> trie_nets c)"

lemma trie_nets_iff:
  "trie_nets t = (if tr_entry t then {take (tr_skipped t) (nw_Number (tr_network t))} else {}) \<union> child_nets True t \<union> child_nets False t"
  by (cases t) (auto simp: child_nets_def tr_child_def)

lemma tr_set_child_sel [simp]:
  "tr_network (tr_set_child b c p) = tr_network p" "tr_skipped (tr_set_child b c p) = tr_skipped p"
  "tr_entry (tr_set_child b c p) = tr_entry p"
  "tr_child b' (tr_set_child b c p) = (if b' = b then Some c else tr_child b' p)"
  by (auto simp: tr_set_child_def tr_child_def)

lemma trie_nets_set_child:
  "trie_nets (tr_set_child b c p) = trie_nets c \<union> child_nets (\<not> b) p \<union> (if tr_entry p then {take (tr_skipped p) (nw_Number (tr_network p))} else {})"
  by (cases b) (auto simp: trie_nets_iff [of "tr_set_child b c p" for b c] child_nets_def)

lemma trie_ok_set_child:
  assumes "trie_ok T pre t" "prefix (pre @ [b]) q" "trie_ok T q c"
  shows "trie_ok T pre (tr_set_child b c t)"
  using assms by (subst trie_ok_iff) (auto simp: trie_ok_iff [of T pre t] split: if_split_asm)

lemma trie_ok_nets: "trie_ok T pre t \<Longrightarrow> p \<in> trie_nets t \<Longrightarrow> prefix pre p"
proof (induction pre t rule: trie_ok.induct)
  case (node pre e z o1)
  have "prefix pre p" if "p \<in> child_nets b (Trie (net_of T pre) (length pre) e z o1)" for b
    using that node.IH by (fastforce simp: child_nets_def prefix_def split: option.split_asm)
  with node.prems show ?case by (auto simp: trie_nets_iff split: if_split_asm)
qed

lemma trie_ok_child: "trie_ok T pre t \<Longrightarrow> tr_child b t = Some c \<Longrightarrow> \<exists>q. prefix (pre @ [b]) q \<and> trie_ok T q c"
  unfolding trie_ok_iff [of T pre t] by blast

lemma trie_ok_child_nets:
  assumes "trie_ok T pre t" "p \<in> child_nets b t"
  shows "prefix (pre @ [b]) p"
proof -
  obtain c where "tr_child b t = Some c" "p \<in> trie_nets c" using assms(2) by (auto simp: child_nets_def split: option.split_asm)
  with trie_ok_child [OF assms(1)] trie_ok_nets show ?thesis by (meson prefix_order.order_trans)
qed

lemma trie_ok_full:
  assumes "trie_ok T pre t" "length pre = T"
  shows "tr_child b t = None"
proof (rule ccontr)
  assume "tr_child b t \<noteq> None"
  then obtain q c where "prefix (pre @ [b]) q" "trie_ok T q c" using trie_ok_child [OF assms(1)] by blast
  then have "Suc (length pre) \<le> T" using trie_ok_iff [of T q c] prefix_length_le by fastforce
  with assms(2) show False by simp
qed

lemma prefix_snoc_nth:
  assumes "prefix pre x" "length pre < length x"
  shows "prefix (pre @ [b]) x \<longleftrightarrow> b = x ! length pre"
proof -
  obtain y where "x = pre @ y" using assms(1) by (auto simp: prefix_def)
  with assms(2) show ?thesis by (cases y) auto
qed

section \<open>Lookup and insertion\<close>

lemma trie_contains_unfold:
  "trie_contains t x =
     (if \<not> nw_Contains (tr_network t) x then Ret False
      else if tr_entry t then Ret True
      else if targetBitPosition t < 0 then Ret False
      else go_bind (nn_Bit x (targetBitPosition t))
        (\<lambda>b. case b of Inl _ \<Rightarrow> Ret False | Inr b \<Rightarrow> (case tr_child b t of None \<Rightarrow> Ret False | Some c \<Rightarrow> trie_contains c x)))"
  by (cases t) (auto simp: targetBitPosition_def totalNumberOfBits_def tr_child_def Let_def split: sum.split bool.split intro!: arg_cong [where f = "go_bind _"])

lemma trie_contains_nets:
  assumes "trie_ok T pre t" "length x = T"
  shows "trie_contains t x = Ret (\<exists>p \<in> trie_nets t. prefix p x)"
  using assms
proof (induction pre t rule: trie_ok.induct)
  case (node pre e z o1)
  let ?t = "Trie (net_of T pre) (length pre) e z o1"
  have ok: "trie_ok T pre ?t" using node.hyps(1) node.IH by (intro trie_ok.node) blast+
  have pre: "prefix pre p" if "p \<in> trie_nets ?t" for p using trie_ok_nets [OF ok that] .
  have len: "length (pre @ replicate (T - length pre) False) = T" using node.hyps(1) by simp
  consider "\<not> prefix pre x" | "prefix pre x" "e" | "prefix pre x" "\<not> e" "length pre = T" | "prefix pre x" "\<not> e" "length pre < T"
    using node.hyps(1) by linarith
  then show ?case
  proof cases
    case 1
    then have "\<not> (\<exists>p \<in> trie_nets ?t. prefix p x)" using pre prefix_order.order_trans by blast
    with 1 node show ?thesis by (simp add: trie_contains_unfold nw_Contains_net_of del: trie_contains.simps trie_nets.simps)
  next
    case 2
    with node show ?thesis by (simp add: trie_contains_unfold nw_Contains_net_of trie_nets_iff del: trie_contains.simps trie_nets.simps)
  next
    case 3
    have "trie_contains ?t x = Ret False"
      using 3 node.prems len by (subst trie_contains_unfold) (simp add: nw_Contains_net_of targetBitPosition_def totalNumberOfBits_def)
    with 3 show ?thesis using trie_ok_full [OF ok] by (simp add: trie_nets_iff child_nets_def del: trie_contains.simps trie_nets.simps)
  next
    case 4
    let ?b = "x ! length pre"
    have bit: "nn_Bit x (targetBitPosition ?t) = Ret (Inr ?b)"
      using 4 node.prems nn_Bit_net_of [of "length pre" x T] by (simp add: targetBitPosition_def totalNumberOfBits_def)
    have other: "\<not> (\<exists>p \<in> child_nets (\<not> ?b) ?t. prefix p x)"
      using trie_ok_child_nets [OF ok] prefix_snoc_nth [OF 4(1)] 4 node.prems by (metis prefix_order.order_trans)
    have "trie_contains ?t x = (case tr_child ?b ?t of None \<Rightarrow> Ret False | Some c \<Rightarrow> trie_contains c x)"
      using 4 node.prems len bit by (subst trie_contains_unfold) (simp add: nw_Contains_net_of targetBitPosition_def totalNumberOfBits_def)
    moreover have "(case tr_child ?b ?t of None \<Rightarrow> Ret False | Some c \<Rightarrow> trie_contains c x) = Ret (\<exists>p \<in> child_nets ?b ?t. prefix p x)"
      using node.IH node.prems by (fastforce simp: child_nets_def split: option.split)
    moreover have "(\<exists>p \<in> trie_nets ?t. prefix p x) \<longleftrightarrow> (\<exists>p \<in> child_nets ?b ?t. prefix p x)"
      using other 4 by (cases ?b) (auto simp: trie_nets_iff)
    ultimately show ?thesis by simp
  qed
qed

lemma trie_ok_leaf: "length p \<le> T \<Longrightarrow> trie_ok T p (Trie (net_of T p) (length p) e None None)"
  by (rule trie_ok.node) (auto simp: tr_child_def)

lemma tr_set_child_twice [simp]: "tr_set_child b c (tr_set_child b c' t) = tr_set_child b c t"
  by (simp add: tr_set_child_def)

lemma trie_nets_replace:
  assumes "tr_child b t = Some c" "trie_nets c' = insert p (trie_nets c)"
  shows "trie_nets (tr_set_child b c' t) = insert p (trie_nets t)"
  using assms by (cases b) (auto simp: trie_nets_set_child trie_nets_iff [of t] child_nets_def)

text \<open>The path node that is put between a node and its child.\<close>

lemma path_node:
  assumes "prefix (pre @ [b]) p" "prefix (pre @ [b]) q" "length p \<le> T" "trie_ok T q c" "tr_child b t = Some c"
    and "common_bits p q < length q"
  defines "path \<equiv> tr_set_child (q ! common_bits p q) c (Trie (net_of T (take (common_bits p q) p)) (common_bits p q) False None None)"
  shows "insertPrefix b (newPathprefixTrie (net_of T p) (common_bits p q)) t = Ret (Inr (tr_set_child b path t))"
    and "trie_ok T (take (common_bits p q) p) path" and "trie_nets path = trie_nets c"
proof -
  let ?k = "common_bits p q"
  have k: "?k \<le> length p" "length q \<le> T" "tr_network c = net_of T q" using assms(4) common_bits_le by (auto simp: trie_ok_iff [of T q c])
  have "length (take ?k p @ replicate (T - ?k) False) = T" using k assms(3) by simp
  then have bit: "nn_Bit (nw_Number (tr_network c)) (targetBitPosition (newPathprefixTrie (net_of T p) ?k)) = Ret (Inr (q ! ?k))"
    using nn_Bit_net_of [OF assms(6) k(2)] k assms(3)
    by (simp add: newPathprefixTrie_def nw_Masked_net_of targetBitPosition_def totalNumberOfBits_def min_absorb2 del: net_of_sel(1))
      (simp add: net_of_def min_absorb2)
  then show "insertPrefix b (newPathprefixTrie (net_of T p) ?k) t = Ret (Inr (tr_set_child b path t))"
    using k assms(3,5) by (simp add: insertPrefix_def path_def) (simp add: newPathprefixTrie_def nw_Masked_net_of)
  have "trie_ok T (take ?k p) (Trie (net_of T (take ?k p)) ?k False None None)"
    using trie_ok_leaf [of "take ?k p" T False] k assms(3) by (simp add: min_absorb2)
  moreover have "prefix (take ?k p @ [q ! ?k]) q"
    using assms(6) common_bits_take [of p q] by (metis take_Suc_conv_app_nth take_is_prefix)
  ultimately show "trie_ok T (take ?k p) path" unfolding path_def using assms(4) by (rule trie_ok_set_child)
  show "trie_nets path = trie_nets c" by (simp add: path_def trie_nets_set_child child_nets_def tr_child_def)
qed

text \<open>A step of the descent: the target bit of a longer network, and the node the insertion continues with.\<close>

lemma insert_bit:
  assumes "trie_ok T pre t" "prefix pre p" "pre \<noteq> p" "length p \<le> T" "0 < T"
  shows "nn_Bit (nw_Number (net_of T p)) (targetBitPosition t) = Ret (Inr (p ! length pre))"
    and "\<not> nw_Equal (tr_network t) (net_of T p)" and "prefix (pre @ [p ! length pre]) p" and "totalNumberOfBits t = T"
proof -
  have t: "tr_network t = net_of T pre" "tr_skipped t = length pre" "length pre \<le> T" using assms(1) by (auto simp: trie_ok_iff [of T pre t])
  have less: "length pre < length p" using assms(2,3) by (auto simp: prefix_def)
  show "prefix (pre @ [p ! length pre]) p" using prefix_snoc_nth [OF assms(2) less] by simp
  show total: "totalNumberOfBits t = T" using t by (simp add: totalNumberOfBits_def)
  show "nn_Bit (nw_Number (net_of T p)) (targetBitPosition t) = Ret (Inr (p ! length pre))"
    using nn_Bit_net_of [OF less assms(4)] t total by (simp add: targetBitPosition_def)
  show "\<not> nw_Equal (tr_network t) (net_of T p)" using nw_Equal_net_of [of pre T p] t assms by simp
qed

lemma trie_insert_child:
  assumes "trie_ok T pre t" "prefix pre p" "pre \<noteq> p" "length p \<le> T" "0 < T"
    and "tr_child (p ! length pre) t = Some c" "prefix (pre @ [p ! length pre]) q" "trie_ok T q c"
  shows "\<exists>r d. prefix (pre @ [p ! length pre]) r \<and> trie_ok T r d \<and> prefix r p \<and> trie_nets d = trie_nets c \<and>
    trie_insert (Suc k) (net_of T p) t = map_option (map_go (map_sum id (\<lambda>x. tr_set_child (p ! length pre) x t))) (trie_insert k (net_of T p) d)"
proof -
  let ?b = "p ! length pre" let ?k = "common_bits p q" let ?n = "net_of T p"
  note bit = insert_bit [OF assms(1-5)]
  have c: "tr_network c = net_of T q" "length q \<le> T" "tr_skipped c = length q" using assms(8) by (auto simp: trie_ok_iff [of T q c])
  have k: "length pre < ?k" "?k \<le> length p" "?k \<le> length q" using common_bits_prefix [OF bit(3) assms(7)] common_bits_le by auto
  have lcb: "LeastCommonBitPosition ?n (tr_network c) = Inr (T - ?k)"
    using LeastCommonBitPosition_net_of [OF assms(4) c(2)] c(1) k by simp
  have "totalNumberOfBits c = T" using c by (simp add: totalNumberOfBits_def)
  then have cond: "int (T - ?k) > targetBitPosition c + 1 \<longleftrightarrow> ?k < length q"
    using c k by (auto simp: targetBitPosition_def)
  have cut: "T - (T - ?k) = ?k" using k assms(4) by linarith
  show ?thesis
  proof (cases "?k < length q")
    case True
    note path = path_node [OF bit(3) assms(7,4,8,6) True]
    have "prefix (pre @ [?b]) (take ?k p)" using k by (intro prefix_length_prefix [OF bit(3) take_is_prefix]) simp
    with path show ?thesis
      using bit assms(6) lcb cond cut True by (intro exI conjI) (assumption | simp add: take_is_prefix del: net_of_sel(1))+
  next
    case False
    then have "q = take ?k p" using k common_bits_take [of p q] by simp
    then have "prefix q p" by (metis take_is_prefix)
    with assms(6-8) bit lcb cond False show ?thesis by (intro exI [of _ q] exI [of _ c]) (simp del: net_of_sel(1))
  qed
qed

lemma trie_insert_nets:
  assumes "trie_ok T pre t" "prefix pre p" "length p \<le> T" "0 < T" "T - length pre < k"
  shows "\<exists>t'. trie_insert k (net_of T p) t = Some (Ret (Inr t')) \<and> trie_ok T pre t' \<and> trie_nets t' = insert p (trie_nets t)"
  using assms
proof (induction k arbitrary: t pre)
  case (Suc k)
  have t: "tr_network t = net_of T pre" "tr_skipped t = length pre" "length pre \<le> T" using Suc.prems(1) by (auto simp: trie_ok_iff [of T pre t])
  show ?case
  proof (cases "pre = p")
    case True
    with Suc.prems t show ?thesis
      by (auto simp: nw_Equal_net_of trie_nets_iff child_nets_def tr_child_def trie_ok_iff [of T p] split: if_split_asm)
  next
    case False
    let ?b = "p ! length pre"
    note bit = insert_bit [OF Suc.prems(1,2) False Suc.prems(3,4)]
    show ?thesis
    proof (cases "tr_child ?b t")
      case None
      let ?leaf = "Trie (net_of T p) (length p) True None None"
      have "newEntryTrie (net_of T p) = ?leaf" using Suc.prems(3) nw_Masked_net_of [of "length p" p T] by (simp add: newEntryTrie_def)
      then have "trie_insert (Suc k) (net_of T p) t = Some (Ret (Inr (tr_set_child ?b ?leaf t)))"
        using None bit by (simp add: insertPrefix_def del: net_of_sel(1))
      moreover have "trie_nets (tr_set_child ?b ?leaf t) = insert p (trie_nets t)"
        using None by (cases ?b) (auto simp: trie_nets_set_child trie_nets_iff [of t] child_nets_def)
      ultimately show ?thesis using trie_ok_set_child [OF Suc.prems(1) bit(3) trie_ok_leaf [OF Suc.prems(3)]] by blast
    next
      case (Some c)
      then obtain q where q: "prefix (pre @ [?b]) q" "trie_ok T q c" using trie_ok_child [OF Suc.prems(1)] by blast
      obtain r d where d: "prefix (pre @ [?b]) r" "trie_ok T r d" "prefix r p" "trie_nets d = trie_nets c"
        "trie_insert (Suc k) (net_of T p) t = map_option (map_go (map_sum id (\<lambda>x. tr_set_child ?b x t))) (trie_insert k (net_of T p) d)"
        using trie_insert_child [OF Suc.prems(1,2) False Suc.prems(3,4) Some q] by blast
      have "T - length r < k" using prefix_length_le [OF d(1)] prefix_length_le [OF d(3)] Suc.prems(3,5) by simp
      from Suc.IH [OF d(2,3) Suc.prems(3,4) this]
      obtain t' where "trie_insert k (net_of T p) d = Some (Ret (Inr t'))" "trie_ok T r t'" "trie_nets t' = insert p (trie_nets c)"
        using d(4) by auto
      with d trie_ok_set_child [OF Suc.prems(1) d(1)] trie_nets_replace [OF Some] show ?thesis by simp
    qed
  qed
qed simp

section \<open>Parsed networks\<close>

lemma length_byte_bits [simp]: "length (byte_bits b) = 8"
  by (simp add: byte_bits_def)

lemma length_ip_bits [simp]: "length (ip_bits a) = 8 * length a"
  by (induction a) (simp_all add: ip_bits_def)

lemma ip_bits_Cons: "ip_bits (b # a) = byte_bits b @ ip_bits a"
  by (simp add: ip_bits_def)

lemma byte_bits_mask: "k \<le> 8 \<Longrightarrow> byte_bits (b AND push_bit (8 - k) 255) = take k (byte_bits b) @ replicate (8 - k) False"
proof (rule nth_equalityI)
  fix i
  assume k: "k \<le> 8" and "i < length (byte_bits (b AND push_bit (8 - k) 255))"
  then have i: "i < 8" by simp
  have m: "(255 :: u8) = - 1" by simp
  have "byte_bits (b AND push_bit (8 - k) 255) ! i \<longleftrightarrow> bit b (7 - i) \<and> 8 - k \<le> 7 - i"
    using i by (auto simp add: byte_bits_def m bit_simps)
  also have "\<dots> \<longleftrightarrow> (take k (byte_bits b) @ replicate (8 - k) False) ! i"
    using i k by (auto simp: nth_append byte_bits_def)
  finally show "byte_bits (b AND push_bit (8 - k) 255) ! i = (take k (byte_bits b) @ replicate (8 - k) False) ! i" .
qed simp

lemma length_ip_Mask [simp]: "length (ip_Mask n a) = length a"
  by (simp add: ip_Mask_def)

lemma parse_octets_length: "parse_octets k s = Some a \<Longrightarrow> length a = k"
  by (induction k s arbitrary: a rule: parse_octets.induct)
    (auto simp: Let_def split: if_split_asm option.split_asm prod.split_asm)

lemma parseIPv4_length: "parseIPv4 s = Some a \<Longrightarrow> length a = 16 \<and> length (drop 12 a) = 4"
  by (auto simp: parseIPv4_def v4InV6Prefix_def dest!: parse_octets_length)

lemma parse_groups_length:
  "parse_groups k a e s = Some (a', e', r) \<Longrightarrow> length a + 2 * k \<le> 16 \<Longrightarrow> length a' \<le> 16"
  by (induction k a e s rule: parse_groups.induct)
    (auto simp: Let_def dest: parseIPv4_length split: if_split_asm option.split_asm prod.split_asm)

lemma parseIPv6_length: "parseIPv6 s = Some a \<Longrightarrow> length a = 16"
  by (auto simp: parseIPv6_def Let_def dest!: parse_groups_length split: if_split_asm option.split_asm)

lemma ip_bits_Mask: "ip_bits (map (\<lambda>(i, b). b AND push_bit (8 - min 8 (n - 8 * i)) 255) (enumerate j a)) =
    take (n - 8 * j) (ip_bits a) @ replicate (8 * length a - (n - 8 * j)) False"
proof (induction a arbitrary: j)
  case (Cons b a)
  let ?k = "min 8 (n - 8 * j)"
  have "byte_bits (b AND push_bit (8 - ?k) 255) = take ?k (byte_bits b) @ replicate (8 - ?k) False" by (rule byte_bits_mask) simp
  moreover have "n - 8 * Suc j = n - 8 * j - 8" by simp
  ultimately show ?case
    using Cons.IH [of "Suc j"] by (cases "n - 8 * j \<le> 8") (auto simp: ip_bits_Cons min_def replicate_add [symmetric] simp del: replicate_append_same)
qed (simp add: ip_bits_def)

text \<open>The shape of a parsed network; the address of an IPv6 network may have the form of an IPv4 address.\<close>

definition net_shape :: "ip \<times> nat \<times> nat \<Rightarrow> bool" where
  "net_shape = (\<lambda>(a, ones, bits). (length a = 4 \<or> length a = 16) \<and> bits = 8 * length a \<and> ones \<le> bits \<and>
     ip_bits a = take ones (ip_bits a) @ replicate (bits - ones) False)"

definition parse_addr :: "string \<Rightarrow> ip option" where
  "parse_addr s = (case parseIPv4 s of Some a \<Rightarrow> Some (drop 12 a) | None \<Rightarrow> parseIPv6 s)"

lemma parse_addr_length: "parse_addr s = Some a \<Longrightarrow> length a = 4 \<or> length a = 16"
  by (auto simp: parse_addr_def dest: parseIPv4_length parseIPv6_length split: option.split_asm)

lemma ParseCIDR_shape:
  assumes "ParseCIDR s = Some net"
  shows "net_shape net"
proof -
  obtain a n where a: "net = (ip_Mask n a, n, 8 * length a)" "n \<le> 8 * length a" "length a = 4 \<or> length a = 16"
    using assms unfolding ParseCIDR_def Let_def parse_addr_def [symmetric]
    by (auto dest: parse_addr_length split: option.split_asm if_split_asm prod.split_asm)
  have "ip_bits (ip_Mask n a) = take n (ip_bits a) @ replicate (8 * length a - n) False"
    using ip_bits_Mask [of n 0 a] by (simp add: ip_Mask_def)
  with a show ?thesis by (auto simp: net_shape_def)
qed

section \<open>The access list as a set of networks\<close>

definition ranger_ok :: "ranger \<Rightarrow> bool" where
  "ranger_ok rg \<longleftrightarrow> trie_ok 32 [] (rg_v4 rg) \<and> trie_ok 128 [] (rg_v6 rg)"

text \<open>The abstraction: networks as the length of their addresses and a prefix.\<close>

definition ranger_nets :: "ranger \<Rightarrow> (nat \<times> bool list) set" where
  "ranger_nets rg = Pair 32 ` trie_nets (rg_v4 rg) \<union> Pair 128 ` trie_nets (rg_v6 rg)"

definition net_key :: "ip \<times> nat \<times> nat \<Rightarrow> nat \<times> bool list" where
  "net_key = (\<lambda>(a, ones, bits). (bits, take ones (ip_bits a)))"

definition in_nets :: "(nat \<times> bool list) set \<Rightarrow> ip \<Rightarrow> bool" where
  "in_nets S x \<longleftrightarrow> (\<exists>nn p. NewNetworkNumber x = Some nn \<and> (length nn, p) \<in> S \<and> prefix p nn)"

lemma ranger_new: "ranger_ok NewPCTrieRanger" "ranger_nets NewPCTrieRanger = {}"
  using trie_ok_leaf [of "[]" 32 False] trie_ok_leaf [of "[]" 128 False]
  by (simp_all add: ranger_ok_def ranger_nets_def NewPCTrieRanger_def newPrefixTree_def net_of_def)

lemma NewNetworkNumber_length: "NewNetworkNumber x = Some nn \<Longrightarrow> length nn = (if To4 x \<noteq> None then 32 else 128)"
  by (auto simp: NewNetworkNumber_def To4_def split: option.split_asm if_split_asm)

lemma ranger_Contains_nets:
  assumes "ranger_ok rg"
  shows "ranger_Contains rg a = Ret (\<exists>x. a = Some x \<and> in_nets (ranger_nets rg) x)"
proof (cases "Option.bind a NewNetworkNumber")
  case (Some nn)
  then obtain x where x: "a = Some x" "NewNetworkNumber x = Some nn" by (cases a) auto
  have "trie_contains (rg_v4 rg) nn = Ret (\<exists>p \<in> trie_nets (rg_v4 rg). prefix p nn)" if "length nn = 32"
    using assms that by (intro trie_contains_nets) (auto simp: ranger_ok_def)
  moreover have "trie_contains (rg_v6 rg) nn = Ret (\<exists>p \<in> trie_nets (rg_v6 rg). prefix p nn)" if "length nn = 128"
    using assms that by (intro trie_contains_nets) (auto simp: ranger_ok_def)
  ultimately show ?thesis
    using x NewNetworkNumber_length [OF x(2)] by (auto simp: ranger_Contains_def in_nets_def ranger_nets_def split: if_split_asm)
qed (auto simp: ranger_Contains_def in_nets_def)

lemma trie_fuel_enough: "T \<le> 128 \<Longrightarrow> T - n < trie_fuel"
  by (simp add: trie_fuel_def)

lemma ranger_Insert_nets:
  assumes "ranger_ok rg" "net_shape net" "snd (snd net) = 32 \<or> To4 (fst net) = None"
  shows "\<exists>rg'. ranger_Insert net rg = Some (Ret (Inr rg')) \<and> ranger_ok rg' \<and> ranger_nets rg' = insert (net_key net) (ranger_nets rg)"
proof -
  obtain a ones bits where net: "net = (a, ones, bits)" by (cases net)
  define p where "p = take ones (ip_bits a)"
  have shape: "ones \<le> bits" "bits = 8 * length a" "ip_bits a = p @ replicate (bits - length p) False" "length p = ones"
    using assms(2) by (auto simp: net net_shape_def p_def min_absorb2)
  consider (v4) "length a = 4" "To4 a = Some a" | (v6) "length a = 16" "To4 a = None"
    using assms(2,3) by (auto simp: net net_shape_def To4_def)
  then show ?thesis
  proof cases
    case v4
    then have "NewNetwork net = net_of 32 p" using shape by (simp add: net NewNetwork_def NewNetworkNumber_def net_of_def)
    moreover obtain t where "trie_insert trie_fuel (net_of 32 p) (rg_v4 rg) = Some (Ret (Inr t))" "trie_ok 32 [] t"
        "trie_nets t = insert p (trie_nets (rg_v4 rg))"
      using trie_insert_nets [of 32 "[]" "rg_v4 rg" p trie_fuel, OF _ _ _ _ trie_fuel_enough] assms(1) shape v4
      by (fastforce simp: ranger_ok_def)
    moreover have "net_key net = (32, p)" using v4 shape(2) by (simp add: net net_key_def p_def)
    ultimately show ?thesis using v4 assms(1) by (auto simp: ranger_Insert_def net ranger_ok_def ranger_nets_def)
  next
    case v6
    then have "NewNetwork net = net_of 128 p" using shape by (simp add: net NewNetwork_def NewNetworkNumber_def net_of_def)
    moreover obtain t where "trie_insert trie_fuel (net_of 128 p) (rg_v6 rg) = Some (Ret (Inr t))" "trie_ok 128 [] t"
        "trie_nets t = insert p (trie_nets (rg_v6 rg))"
      using trie_insert_nets [of 128 "[]" "rg_v6 rg" p trie_fuel, OF _ _ _ _ trie_fuel_enough] assms(1) shape v6
      by (fastforce simp: ranger_ok_def)
    moreover have "net_key net = (128, p)" using v6 shape(2) by (simp add: net net_key_def p_def)
    ultimately show ?thesis using v6 assms(1) by (auto simp: ranger_Insert_def net ranger_ok_def ranger_nets_def)
  qed
qed

text \<open>The interface of the access list: a set of networks to which networks are added and which is asked for addresses.\<close>

locale network_set =
  fixes ins :: "'n \<Rightarrow> 's \<Rightarrow> (string + 's) go option"
    and has :: "'s \<Rightarrow> ip option \<Rightarrow> bool go"
    and nets :: "'s \<Rightarrow> (nat \<times> bool list) set"
    and key :: "'n \<Rightarrow> nat \<times> bool list"
    and ok :: "'s \<Rightarrow> bool"
    and good :: "'n \<Rightarrow> bool"
  assumes ins_nets: "ok s \<Longrightarrow> good n \<Longrightarrow> \<exists>s'. ins n s = Some (Ret (Inr s')) \<and> ok s' \<and> nets s' = insert (key n) (nets s)"
    and has_nets: "ok s \<Longrightarrow> has s a = Ret (\<exists>x. a = Some x \<and> in_nets (nets s) x)"
begin

lemma ins_unique: "ok s \<Longrightarrow> good n \<Longrightarrow> ins n s = Some (Ret (Inr s')) \<Longrightarrow> ok s' \<and> nets s' = insert (key n) (nets s)"
  using ins_nets by fastforce

lemma has_insert:
  assumes "ok s" "good n" "ins n s = Some (Ret (Inr s'))"
  shows "has s' (Some x) = Ret (in_nets {key n} x \<or> in_nets (nets s) x)"
  using ins_unique [OF assms] has_nets [of s' "Some x"] by (auto simp: in_nets_def)

end

definition good_net :: "ip \<times> nat \<times> nat \<Rightarrow> bool" where
  "good_net net \<longleftrightarrow> net_shape net \<and> (snd (snd net) = 32 \<or> To4 (fst net) = None)"

interpretation al: network_set ranger_Insert ranger_Contains ranger_nets net_key ranger_ok good_net
  by unfold_locales (auto simp: good_net_def ranger_Contains_nets intro: ranger_Insert_nets)

definition parsed :: "string list \<Rightarrow> (ip \<times> nat \<times> nat) set" where
  "parsed cidrs = {net. \<exists>c \<in> set cidrs. ParseCIDR c = Some net}"

lemma parsed_simps [simp]: "parsed [] = {}" "parsed (c # cidrs) = set_option (ParseCIDR c) \<union> parsed cidrs"
  by (auto simp: parsed_def)

lemma fill_access_list_nets:
  assumes "ranger_ok rg" "\<And>c. c \<in> set cidrs \<Longrightarrow> \<exists>net. ParseCIDR c = Some net \<and> (snd (snd net) = 32 \<or> To4 (fst net) = None)"
  shows "\<exists>rg'. fill_access_list cidrs rg = Some (Ret (Inr rg')) \<and> ranger_ok rg' \<and>
    ranger_nets rg' = ranger_nets rg \<union> net_key ` parsed cidrs"
  using assms
proof (induction cidrs arbitrary: rg)
  case (Cons c cidrs)
  obtain net where net: "ParseCIDR c = Some net" "snd (snd net) = 32 \<or> To4 (fst net) = None" using Cons.prems(2) [of c] by auto
  obtain rg1 where rg1: "ranger_Insert net rg = Some (Ret (Inr rg1))" "ranger_ok rg1" "ranger_nets rg1 = insert (net_key net) (ranger_nets rg)"
    using al.ins_nets [OF Cons.prems(1), of net] ParseCIDR_shape [OF net(1)] net(2) by (auto simp: good_net_def)
  obtain rg' where "fill_access_list cidrs rg1 = Some (Ret (Inr rg'))" "ranger_ok rg'"
      "ranger_nets rg' = ranger_nets rg1 \<union> net_key ` parsed cidrs"
    using Cons.IH [OF rg1(2)] Cons.prems(2) by (metis list.set_intros(2))
  with net(1) rg1 show ?case by auto
qed simp

text \<open>An address in a network: of the same family and equal to it in the ones of the mask.\<close>

definition in_network :: "ip \<times> nat \<times> nat \<Rightarrow> ip \<Rightarrow> bool" where
  "in_network = (\<lambda>(a, ones, bits) x.
     (case NewNetworkNumber x of None \<Rightarrow> False | Some nn \<Rightarrow> length nn = bits \<and> take ones nn = take ones (ip_bits a)))"

lemma prefix_iff_take: "prefix p x \<longleftrightarrow> take (length p) x = p"
  by (metis append_eq_conv_conj prefix_def append_take_drop_id)

lemma in_network_key:
  assumes "net_shape net" "NewNetworkNumber x = Some nn"
  shows "in_network net x \<longleftrightarrow> length nn = fst (net_key net) \<and> prefix (snd (net_key net)) nn"
  using assms by (cases net) (auto simp: in_network_def net_key_def net_shape_def prefix_iff_take min_absorb2)

lemma in_nets_keys:
  assumes "\<And>net. net \<in> S \<Longrightarrow> net_shape net"
  shows "in_nets (net_key ` S) x \<longleftrightarrow> (\<exists>net \<in> S. in_network net x)"
proof (cases "NewNetworkNumber x")
  case (Some nn)
  have "(length nn, p) \<in> net_key ` S \<and> prefix p nn \<longleftrightarrow> (\<exists>net \<in> S. in_network net x \<and> p = snd (net_key net))" for p
    using in_network_key [OF assms Some] by (auto simp: image_iff) (metis fst_conv snd_conv prod.collapse)+
  with Some show ?thesis unfolding in_nets_def by auto
qed (auto simp: in_nets_def in_network_def)

lemma fill_access_list_exact:
  assumes "\<forall>c \<in> set cidrs. \<exists>net. ParseCIDR c = Some net \<and> (snd (snd net) = 32 \<or> To4 (fst net) = None)"
  shows "\<exists>rg. fill_access_list cidrs NewPCTrieRanger = Some (Ret (Inr rg)) \<and>
    (\<forall>client. ranger_Contains rg (ParseIP client) =
       Ret (\<exists>x c net. ParseIP client = Some x \<and> c \<in> set cidrs \<and> ParseCIDR c = Some net \<and> in_network net x))"
proof -
  have shape: "net_shape net" if "net \<in> parsed cidrs" for net using that ParseCIDR_shape unfolding parsed_def by blast
  have keys: "in_nets (net_key ` parsed cidrs) x \<longleftrightarrow> (\<exists>net \<in> parsed cidrs. in_network net x)" for x
    by (rule in_nets_keys) (rule shape)
  obtain rg where rg: "fill_access_list cidrs NewPCTrieRanger = Some (Ret (Inr rg))" "ranger_ok rg" "ranger_nets rg = net_key ` parsed cidrs"
    using fill_access_list_nets [OF ranger_new(1), of cidrs] assms ranger_new(2) by auto
  have "in_nets (ranger_nets rg) x \<longleftrightarrow> (\<exists>c net. c \<in> set cidrs \<and> ParseCIDR c = Some net \<and> in_network net x)" for x
    unfolding rg(3) keys by (auto simp: parsed_def)
  with rg al.has_nets [OF rg(2)] show ?thesis by auto
qed

text \<open>C6. The access list is exactly the configured networks: when every entry parses and no IPv6 network has the form of an IPv4
  address, the list is filled without an error or a panic, and a lookup in the trie holds for an address if and only if
  one of the configured networks contains it; text that is not an address is in no network.\<close>

theorem access_list_exact:
  assumes "\<forall>c \<in> set cidrs. \<exists>net. ParseCIDR c = Some net \<and> (snd (snd net) = 32 \<or> To4 (fst net) = None)"
  shows "\<exists>rg. fill_access_list cidrs NewPCTrieRanger = Some (Ret (Inr rg)) \<and>
    (\<forall>client. ranger_Contains rg (ParseIP client) =
       Ret (\<exists>x c net. ParseIP client = Some x \<and> c \<in> set cidrs \<and> ParseCIDR c = Some net \<and> in_network net x))"
  using assms by (rule fill_access_list_exact)

section \<open>Printed addresses\<close>

text \<open>Parsing an address that was printed gives the address back.\<close>

lemma hex_value_digit: "d < 10 \<Longrightarrow> hex_value (char_of (48 + d)) = Some d"
  by (simp add: hex_value_def of_char_of Let_def)

lemma digit_run_itoa: "n < 0xFFFFFF \<Longrightarrow> digit_run 10 0 i (itoa n @ rest) = digit_run 10 n (i + length (itoa n)) rest"
proof (induction n arbitrary: rest rule: itoa.induct)
  case (1 n)
  show ?case
  proof (cases "n < 10")
    case True
    with 1 show ?thesis by (simp add: itoa.simps [of n] hex_value_digit)
  next
    case False
    have "n div 10 < 0xFFFFFF" using 1 by linarith
    with False 1 show ?thesis by (simp add: itoa.simps [of n] hex_value_digit)
  qed
qed

lemma itoa_ne [simp]: "itoa n \<noteq> []"
  by (simp add: itoa.simps [of n])

lemma parse_number_itoa:
  "n < 0xFFFFFF \<Longrightarrow> rest = [] \<or> hex_value (hd rest) = None \<Longrightarrow> parse_number 10 (itoa n @ rest) = Some (n, length (itoa n))"
  using digit_run_itoa [of n 0 rest] by (cases rest) (auto simp: parse_number_def)

lemma itoa_digits: "c \<in> set (itoa n) \<Longrightarrow> 48 \<le> (of_char c :: nat) \<and> of_char c \<le> (57 :: nat)"
proof (induction n rule: itoa.induct)
  case (1 n)
  then show ?case by (cases "n < 10") (auto simp: itoa.simps [of n] of_char_of)
qed

lemma octet_less: "unat (b :: u8) < 0xFFFFFF" "\<not> 255 < unat b"
proof -
  have "unat b < 2 ^ LENGTH(8)" by (rule unsigned_less)
  then show "unat b < 0xFFFFFF" "\<not> 255 < unat b" by simp_all
qed

lemma parse_octets_Suc:
  assumes "k < 4" "s1 = (if k < 3 then CHR ''.'' # s else s)" "s = itoa (unat b) @ rest" "rest = [] \<or> hd rest = CHR ''.''"
  shows "parse_octets (Suc k) s1 = map_option ((#) b) (parse_octets k rest)"
proof -
  have "rest = [] \<or> hex_value (hd rest) = None" using assms(4) by (auto simp: hex_value_def)
  then have "parse_number 10 s = Some (unat b, length (itoa (unat b)))" using assms(3) parse_number_itoa octet_less by simp
  then show ?thesis using assms octet_less by (auto simp: Let_def)
qed

lemma parse_octets_dotted: "parse_octets 4 (dotted [a, b, c, d]) = Some [a, b, c, d]"
proof -
  let ?d = "CHR ''.'' # itoa (unat d)" let ?c = "CHR ''.'' # itoa (unat c) @ ?d" let ?b = "CHR ''.'' # itoa (unat b) @ ?c"
  have "dotted [a, b, c, d] = itoa (unat a) @ ?b" by (simp add: dotted_def)
  moreover have "parse_octets (Suc 3) (itoa (unat a) @ ?b) = map_option ((#) a) (parse_octets 3 ?b)" by (rule parse_octets_Suc) auto
  moreover have "parse_octets (Suc 2) ?b = map_option ((#) b) (parse_octets 2 ?c)" by (rule parse_octets_Suc) auto
  moreover have "parse_octets (Suc 1) ?c = map_option ((#) c) (parse_octets 1 ?d)" by (rule parse_octets_Suc) auto
  moreover have "parse_octets (Suc 0) ?d = map_option ((#) d) (parse_octets 0 [])" by (rule parse_octets_Suc) auto
  ultimately show ?thesis by (simp add: eval_nat_numeral)
qed

lemma ParseIP_from_dotted: "CHR ''.'' \<in> set t \<Longrightarrow> CHR '':'' \<notin> set t \<Longrightarrow> ParseIP_from s t = parseIPv4 s"
  by (induction t) auto

lemma ParseIP_dotted: "ParseIP (dotted [a, b, c, d]) = Some (v4InV6Prefix @ [a, b, c, d])"
proof -
  have "CHR '':'' \<notin> set (itoa n)" for n using itoa_digits by fastforce
  then have "ParseIP (dotted [a, b, c, d]) = parseIPv4 (dotted [a, b, c, d])"
    unfolding ParseIP_def by (intro ParseIP_from_dotted) (auto simp: dotted_def)
  then show ?thesis by (simp add: parseIPv4_def parse_octets_dotted)
qed

lemma ParseCIDR_dotted:
  assumes "n \<le> 32"
  shows "ParseCIDR (dotted [a, b, c, d] @ CHR ''/'' # itoa n) = Some (ip_Mask n [a, b, c, d], n, 32)"
proof -
  have "CHR ''/'' \<notin> set (itoa k)" for k using itoa_digits by fastforce
  then have s: "CHR ''/'' \<notin> set (dotted [a, b, c, d])" by (auto simp: dotted_def)
  then have "takeWhile (\<lambda>x. x \<noteq> CHR ''/'') (dotted [a, b, c, d] @ CHR ''/'' # itoa n) = dotted [a, b, c, d]"
    "dropWhile (\<lambda>x. x \<noteq> CHR ''/'') (dotted [a, b, c, d] @ CHR ''/'' # itoa n) = CHR ''/'' # itoa n"
    by (auto simp: takeWhile_append dropWhile_append3 dropWhile_append)
  then show ?thesis
    using parse_number_itoa [of n "[]"] assms by (simp add: ParseCIDR_def parseIPv4_def parse_octets_dotted v4InV6Prefix_def)
qed

lemma demo_texts: "''192.0.2.0/24'' = dotted [192, 0, 2, 0] @ CHR ''/'' # itoa 24" "''192.0.2.77'' = dotted [192, 0, 2, 77]"
    "''192.0.3.1'' = dotted [192, 0, 3, 1]"
  by (simp_all add: dotted_def itoa.simps char_of_def bit_0)

lemma demo_net:
  "ParseCIDR ''192.0.2.0/24'' = Some ([192, 0, 2, 0], 24, 32)" "ParseIP ''192.0.2.77'' = Some (v4InV6Prefix @ [192, 0, 2, 77])"
  "ParseIP ''192.0.3.1'' = Some (v4InV6Prefix @ [192, 0, 3, 1])"
  unfolding demo_texts using ParseCIDR_dotted [of 24 192 0 2 0] by (simp_all add: ip_Mask_def ParseIP_dotted)

lemma demo_in_network: "in_network ([192, 0, 2, 0], 24, 32) (v4InV6Prefix @ [192, 0, 2, 77])"
  "\<not> in_network ([192, 0, 2, 0], 24, 32) (v4InV6Prefix @ [192, 0, 3, 1])"
  by code_simp+

theorem access_list_exact_witness:
  "\<exists>rg. fill_access_list [''192.0.2.0/24''] NewPCTrieRanger = Some (Ret (Inr rg)) \<and>
     ranger_Contains rg (ParseIP ''192.0.2.77'') = Ret True \<and> ranger_Contains rg (ParseIP ''192.0.3.1'') = Ret False"
proof -
  note p = demo_net(1) and a = demo_net(2) and b = demo_net(3) and i = demo_in_network(1) and j = demo_in_network(2)
  have net: "\<forall>c \<in> set [''192.0.2.0/24'']. \<exists>net. ParseCIDR c = Some net \<and> (snd (snd net) = 32 \<or> To4 (fst net) = None)" using p by simp
  obtain rg where rg: "fill_access_list [''192.0.2.0/24''] NewPCTrieRanger = Some (Ret (Inr rg))"
      "\<And>client. ranger_Contains rg (ParseIP client) =
         Ret (\<exists>x c net. ParseIP client = Some x \<and> c \<in> set [''192.0.2.0/24''] \<and> ParseCIDR c = Some net \<and> in_network net x)"
    using access_list_exact [OF net] by blast
  have "ranger_Contains rg (ParseIP ''192.0.2.77'') = Ret True" using rg(2) [of "''192.0.2.77''"] p a i by simp
  moreover have "ranger_Contains rg (ParseIP ''192.0.3.1'') = Ret False" using rg(2) [of "''192.0.3.1''"] p b j by simp
  ultimately show ?thesis using rg(1) by blast
qed

end
