(* ===== verification/Config.thy ===== *)
theory Config
  imports Blocklist_Updater
begin

text \<open>
  The configuration (\<^verbatim>\<open>config.go\<close>): the record of the settings, the text of the default file, and loading, which generates the file
  when there is none. What the TOML decoder makes of a text, and whether a file can be created and written, are fields of the record
  \<open>config_lib\<close>; a duration is its number of nanoseconds.
\<close>

record config =
  cf_Version :: string
  cf_BlockLists :: "string list"
  cf_BlockListDir :: string
  cf_RootServers :: "string list"
  cf_Root6Servers :: "string list"
  cf_RootKeys :: "string list"
  cf_FallbackServers :: "string list"
  cf_AccessList :: "string list"
  cf_Log :: string
  cf_LogLevel :: string
  cf_Bind :: string
  cf_BindTLS :: string
  cf_BindDOH :: string
  cf_TLSCertificate :: string
  cf_TLSPrivateKey :: string
  cf_API :: string
  cf_Nullroute :: string
  cf_Nullroutev6 :: string
  cf_OutboundIPs :: "string list"
  cf_Timeout :: int
  cf_ConnectTimeout :: int
  cf_Expire :: u32
  cf_CacheSize :: int
  cf_Maxdepth :: int
  cf_RateLimit :: int
  cf_Blocklist :: "string list"
  cf_Whitelist :: "string list"

definition ConfigVersion :: string where
  "ConfigVersion = ''0.2.1''"

definition defaultConfig :: "string \<Rightarrow> string" where
  \<open>defaultConfig version = strings_join
    [[],
     ''version = "'' @ version @ ''"'',
     [],
     ''# list of remote blocklists'',
     ''blocklists = ['',
     ''"http://mirror1.malwaredomains.com/files/justdomains",'',
     ''"https://raw.githubusercontent.com/StevenBlack/hosts/master/hosts",'',
     ''"http://sysctl.org/cameleon/hosts",'',
     ''"https://zeustracker.abuse.ch/blocklist.php?download=domainblocklist",'',
     ''"https://s3.amazonaws.com/lists.disconnect.me/simple_tracking.txt",'',
     ''"https://s3.amazonaws.com/lists.disconnect.me/simple_ad.txt",'',
     ''"http://hosts-file.net/ad_servers.txt",'',
     ''"https://raw.githubusercontent.com/quidsup/notrack/master/trackers.txt"'',
     '']'',
     [],
     ''# list of locations to recursively read blocklists from (warning, every file found is assumed to be a hosts-file or domain list)'',
     ''blocklistdir = "blocklist"'',
     [],
     ''# what kind of information should be logged, Log verbosity level [crit,error,warn,info,debug]'',
     ''loglevel = "info"'',
     [],
     ''# address to bind to for the DNS server'',
     ''bind = ":53"'',
     [],
     ''# address to bind to for the DNS-over-TLS server'',
     ''# bindtls = ":853"'',
     [],
     ''# address to bind to for the DNS-over-HTTPS server'',
     ''# binddoh = ":8053"'',
     [],
     ''# tls certificate file'',
     ''# tlscertificate = "server.crt"'',
     [],
     ''# tls private key file'',
     ''# tlsprivatekey = "server.key"'',
     [],
     ''# outbound ip addresses, if you set multiple, sdns can use random outbound ip address '',
     ''outboundips = []'',
     [],
     ''# root servers'',
     ''rootservers = ['',
     ''"192.5.5.241:53",'',
     ''"198.41.0.4:53",'',
     ''"192.228.79.201:53",'',
     ''"192.33.4.12:53",'',
     ''"199.7.91.13:53",'',
     ''"192.203.230.10:53",'',
     ''"192.112.36.4:53",'',
     ''"128.63.2.53:53",'',
     ''"192.36.148.17:53",'',
     ''"192.58.128.30:53",'',
     ''"193.0.14.129:53",'',
     ''"199.7.83.42:53",'',
     ''"202.12.27.33:53"'',
     '']'',
     [],
     ''# root ipv6 servers'',
     ''root6servers = ['',
     ''"[2001:500:2f::f]:53",'',
     ''"[2001:503:ba3e::2:30]:53",'',
     ''"[2001:500:200::b]:53",'',
     ''"[2001:500:2::c]:53",'',
     ''"[2001:500:2d::d]:53",'',
     ''"[2001:500:a8::e]:53",'',
     ''"[2001:500:12::d0d]:53",'',
     ''"[2001:500:1::53]:53",'',
     ''"[2001:7fe::53]:53",'',
     ''"[2001:503:c27::2:30]:53",'',
     ''"[2001:7fd::1]:53",'',
     ''"[2001:500:9f::42]:53",'',
     ''"[2001:dc3::35]:53"'',
     '']'',
     [],
     ''# root keys for dnssec'',
     ''rootkeys = ['',
     ''".'' @ [CHR 0x09, CHR 0x09, CHR 0x09] @ ''172800'' @ [CHR 0x09] @ ''IN'' @ [CHR 0x09] @ ''DNSKEY'' @ [CHR 0x09] @ ''257 3 8 AwEAAagAIKlVZrpC6Ia7gEzahOR+9W29euxhJhVVLOyQbSEW0O8gcCjFFVQUTf6v58fLjwBd0YI0EzrAcQqBGCzh/RStIoO8g0NfnfL2MTJRkxoXbfDaUeVPQuYEhg37NZWAJQ9VnMVDxP/VHL496M/QZxkjf5/Efucp2gaDX6RS6CXpoY68LsvPVjR0ZSwzz1apAzvN9dlzEheX7ICJBBtuA6G3LQpzW5hOA2hzCTMjJPJ8LbqF6dsV6DoBQzgul0sGIcGOYl7OyQdXfZ57relSQageu+ipAdTTJ25AsRTAoub8ONGcLmqrAmRLKBP1dfwhYB4N7knNnulqQxA+Uk1ihz0=",'',
     ''".'' @ [CHR 0x09, CHR 0x09, CHR 0x09] @ ''172800'' @ [CHR 0x09] @ ''IN'' @ [CHR 0x09] @ ''DNSKEY'' @ [CHR 0x09] @ ''256 3 8 AwEAAdp440E6Mz7c+Vl4sPd0lTv2Qnc85dTW64j0RDD7sS/zwxWDJ3QRES2VKDO0OXLMqVJSs2YCCSDKuZXpDPuf++YfAu0j7lzYYdWTGwyNZhEaXtMQJIKYB96pW6cRkiG2Dn8S2vvo/PxW9PKQsyLbtd8PcwWglHgReBVp7kEv/Dd+3b3YMukt4jnWgDUddAySg558Zld+c9eGWkgWoOiuhg4rQRkFstMX1pRyOSHcZuH38o1WcsT4y3eT0U/SR6TOSLIB/8Ftirux/h297oS7tCcwSPt0wwry5OFNTlfMo8v7WGurogfk8hPipf7TTKHIi20LWen5RCsvYsQBkYGpF78="'',
     '']'',
     [],
     ''# fallback servers'',
     ''fallbackservers = ['',
     ''"8.8.8.8:53",'',
     ''"8.8.4.4:53"'',
     '']'',
     [],
     ''# address to bind to for the http API server disable for left blank'',
     ''api = "127.0.0.1:8080"'',
     [],
     ''# ipv4 address to forward blocked queries to'',
     ''nullroute = "0.0.0.0"'',
     [],
     ''# ipv6 address to forward blocked queries to'',
     ''nullroutev6 = "0:0:0:0:0:0:0:0"'',
     [],
     ''# which clients allowed to make queries'',
     ''accesslist = ['',
     ''"0.0.0.0/0",'',
     ''"::0/0"'',
     '']'',
     [],
     ''# query timeout for dns lookups in duration'',
     ''timeout = "5s"'',
     [],
     ''# connect timeout for dns lookups in duration'',
     ''connecttimeout = "2s"'',
     [],
     ''# default cache TTL in seconds'',
     ''expire = 600'',
     [],
     ''# cache size (total records in cache)'',
     ''cachesize = 256000'',
     [],
     ''# maximum recursion depth for nameservers'',
     ''maxdepth = 30'',
     [],
     ''# query based ratelimit per second, 0 for disable'',
     ''ratelimit = 0'',
     [],
     ''# manual blocklist entries'',
     ''blocklist = []'',
     [],
     ''# manual whitelist entries'',
     ''whitelist = []'',
     []] [CHR 0x0A]\<close>

record config_lib =
  cl_Create :: "string \<Rightarrow> bool"
  cl_Copy :: "string \<Rightarrow> bool"
  cl_Decode :: "string \<Rightarrow> config \<Rightarrow> config option"

text \<open>The file exists once it is created; when the copy fails, the error is returned and what was written of the text is not used.\<close>

definition generateConfig :: "config_lib \<Rightarrow> string \<Rightarrow> files \<Rightarrow> string option \<times> files" where
  "generateConfig L path fs =
     (if \<not> cl_Create L path then (Some ''could not generate config'', fs)
      else if \<not> cl_Copy L path then (Some ''could not copy default config'', gmap_set path [] fs)
      else (None, gmap_set path (defaultConfig ConfigVersion) fs))"

text \<open>Loading: the error or the configuration with whether the file is out of date, and the files.\<close>

definition LoadConfig :: "config_lib \<Rightarrow> string \<Rightarrow> config \<Rightarrow> files \<Rightarrow> (string + config \<times> bool) \<times> files" where
  "LoadConfig L path c fs =
     (let (err, fs1) = (if gmap_get fs path = None then generateConfig L path fs else (None, fs))
      in case err of
           Some e \<Rightarrow> (Inl e, fs1)
         | None \<Rightarrow>
             (case Option.bind (gmap_get fs1 path) (\<lambda>text. cl_Decode L text c) of
                None \<Rightarrow> (Inl ''could not load config'', fs1)
              | Some c1 \<Rightarrow> (Inr (c1, cf_Version c1 \<noteq> ConfigVersion), fs1)))"

text \<open>A file that is there is only read; otherwise the default file is written and read.\<close>

lemma LoadConfig_present: "gmap_get fs path = Some t \<Longrightarrow> snd (LoadConfig L path c fs) = fs"
  by (auto simp: LoadConfig_def split: option.split)

lemma LoadConfig_absent:
  assumes "gmap_get fs path = None" "LoadConfig L path c fs = (Inr (c1, old), fs1)"
  shows "cl_Decode L (defaultConfig ConfigVersion) c = Some c1 \<and> gmap_get fs1 path = Some (defaultConfig ConfigVersion)"
  using assms by (auto simp: LoadConfig_def generateConfig_def Let_def split: if_split_asm option.split_asm)

text \<open>Loading is idempotent: after a load that succeeds, loading again changes no file and, with a decoder that overwrites the
  settings of the text, gives the same configuration; on the first run that is the one of the default text.\<close>

lemma LoadConfig_again:
  assumes "LoadConfig L path c fs = (Inr (c1, old), fs1)"
    and "\<And>t c c1. cl_Decode L t c = Some c1 \<Longrightarrow> cl_Decode L t c1 = Some c1"
  shows "LoadConfig L path c1 fs1 = (Inr (c1, old), fs1)"
    and "gmap_get fs path = None \<Longrightarrow> cl_Decode L (defaultConfig ConfigVersion) c = Some c1"
proof -
  obtain t where t: "gmap_get fs1 path = Some t" "cl_Decode L t c = Some c1" "old = (cf_Version c1 \<noteq> ConfigVersion)"
    using assms(1) by (auto simp: LoadConfig_def generateConfig_def Let_def bind_eq_Some_conv split: if_split_asm option.split_asm)
  then show "LoadConfig L path c1 fs1 = (Inr (c1, old), fs1)" using assms(2) [OF t(2)] by (simp add: LoadConfig_def)
  show "gmap_get fs path = None \<Longrightarrow> cl_Decode L (defaultConfig ConfigVersion) c = Some c1"
    using LoadConfig_absent [OF _ assms(1)] by blast
qed

end
