(* ===== verification/Startup.thy ===== *)
theory Startup
  imports Config Server Access_List
begin

text \<open>
  The start of the program (\<^verbatim>\<open>main.go\<close>): \<open>configSetup\<close> loads the configuration and sets the globals, \<open>start\<close> builds the access list
  and starts the listeners, the API and, after a second, \<open>fetchBlocklists\<close>. \<^verbatim>\<open>log.Crit\<close> ends the process; its message is then
  the result. The globals are the fields of \<open>program\<close>, and what the system and the libraries decide is in \<open>boot_lib\<close>.
\<close>

record program =
  pg_Config :: config
  pg_rootservers :: "string list"
  pg_root6servers :: "string list"
  pg_fallbackservers :: "string list"
  pg_rootkeys :: "rr list"

record boot_lib =
  bl_Config :: config_lib
  bl_NewRR :: "string \<Rightarrow> rr option option"
  bl_ifaces :: "iface list option"
  bl_LoadX509KeyPair :: "string \<Rightarrow> string \<Rightarrow> bool"
  bl_env :: renv
  bl_debugns :: bool

section \<open>Setting up the configuration\<close>

datatype lvl = LvlCrit | LvlError | LvlWarn | LvlInfo | LvlDebug

definition LvlFromString :: "string \<Rightarrow> lvl option" where
  "LvlFromString s =
     (if s = ''debug'' \<or> s = ''dbug'' then Some LvlDebug else if s = ''info'' then Some LvlInfo else if s = ''warn'' then Some LvlWarn
      else if s = ''error'' \<or> s = ''eror'' then Some LvlError else if s = ''crit'' then Some LvlCrit else None)"

text \<open>\<^verbatim>\<open>NewRR\<close> yields an error, or no record for a text without one; the resolver skips a nil key, so it is left out here.\<close>

fun parse_rootkeys :: "(string \<Rightarrow> rr option option) \<Rightarrow> string list \<Rightarrow> rr list option" where
  "parse_rootkeys newRR [] = Some []"
| "parse_rootkeys newRR (k # ks) =
     (case newRR k of
        None \<Rightarrow> None
      | Some r \<Rightarrow> map_option (\<lambda>rs. (case r of None \<Rightarrow> rs | Some r \<Rightarrow> r # rs)) (parse_rootkeys newRR ks))"

definition millisecond :: int where
  "millisecond = 1000000"

definition test_config :: "config \<Rightarrow> config" where
  "test_config c = c\<lparr>cf_Bind := '':0'', cf_BindTLS := [], cf_BindDOH := [], cf_API := ''127.0.0.1:11111'', cf_LogLevel := ''crit'',
     cf_Timeout := second\<rparr>"

definition clamp_config :: "config \<Rightarrow> config" where
  "clamp_config c =
     (let c1 = (if cf_Timeout c < 250 * millisecond then c\<lparr>cf_Timeout := 250 * millisecond\<rparr> else c);
          c2 = (if cf_ConnectTimeout c1 < 250 * millisecond then c1\<lparr>cf_ConnectTimeout := 250 * millisecond\<rparr> else c1)
      in if cf_CacheSize c2 < 1024 then c2\<lparr>cf_CacheSize := 1024\<rparr> else c2)"

definition configSetup :: "boot_lib \<Rightarrow> bool \<Rightarrow> string \<Rightarrow> program \<Rightarrow> files \<Rightarrow> (string + lvl \<times> program) \<times> files" where
  "configSetup L test path pg fs =
     (let (loaded, fs1) = LoadConfig (bl_Config L) path (pg_Config pg) fs
      in case loaded of
           Inl e \<Rightarrow> (Inl ''Config loading failed'', fs1)
         | Inr (c0, _) \<Rightarrow>
             let c = (if test then test_config c0 else c0)
             in case LvlFromString (cf_LogLevel c) of
                  None \<Rightarrow> (Inl ''Log verbosity level unknown'', fs1)
                | Some l \<Rightarrow>
                    (case (if cf_RootKeys c = [] then Some (pg_rootkeys pg) else parse_rootkeys (bl_NewRR L) (cf_RootKeys c)) of
                       None \<Rightarrow> (Inl ''Root keys invalid'', fs1)
                     | Some keys \<Rightarrow>
                         (Inr (l, \<lparr>pg_Config = clamp_config c,
                            pg_rootservers = (if cf_RootServers c = [] then pg_rootservers pg else cf_RootServers c),
                            pg_root6servers = (if cf_Root6Servers c = [] then pg_root6servers pg else cf_Root6Servers c),
                            pg_fallbackservers = (if cf_FallbackServers c = [] then pg_fallbackservers pg else cf_FallbackServers c),
                            pg_rootkeys = keys\<rparr>), fs1)))"

section \<open>Starting\<close>

text \<open>What the handlers read of the globals.\<close>

definition boot_env :: "boot_lib \<Rightarrow> program \<Rightarrow> string list \<Rightarrow> renv" where
  "boot_env L pg ips = (bl_env L)\<lparr>ev_rootkeys := pg_rootkeys pg, ev_LocalIPs := ips, ev_Maxdepth := cf_Maxdepth (pg_Config pg)\<rparr>"

definition parsed_ip :: "string \<Rightarrow> ip" where
  "parsed_ip s = (case ParseIP s of None \<Rightarrow> [] | Some a \<Rightarrow> a)"

definition boot_conf :: "boot_lib \<Rightarrow> program \<Rightarrow> ranger \<Rightarrow> block_cache \<Rightarrow> hconf" where
  "boot_conf L pg rg blocklist =
     \<lparr>hc_RateLimit = cf_RateLimit (pg_Config pg), hc_Expire = cf_Expire (pg_Config pg),
      hc_Nullroute = parsed_ip (cf_Nullroute (pg_Config pg)), hc_Nullroutev6 = parsed_ip (cf_Nullroutev6 (pg_Config pg)),
      hc_debugns = bl_debugns L, hc_NewRR = (\<lambda>s. Option.bind (bl_NewRR L s) id), hc_BlockList = blocklist,
      hc_AccessList = (\<lambda>client. ranger_Contains rg (ParseIP client) = Ret True)\<rparr>"

definition new_server :: "config \<Rightarrow> server" where
  "new_server c =
     \<lparr>sv_host = cf_Bind c, sv_tlsHost = cf_BindTLS c, sv_dohHost = cf_BindDOH c, sv_tlsCertificate = cf_TLSCertificate c,
      sv_tlsPrivateKey = cf_TLSPrivateKey c, sv_rTimeout = 5 * second, sv_wTimeout = 5 * second\<rparr>"

definition API_Run :: "string \<Rightarrow> string option" where
  "API_Run host = (if host = [] then None else Some host)"

record started =
  sd_ranger :: ranger
  sd_listeners :: "dns_handler listener list"
  sd_api :: "string option"

text \<open>
  The resolver is made by \<^verbatim>\<open>NewHandler\<close> when the server runs. The result is the message of the exit, or what was started, with the state
  of the resolver; the handlers run with the block list as it is when they are called.
\<close>

definition NewHandler :: "boot_lib \<Rightarrow> program \<Rightarrow> string list \<Rightarrow> nat \<Rightarrow> (rerr option, rstate) outcome" where
  "NewHandler L pg ips fuel =
     NewResolver (boot_env L pg ips) fuel (cf_CacheSize (pg_Config pg)) (cf_RateLimit (pg_Config pg)) (cf_Expire (pg_Config pg))
       (pg_rootservers pg) (pg_root6servers pg) (pg_fallbackservers pg)"

definition proto_handler :: "boot_lib \<Rightarrow> program \<Rightarrow> string list \<Rightarrow> nat \<Rightarrow> ranger \<Rightarrow> block_cache \<Rightarrow> string \<Rightarrow> dns_handler" where
  "proto_handler L pg ips fuel rg blocklist proto =
     handle (boot_env L pg ips) (boot_conf L pg rg blocklist) (resolver (boot_env L pg ips) fuel) proto"

definition start :: "boot_lib \<Rightarrow> program \<Rightarrow> nat \<Rightarrow> block_cache \<Rightarrow> (string + started, rstate option) outcome" where
  "start L pg fuel blocklist =
     (case findLocalIPAddresses (bl_ifaces L) of
        None \<Rightarrow> Done (Inl ''Local ip addresses failed'') None
      | Some ips \<Rightarrow>
          (case fill_access_list (cf_AccessList (pg_Config pg)) NewPCTrieRanger of
             None \<Rightarrow> Stuck
           | Some (Panic w) \<Rightarrow> Crash w
           | Some (Ret (Inl e)) \<Rightarrow> Done (Inl e) None
           | Some (Ret (Inr rg)) \<Rightarrow>
               (case NewHandler L pg ips fuel of
                  Stuck \<Rightarrow> Stuck
                | Crash w \<Rightarrow> Crash w
                | Done _ s \<Rightarrow>
                    (case Server_Run (bl_LoadX509KeyPair L) (proto_handler L pg ips fuel rg blocklist ''tcp'')
                            (proto_handler L pg ips fuel rg blocklist ''udp'') (new_server (pg_Config pg)) of
                       Panic w \<Rightarrow> Crash w
                     | Ret (Inl e) \<Rightarrow> Done (Inl e) None
                     | Ret (Inr ls) \<Rightarrow>
                         Done (Inr \<lparr>sd_ranger = rg, sd_listeners = ls, sd_api = API_Run (cf_API (pg_Config pg))\<rparr>) (Some s)))))"

text \<open>\<^verbatim>\<open>main\<close> up to the wait for the signal that ends the process.\<close>

definition sdns_main ::
  "boot_lib \<Rightarrow> string \<Rightarrow> program \<Rightarrow> files \<Rightarrow> nat \<Rightarrow> block_cache \<Rightarrow> (string + program \<times> started, rstate option) outcome \<times> files" where
  "sdns_main L path pg0 fs fuel blocklist =
     (case configSetup L False path pg0 fs of
        (Inl e, fs1) \<Rightarrow> (Done (Inl e) None, fs1)
      | (Inr (_, pg), fs1) \<Rightarrow>
          (case start L pg fuel blocklist of
             Stuck \<Rightarrow> Stuck
           | Crash w \<Rightarrow> Crash w
           | Done (Inl e) s \<Rightarrow> Done (Inl e) s
           | Done (Inr sd) s \<Rightarrow> Done (Inr (pg, sd)) s, fs1))"

text \<open>The goroutine of the resolver: the root servers are primed again at every tick of an hour.\<close>

fun Resolver_run :: "renv \<Rightarrow> resolver_ops \<Rightarrow> nat \<Rightarrow> unit rm" where
  "Resolver_run E R 0 = rret ()"
| "Resolver_run E R (Suc ticks) = rbind (checkPriming E R) (\<lambda>_. Resolver_run E R ticks)"

section \<open>Fetching the block lists\<close>

text \<open>The errors of the two steps are only logged. The files of the directory are walked as they are after the downloads.\<close>

definition fetchBlocklists ::
  "(string \<Rightarrow> string option) \<Rightarrow> (string \<Rightarrow> bool) \<Rightarrow> (string \<Rightarrow> download) \<Rightarrow> bool \<Rightarrow> bool \<Rightarrow> (files \<Rightarrow> walk_entry list) \<Rightarrow>
   config \<Rightarrow> updater \<Rightarrow> files \<Rightarrow> (updater \<times> files) go" where
  "fetchBlocklists url_host creatable web dir_exists mkdir_ok walk c u fs =
     go_bind (updateBlocklists url_host creatable web dir_exists mkdir_ok (cf_BlockListDir c) (cf_Whitelist c) (cf_Blocklist c)
                (cf_BlockLists c) u fs)
       (\<lambda>(ok, u1, fs1). go_bind (readBlocklists (dir_exists \<or> mkdir_ok) (walk fs1) u1 fs1) (\<lambda>(_, u2, fs2). Ret (u2, fs2)))"

end
