(* ===== verification/Startup_Facts.thy ===== *)
theory Startup_Facts
  imports Startup Access_List_Facts Handler_Facts
begin

text \<open>
  What the parts do together once the program has started: the bounds of the configuration, the state of the resolver, who is served,
  and which names are blocked.
\<close>

section \<open>Configuration\<close>

text \<open>C29. Bounds of the configuration: when the setup does not end the process, the timeouts are at least 250 milliseconds and the
  cache has room for at least 1024 entries, each of the three being the loaded value if that is larger; every other setting is the
  loaded one, and the server lists are those of the configuration wherever it has any.\<close>

theorem configSetup_bounds:
  assumes "configSetup L False path pg fs = (Inr (l, pg'), fs')"
  shows "\<exists>c old. LoadConfig (bl_Config L) path (pg_Config pg) fs = (Inr (c, old), fs') \<and>
    pg_Config pg' = c\<lparr>cf_Timeout := max (250 * millisecond) (cf_Timeout c), cf_ConnectTimeout := max (250 * millisecond) (cf_ConnectTimeout c),
      cf_CacheSize := max 1024 (cf_CacheSize c)\<rparr> \<and>
    pg_rootservers pg' = (if cf_RootServers c = [] then pg_rootservers pg else cf_RootServers c) \<and>
    pg_root6servers pg' = (if cf_Root6Servers c = [] then pg_root6servers pg else cf_Root6Servers c) \<and>
    pg_fallbackservers pg' = (if cf_FallbackServers c = [] then pg_fallbackservers pg else cf_FallbackServers c)"
proof -
  have clamp: "clamp_config c = c\<lparr>cf_Timeout := max (250 * millisecond) (cf_Timeout c),
      cf_ConnectTimeout := max (250 * millisecond) (cf_ConnectTimeout c), cf_CacheSize := max 1024 (cf_CacheSize c)\<rparr>" for c :: config
    by (cases c) (simp add: clamp_config_def Let_def max_def)
  obtain x fs1 where ld: "LoadConfig (bl_Config L) path (pg_Config pg) fs = (x, fs1)" by (cases "LoadConfig (bl_Config L) path (pg_Config pg) fs")
  show ?thesis
  proof (cases x)
    case (Inl e)
    with assms ld show ?thesis by (simp add: configSetup_def)
  next
    case (Inr p)
    obtain c old where p: "p = (c, old)" by (cases p)
    let ?keys = "if cf_RootKeys c = [] then Some (pg_rootkeys pg) else parse_rootkeys (bl_NewRR L) (cf_RootKeys c)"
    from assms ld Inr p obtain l' keys where "LvlFromString (cf_LogLevel c) = Some l'" "?keys = Some keys"
      by (cases "LvlFromString (cf_LogLevel c)"; cases ?keys) (simp_all add: configSetup_def)
    with assms ld Inr p have pg': "pg' = \<lparr>pg_Config = clamp_config c,
        pg_rootservers = (if cf_RootServers c = [] then pg_rootservers pg else cf_RootServers c),
        pg_root6servers = (if cf_Root6Servers c = [] then pg_root6servers pg else cf_Root6Servers c),
        pg_fallbackservers = (if cf_FallbackServers c = [] then pg_fallbackservers pg else cf_FallbackServers c), pg_rootkeys = keys\<rparr>" "fs' = fs1"
      by (simp_all add: configSetup_def split del: if_split)
    show ?thesis unfolding pg' by (intro exI [of _ c] exI [of _ old]) (simp add: ld Inr p clamp)
  qed
qed

section \<open>Start\<close>

text \<open>Every entry of the access list parses, and none is an IPv6 network of mapped IPv4 addresses, such as
  \<^verbatim>\<open>::ffff:192.0.2.0/120\<close>: \<^verbatim>\<open>ParseCIDR\<close> accepts those, but the ranger files them with their IPv6 mask under the IPv4 trie.\<close>

definition access_regular :: "config \<Rightarrow> bool" where
  "access_regular c \<longleftrightarrow>
     list_all (\<lambda>a. case ParseCIDR a of None \<Rightarrow> False | Some net \<Rightarrow> snd (snd net) = 32 \<or> To4 (fst net) = None) (cf_AccessList c)"

definition in_access_list :: "config \<Rightarrow> string \<Rightarrow> bool" where
  "in_access_list c client \<longleftrightarrow>
     (case ParseIP client of
        None \<Rightarrow> False
      | Some x \<Rightarrow> list_ex (\<lambda>a. case ParseCIDR a of None \<Rightarrow> False | Some net \<Rightarrow> in_network net x) (cf_AccessList c))"

lemma case_option_ex: "(case y of None \<Rightarrow> False | Some x \<Rightarrow> P x) \<longleftrightarrow> (\<exists>x. y = Some x \<and> P x)"
  by (cases y) auto

lemma access_list_filled:
  assumes "access_regular c"
  shows "\<exists>rg. fill_access_list (cf_AccessList c) NewPCTrieRanger = Some (Ret (Inr rg)) \<and>
    (\<forall>client. ranger_Contains rg (ParseIP client) = Ret (in_access_list c client))"
proof -
  have "\<forall>a \<in> set (cf_AccessList c). \<exists>net. ParseCIDR a = Some net \<and> (snd (snd net) = 32 \<or> To4 (fst net) = None)"
    using assms unfolding access_regular_def list_all_iff case_option_ex .
  from fill_access_list_exact [OF this]
  obtain rg where rg: "fill_access_list (cf_AccessList c) NewPCTrieRanger = Some (Ret (Inr rg))"
      "\<And>client. ranger_Contains rg (ParseIP client) =
         Ret (\<exists>x a net. ParseIP client = Some x \<and> a \<in> set (cf_AccessList c) \<and> ParseCIDR a = Some net \<and> in_network net x)" by blast
  have "(\<exists>x a net. ParseIP client = Some x \<and> a \<in> set (cf_AccessList c) \<and> ParseCIDR a = Some net \<and> in_network net x) \<longleftrightarrow>
      in_access_list c client" for client
    unfolding in_access_list_def list_ex_iff case_option_ex by blast
  with rg show ?thesis by auto
qed

lemma Server_Run_Ret:
  obtains r where "Server_Run load tcp udp srv = Ret r" "\<forall>e. r = Inl e \<longrightarrow> e = ''TLS certificate load failed''"
proof -
  have "\<exists>r. Server_Run load tcp udp srv = Ret r \<and> (\<forall>e. r = Inl e \<longrightarrow> e = ''TLS certificate load failed'')"
    by (simp add: Server_Run_def mux_Handle_def Let_def)
  then show thesis using that by blast
qed

lemma NewHandler_ok:
  assumes "env_ok (boot_env L pg ips)" "pg_rootservers pg \<noteq> []"
  shows "case NewHandler L pg ips n of
      Done e s \<Rightarrow> rinv (shard_part (cf_CacheSize (pg_Config pg))) s
    | Crash w \<Rightarrow> crash_ok w
    | Stuck \<Rightarrow> True"
  using rc.checkPriming_ok [OF assms(1)] rinv_new [OF assms(2)]
  by (fastforce simp: NewHandler_def NewResolver_def vld_def split: outcome.splits)

text \<open>The priming at every hour keeps the invariant.\<close>

lemma Resolver_run_ok: "env_ok E \<Longrightarrow> vldt N (Resolver_run E (resolver E n) ticks) (\<lambda>_. True)"
proof (induction ticks)
  case (Suc ticks)
  show ?case unfolding Resolver_run.simps by (rule vldt_bind [OF rc.checkPriming_ok [OF Suc.prems]]) (rule Suc.IH [OF Suc.prems])
qed auto

text \<open>C24. The program starts in a good state: with root servers, root keys that can be turned into DS records, well-formed replies of
  the servers, and an access list whose entries parse and are no IPv6 networks of mapped IPv4 addresses, \<^verbatim>\<open>start\<close> ends the process
  only when the local addresses cannot be listed or the certificate cannot be loaded, panics only in the five ways of the
  resolver, and otherwise leaves the resolver with its invariant for the configured cache size, a UDP and a TCP listener on
  the configured address, and an access list that decides exactly membership in the configured networks.\<close>

theorem start_safe:
  assumes "\<And>ips. env_ok (boot_env L pg ips)" "pg_rootservers pg \<noteq> []" "access_regular (pg_Config pg)"
  shows "case start L pg n blocklist of
      Done (Inl e) _ \<Rightarrow> e = ''Local ip addresses failed'' \<or> e = ''TLS certificate load failed''
    | Done (Inr sd) s \<Rightarrow>
        (\<exists>s'. s = Some s' \<and> rinv (shard_part (cf_CacheSize (pg_Config pg))) s') \<and>
        (\<forall>client. hc_AccessList (boot_conf L pg (sd_ranger sd) blocklist) client \<longleftrightarrow> in_access_list (pg_Config pg) client) \<and>
        (\<forall>net \<in> {''udp'', ''tcp''}. \<exists>d. Dns_listener d \<in> set (sd_listeners sd) \<and> ds_Net d = net \<and> ds_Addr d = cf_Bind (pg_Config pg))
    | Crash w \<Rightarrow> w \<in> {''index out of range'', nil_err, ''root zone keys empty'', ''root zone DS not verified'', ''root zone keys not verified''}
    | Stuck \<Rightarrow> True"
proof (cases "findLocalIPAddresses (bl_ifaces L)")
  case (Some ips)
  obtain rg where rg: "fill_access_list (cf_AccessList (pg_Config pg)) NewPCTrieRanger = Some (Ret (Inr rg))"
      "\<And>client. ranger_Contains rg (ParseIP client) = Ret (in_access_list (pg_Config pg) client)"
    using access_list_filled [OF assms(3)] by blast
  let ?run = "Server_Run (bl_LoadX509KeyPair L) (proto_handler L pg ips n rg blocklist ''tcp'')
     (proto_handler L pg ips n rg blocklist ''udp'') (new_server (pg_Config pg))"
  obtain r where r: "?run = Ret r" "\<forall>e. r = Inl e \<longrightarrow> e = ''TLS certificate load failed''" by (rule Server_Run_Ret)
  have ls: "\<exists>d. Dns_listener d \<in> set ls \<and> ds_Net d = net \<and> ds_Addr d = cf_Bind (pg_Config pg)"
    if "r = Inr ls" "net \<in> {''udp'', ''tcp''}" for ls net
    using r(1) that by (auto simp: Server_Run_def mux_Handle_def new_server_def Let_def split: if_split_asm)
  have st: "start L pg n blocklist =
      (case NewHandler L pg ips n of
         Stuck \<Rightarrow> Stuck
       | Crash w \<Rightarrow> Crash w
       | Done _ s \<Rightarrow> (case r of
           Inl e \<Rightarrow> Done (Inl e) None
         | Inr ls \<Rightarrow> Done (Inr \<lparr>sd_ranger = rg, sd_listeners = ls, sd_api = API_Run (cf_API (pg_Config pg))\<rparr>) (Some s)))"
    unfolding start_def Some option.case rg(1) go.case sum.case r(1) ..
  have "hc_AccessList (boot_conf L pg rg blocklist) client \<longleftrightarrow> in_access_list (pg_Config pg) client" for client
    by (simp add: boot_conf_def rg(2))
  note access = this
  note new = NewHandler_ok [OF assms(1,2), of ips n]
  show ?thesis
  proof (cases "NewHandler L pg ips n")
    case (Done e s)
    with new have inv: "rinv (shard_part (cf_CacheSize (pg_Config pg))) s" by simp
    show ?thesis
    proof (cases r)
      case (Inl e')
      then show ?thesis unfolding st Done using r(2) by simp
    next
      case (Inr ls')
      show ?thesis unfolding st Done Inr using inv access ls [OF Inr] by simp
    qed
  next
    case (Crash w)
    with new show ?thesis unfolding st by (simp add: crash_ok_def)
  qed (simp add: st)
qed (simp add: start_def)

section \<open>Who is served\<close>

lemma start_listeners:
  assumes "start L pg n blocklist = Done (Inr sd) s"
  obtains ips where
    "fill_access_list (cf_AccessList (pg_Config pg)) NewPCTrieRanger = Some (Ret (Inr (sd_ranger sd)))"
    "Server_Run (bl_LoadX509KeyPair L) (proto_handler L pg ips n (sd_ranger sd) blocklist ''tcp'')
       (proto_handler L pg ips n (sd_ranger sd) blocklist ''udp'') (new_server (pg_Config pg)) = Ret (Inr (sd_listeners sd))"
proof (cases "findLocalIPAddresses (bl_ifaces L)")
  case (Some ips)
  from assms show thesis
    unfolding start_def Some option.case
    by (simp split: option.split_asm go.split_asm sum.split_asm outcome.split_asm) (rule that; auto)
qed (use assms in \<open>simp add: start_def\<close>)

text \<open>C5. Clients outside the configured networks are not served: on every DNS listener of the started program, a question from a
  host that is in no network of the access list of the configuration gets no reply, whatever the state, and nothing is
  sent and nothing changes.\<close>

theorem outside_client_unserved:
  assumes "start L pg n blocklist = Done (Inr sd) s" "access_regular (pg_Config pg)" "Dns_listener d \<in> set (sd_listeners sd)"
    and "\<not> in_access_list (pg_Config pg) host" "m_Question req \<noteq> []"
    and "CHR ''['' \<notin> set host" "CHR '']'' \<notin> set host"
    and "CHR ''['' \<notin> set port" "CHR '']'' \<notin> set port" "CHR '':'' \<notin> set port"
  shows "ServeDNS (ds_Handler d) (Some (JoinHostPort host port)) req s' = Done None s'"
proof -
  obtain ips where fill: "fill_access_list (cf_AccessList (pg_Config pg)) NewPCTrieRanger = Some (Ret (Inr (sd_ranger sd)))"
    and run: "Server_Run (bl_LoadX509KeyPair L) (proto_handler L pg ips n (sd_ranger sd) blocklist ''tcp'')
       (proto_handler L pg ips n (sd_ranger sd) blocklist ''udp'') (new_server (pg_Config pg)) = Ret (Inr (sd_listeners sd))"
    by (rule start_listeners [OF assms(1)])
  have "ranger_Contains (sd_ranger sd) (ParseIP host) = Ret False"
    using access_list_filled [OF assms(2)] fill assms(4) by auto
  then have "\<not> hc_AccessList (boot_conf L pg (sd_ranger sd) blocklist) host" by (simp add: boot_conf_def)
  then have "handle E (boot_conf L pg (sd_ranger sd) blocklist) R proto (Some (JoinHostPort host port)) req s' = Done None s'" for E R proto
    using SplitHostPort_Join_host [OF assms(6-10)] by (simp add: handle_def remoteAddr_def rret_def)
  with ServeDNS_listener [OF run [unfolded proto_handler_def] assms(3)] assms(5) show ?thesis by simp
qed

section \<open>Block lists\<close>

lemma fetchBlocklist_block: "fetchBlocklist url_host creatable web path uris u fs = Ret (u', fs') \<Longrightarrow> up_block u' = up_block u"
  by (induction uris arbitrary: u fs) (auto simp: Let_def split: option.split_asm)

lemma fetchBlocklist_bad:
  "uri \<in> set uris \<Longrightarrow> url_host uri = None \<Longrightarrow> fetchBlocklist url_host creatable web path uris u fs = Panic ''nil pointer dereference''"
  by (induction uris arbitrary: u fs) (auto simp: Let_def split: option.split)

lemma parseHostFile_mono:
  assumes "parseHostFile file u = Ret (ok, u')" "BlockCache_Exists k (up_block u)"
  shows "BlockCache_Exists k (up_block u')"
proof -
  obtain lines err where sl: "scan_lines file = (lines, err)" by fastforce
  obtain u1 where "parse_lines lines u = Ret u1" "BlockCache_Exists k (up_block u1)"
    using parse_lines_Exists [of lines u] assms(2) by auto
  with assms(1) sl show ?thesis by (simp add: parseHostFile_def)
qed

lemma read_walk_mono:
  "read_walk es u fs = Ret (ok, u', fs') \<Longrightarrow> BlockCache_Exists k (up_block u) \<Longrightarrow> BlockCache_Exists k (up_block u')"
proof (induction es u fs rule: read_walk.induct)
  case (4 p es u fs)
  show ?case
  proof (cases "gmap_get fs p")
    case (Some content)
    show ?thesis
    proof (cases "parseHostFile content u")
      case (Ret r)
      obtain ok1 u1 where r: "r = (ok1, u1)" by (cases r)
      have "BlockCache_Exists k (up_block u1)" using parseHostFile_mono Ret r 4(3) by blast
      with 4 Some Ret r show ?thesis by (cases ok1) auto
    qed (use 4(2) Some in simp)
  qed (use 4 in simp)
qed auto

lemma fold_BlockCache_Set: "BlockCache_Exists k (fold (\<lambda>e. BlockCache_Set (Fqdn e)) es c) \<longleftrightarrow> (\<exists>e \<in> set es. to_lower k = to_lower (Fqdn e)) \<or> BlockCache_Exists k c"
  by (induction es arbitrary: c) auto

text \<open>C30. Configured names are blocked: once the block lists are fetched, with a directory that exists or can be made, every name of
  the configured block list is blocked, in any case and whether or not it is on the whitelist, and no name that was blocked
  before has been dropped, whatever the downloads and the files contained.\<close>

theorem fetchBlocklists_blocks:
  assumes "fetchBlocklists url_host creatable web dir_exists mkdir_ok walk c u fs = Ret (u', fs')" "dir_exists \<or> mkdir_ok"
    and "BlockCache_Exists k (up_block u) \<or> (\<exists>e \<in> set (cf_Blocklist c). to_lower k = to_lower (Fqdn e))"
  shows "BlockCache_Exists k (up_block u')"
proof -
  let ?u1 = "u\<lparr>up_white := fold (\<lambda>e. gmap_set (Fqdn e) True) (cf_Whitelist c) (up_white u),
    up_block := fold (\<lambda>e. BlockCache_Set (Fqdn e)) (cf_Blocklist c) (up_block u)\<rparr>"
  obtain u2 fs2 where f: "fetchBlocklist url_host creatable web (cf_BlockListDir c) (cf_BlockLists c) ?u1 fs = Ret (u2, fs2)"
    using assms(1,2)
    by (cases "fetchBlocklist url_host creatable web (cf_BlockListDir c) (cf_BlockLists c) ?u1 fs")
      (fastforce simp: fetchBlocklists_def updateBlocklists_def Let_def)+
  then have "fetchBlocklists url_host creatable web dir_exists mkdir_ok walk c u fs =
      go_bind (read_walk (walk fs2) u2 fs2) (\<lambda>(_, u2, fs2). Ret (u2, fs2))"
    using assms(2) by (auto simp: fetchBlocklists_def updateBlocklists_def readBlocklists_def Let_def)
  with assms(1) obtain ok where "read_walk (walk fs2) u2 fs2 = Ret (ok, u', fs')"
    by (cases "read_walk (walk fs2) u2 fs2") auto
  moreover have "BlockCache_Exists k (up_block u2)"
    using fetchBlocklist_block [OF f] assms(3) by (auto simp: fold_BlockCache_Set)
  ultimately show ?thesis by (rule read_walk_mono)
qed

text \<open>One bad address in the configuration ends the process: when a block list has an address that does not parse, the update
  panics with a nil pointer, in a goroutine of its own, whatever the other lists.\<close>

theorem bad_blocklist_url_panics:
  assumes "uri \<in> set (cf_BlockLists c)" "url_host uri = None" "dir_exists \<or> mkdir_ok"
  shows "fetchBlocklists url_host creatable web dir_exists mkdir_ok walk c u fs = Panic ''nil pointer dereference''"
  using assms by (auto simp: fetchBlocklists_def updateBlocklists_def Let_def fetchBlocklist_bad)

section \<open>Witnesses\<close>

text \<open>A configuration with one network on its access list and a bad block list address.\<close>

definition demo_config :: config where
  "demo_config =
     \<lparr>cf_Version = ''0.2.1'', cf_BlockLists = [''bad''], cf_BlockListDir = ''d'', cf_RootServers = [''192.0.2.53:53''], cf_Root6Servers = [],
      cf_RootKeys = [], cf_FallbackServers = [], cf_AccessList = [''192.0.2.0/24''], cf_Log = [], cf_LogLevel = ''info'', cf_Bind = '':53'',
      cf_BindTLS = [], cf_BindDOH = [], cf_TLSCertificate = [], cf_TLSPrivateKey = [], cf_API = [], cf_Nullroute = ''0.0.0.0'',
      cf_Nullroutev6 = ''::'', cf_OutboundIPs = [], cf_Timeout = 1, cf_ConnectTimeout = 2 * second, cf_Expire = 600, cf_CacheSize = 1024,
      cf_Maxdepth = 30, cf_RateLimit = 0, cf_Blocklist = [''Ads.x''], cf_Whitelist = [''ads.x'']\<rparr>"

definition demo_program :: program where
  "demo_program = \<lparr>pg_Config = demo_config, pg_rootservers = [''192.0.2.53:53''], pg_root6servers = [], pg_fallbackservers = [],
     pg_rootkeys = [RR (demo_header TypeDNSKEY) (DNSKEY_rd demo_dnskey)]\<rparr>"

definition demo_boot :: boot_lib where
  "demo_boot =
     \<lparr>bl_Config = \<lparr>cl_Create = (\<lambda>_. True), cl_Copy = (\<lambda>_. True), cl_Decode = (\<lambda>_ _. Some demo_config)\<rparr>,
      bl_NewRR = (\<lambda>s. Some (demo_NewRR s)), bl_ifaces = Some [],
      bl_LoadX509KeyPair = (\<lambda>_ _. False), bl_env = demo_env (demo_reply [demo_a]), bl_debugns = False\<rparr>"

lemma demo_access: "access_regular demo_config" "\<not> in_access_list demo_config ''192.0.3.1''"
  using demo_net demo_in_network by (simp_all add: access_regular_def in_access_list_def demo_config_def)

lemma demo_boot_env: "boot_env demo_boot demo_program [] = demo_env (demo_reply [demo_a])"
  by (simp add: boot_env_def demo_boot_def demo_program_def demo_config_def demo_env_def)

lemma demo_boot_env_ok: "env_ok (boot_env demo_boot demo_program ips)"
proof -
  have "boot_env demo_boot demo_program ips = (demo_env (demo_reply [demo_a]))\<lparr>ev_LocalIPs := ips\<rparr>"
    by (simp add: boot_env_def demo_boot_def demo_program_def demo_config_def demo_env_def)
  with demo_reply_ok [of "[demo_a]"] demo_a_wf show ?thesis by (simp add: env_ok_def)
qed

lemma demo_start: "\<exists>sd s d. start demo_boot demo_program 1 NewBlockCache = Done (Inr sd) (Some s) \<and> Dns_listener d \<in> set (sd_listeners sd)"
proof -
  obtain e s where new: "NewHandler demo_boot demo_program [] 1 = Done e s"
    using demo_NewResolver unfolding NewHandler_def demo_boot_env by (auto simp: demo_program_def demo_config_def)
  have c: "pg_Config demo_program = demo_config" "findLocalIPAddresses (bl_ifaces demo_boot) = Some []"
    by (simp_all add: demo_program_def demo_boot_def findLocalIPAddresses_def)
  obtain rg where rg: "fill_access_list (cf_AccessList demo_config) NewPCTrieRanger = Some (Ret (Inr rg))"
    using access_list_filled [OF demo_access(1)] by blast
  have "\<exists>d ls. Server_Run load tcp udp (new_server demo_config) = Ret (Inr (Dns_listener d # ls))" for load and tcp udp :: dns_handler
    by (simp add: Server_Run_def mux_Handle_def new_server_def demo_config_def)
  then obtain d ls where "Server_Run (bl_LoadX509KeyPair demo_boot) (proto_handler demo_boot demo_program [] 1 rg NewBlockCache ''tcp'')
      (proto_handler demo_boot demo_program [] 1 rg NewBlockCache ''udp'') (new_server demo_config) = Ret (Inr (Dns_listener d # ls))"
    by blast
  then have "start demo_boot demo_program 1 NewBlockCache =
      Done (Inr \<lparr>sd_ranger = rg, sd_listeners = Dns_listener d # ls, sd_api = API_Run (cf_API demo_config)\<rparr>) (Some s)"
    unfolding start_def c option.case rg go.case sum.case new outcome.case by simp
  moreover have "Dns_listener d \<in> set (sd_listeners \<lparr>sd_ranger = rg, sd_listeners = Dns_listener d # ls, sd_api = API_Run (cf_API demo_config)\<rparr>)" by simp
  ultimately show ?thesis by blast
qed

theorem configSetup_bounds_witness:
  "\<exists>l pg' fs'. configSetup demo_boot False ''sdns.toml'' demo_program [] = (Inr (l, pg'), fs') \<and> cf_Timeout (pg_Config pg') = 250 * millisecond \<and>
     cf_CacheSize (pg_Config pg') = 1024"
proof -
  obtain l pg' fs' where run: "configSetup demo_boot False ''sdns.toml'' demo_program [] = (Inr (l, pg'), fs')"
    by (simp add: configSetup_def LoadConfig_def generateConfig_def LvlFromString_def demo_boot_def demo_config_def)
  from configSetup_bounds [OF run] obtain c old where c: "LoadConfig (bl_Config demo_boot) ''sdns.toml'' (pg_Config demo_program) [] = (Inr (c, old), fs')"
      "pg_Config pg' = c\<lparr>cf_Timeout := max (250 * millisecond) (cf_Timeout c), cf_ConnectTimeout := max (250 * millisecond) (cf_ConnectTimeout c),
        cf_CacheSize := max 1024 (cf_CacheSize c)\<rparr>" by blast
  have "c = demo_config" using c(1) by (simp add: LoadConfig_def generateConfig_def demo_boot_def)
  with c(2) run show ?thesis by (simp add: demo_config_def millisecond_def)
qed

theorem start_safe_witness:
  "\<exists>sd s. start demo_boot demo_program 1 NewBlockCache = Done (Inr sd) (Some s) \<and> rinv (shard_part 1024) s \<and>
     \<not> hc_AccessList (boot_conf demo_boot demo_program (sd_ranger sd) NewBlockCache) ''192.0.3.1''"
proof -
  have c: "pg_Config demo_program = demo_config" "pg_rootservers demo_program \<noteq> []" "cf_CacheSize demo_config = 1024"
    by (simp_all add: demo_program_def demo_config_def)
  obtain sd s where run: "start demo_boot demo_program 1 NewBlockCache = Done (Inr sd) (Some s)" using demo_start by blast
  from start_safe [OF demo_boot_env_ok c(2), where n = 1 and blocklist = NewBlockCache] demo_access run show ?thesis by (simp add: c)
qed

theorem outside_client_unserved_witness:
  "\<exists>sd s d. start demo_boot demo_program 1 NewBlockCache = Done (Inr sd) (Some s) \<and> Dns_listener d \<in> set (sd_listeners sd) \<and>
     ServeDNS (ds_Handler d) (Some (JoinHostPort ''192.0.3.1'' ''99'')) (demo_req TypeA False) s = Done None s"
proof -
  have c: "pg_Config demo_program = demo_config" by (simp add: demo_program_def)
  obtain sd s d where run: "start demo_boot demo_program 1 NewBlockCache = Done (Inr sd) (Some s)" "Dns_listener d \<in> set (sd_listeners sd)"
    using demo_start by blast
  have "m_Question (demo_req TypeA False) \<noteq> []" by (simp add: demo_req_def)
  with outside_client_unserved [OF run(1) _ run(2), of "''192.0.3.1''" "demo_req TypeA False" "''99''" s] demo_access run
  show ?thesis by (auto simp: c)
qed

definition demo_updater :: updater where
  "demo_updater = \<lparr>up_block = NewBlockCache, up_white = [], up_seen = []\<rparr>"

theorem fetchBlocklists_blocks_witness:
  "\<exists>u' fs'. fetchBlocklists (\<lambda>_. Some ''h'') (\<lambda>_. True) (\<lambda>_. GetFails) True True (\<lambda>_. []) demo_config demo_updater [] = Ret (u', fs') \<and>
     BlockCache_Exists ''ADS.x.'' (up_block u')"
proof -
  obtain u' fs' where run: "fetchBlocklists (\<lambda>_. Some ''h'') (\<lambda>_. True) (\<lambda>_. GetFails) True True (\<lambda>_. []) demo_config demo_updater [] = Ret (u', fs')"
    by (simp add: fetchBlocklists_def updateBlocklists_def readBlocklists_def demo_config_def demo_updater_def)
  have "to_lower ''ADS.x.'' = to_lower (Fqdn ''Ads.x'')" by code_simp
  with fetchBlocklists_blocks [OF run, of "''ADS.x.''"] run show ?thesis by (auto simp: demo_config_def)
qed

theorem bad_blocklist_url_panics_witness:
  "fetchBlocklists (\<lambda>_. None) (\<lambda>_. True) (\<lambda>_. GetFails) True True (\<lambda>_. []) demo_config demo_updater [] = Panic ''nil pointer dereference''"
  by (rule bad_blocklist_url_panics [of "''bad''"]) (simp_all add: demo_config_def)

end
