(* ===== verification/Wire_Names.thy ===== *)
theory Wire_Names
  imports Dns_Labels
begin

text \<open>
  Domain names in messages (the vendored \<^verbatim>\<open>miekg/dns\<close>, \<^verbatim>\<open>msg.go\<close>): \<open>UnpackDomainName\<close>, which follows compression
  pointers and writes the name with its special bytes escaped, and \<open>packDomainName\<close>, which removes the escapes in
  place and may refer to a name that was packed before.

  An operation of the library returns a value, the offset after it and an error; all three are kept, since some
  callers look at the offset of a failed read. Buffers are byte lists, and \<open>packDomainName\<close> is the case of a buffer
  that is not nil.

  The lemmas relate both to the labels of a name: what unpacking accepts is the text of a sequence of labels of 1 to
  63 bytes whose encoding has at most 255, packing such a text writes the encoding, and unpacking reads the text back.
\<close>

section \<open>Unpacking\<close>

datatype wire_err =
    ErrBuf | ErrRdata | ErrLongDomain | ErrFqdn | ErrTruncated | ErrShortRead | ErrId | ErrSecret | Err string

type_synonym 'a unpacked = "'a \<times> nat \<times> wire_err option"

definition char_of_byte :: "u8 \<Rightarrow> char" where
  "char_of_byte b = char_of (unat b)"

text \<open>The text of a byte of a label, and by how much the limit on the length of the text grows for it.\<close>

definition special_byte :: "u8 \<Rightarrow> bool" where
  "special_byte b \<longleftrightarrow> b \<in> {0x2E, 0x28, 0x29, 0x3B, 0x20, 0x40, 0x22, 0x5C}"

definition digit_byte :: "nat \<Rightarrow> char" where
  "digit_byte n = char_of (48 + n)"

definition escape_byte :: "u8 \<Rightarrow> string" where
  "escape_byte b =
     (if special_byte b then [CHR 0x5C, char_of_byte b]
      else if b < 32 \<or> b \<ge> 127
      then [CHR 0x5C, digit_byte (unat b div 100), digit_byte (unat b div 10 mod 10), digit_byte (unat b mod 10)]
      else [char_of_byte b])"

definition escape_growth :: "u8 \<Rightarrow> nat" where
  "escape_growth b = (if special_byte b then 1 else if b < 32 \<or> b \<ge> 127 then 3 else 0)"

definition escape_label :: "u8 list \<Rightarrow> string" where
  "escape_label l = concat (map escape_byte l) @ ''.''"

definition name_end :: "u8 list \<Rightarrow> nat \<Rightarrow> string \<Rightarrow> nat \<Rightarrow> nat \<Rightarrow> nat \<Rightarrow> string unpacked" where
  "name_end msg off s off1 maxLen ptr =
     (let off1' = (if ptr = 0 then off else off1)
      in if s = [] then (''.'', off1', None)
         else if length s \<ge> maxLen then (s, length msg, Some ErrLongDomain)
         else (s, off1', None))"

function name_loop :: "u8 list \<Rightarrow> nat \<Rightarrow> string \<Rightarrow> nat \<Rightarrow> nat \<Rightarrow> nat \<Rightarrow> string unpacked" where
  "name_loop msg off s off1 maxLen ptr =
     (if off \<ge> length msg then ([], length msg, Some ErrBuf)
      else let c = msg ! off; off' = off + 1
           in if c AND 0xC0 = 0
              then if c = 0 then name_end msg off' s off1 maxLen ptr
                   else if off' + unat c > length msg then ([], length msg, Some ErrBuf)
                   else let label = slice msg off' (off' + unat c)
                        in name_loop msg (off' + unat c) (s @ escape_label label) off1
                             (maxLen + sum_list (map escape_growth label)) ptr
              else if c AND 0xC0 = 0xC0
              then if off' \<ge> length msg then ([], length msg, Some ErrBuf)
                   else let c1 = msg ! off'; off'' = off' + 1; off1' = (if ptr = 0 then off'' else off1); ptr' = ptr + 1
                        in if ptr' > 10 then ([], length msg, Some (Err ''too many compression pointers''))
                           else name_loop msg (unat (push_bit 8 (ucast (c XOR 0xC0)) OR ucast c1 :: u64)) s off1' maxLen ptr'
              else ([], length msg, Some ErrRdata))"
  by pat_completeness auto

termination
proof (relation "measures [\<lambda>(msg, off, s, off1, maxLen, ptr). 11 - ptr, \<lambda>(msg, off, s, off1, maxLen, ptr). length msg - off]",
    goal_cases)
  case (2 msg off s off1 maxLen ptr)
  then show ?case by (auto simp: unat_gt_0)
qed auto

declare name_loop.simps [simp del]

definition UnpackDomainName :: "u8 list \<Rightarrow> nat \<Rightarrow> string unpacked" where
  "UnpackDomainName msg off = name_loop msg off [] 0 255 0"

section \<open>Packing\<close>

text \<open>\<open>put\<close> writes bytes at an offset of a buffer that has room for them.\<close>

definition put :: "u8 list \<Rightarrow> nat \<Rightarrow> u8 list \<Rightarrow> u8 list" where
  "put buf off bs = take off buf @ bs @ drop (off + length bs) buf"

text \<open>The variables of the loop of \<^verbatim>\<open>packDomainName\<close>; the compression map is \<open>None\<close> when it is nil, and the pointer comes with
  the offset from where it points.\<close>

record pack_state =
  ps_begin :: nat
  ps_off :: nat
  ps_msg :: "u8 list"
  ps_compression :: "(u8 list, nat) gmap option"
  ps_roBs :: "u8 list"
  ps_bsFresh :: bool
  ps_escapedDot :: bool
  ps_labels :: nat
  ps_pointer :: "(nat \<times> nat) option"

text \<open>Removing a backslash at \<open>i\<close> moves the rest of the name down by one byte and leaves the last byte where it was; the digits of
  \<^verbatim>\<open>\DDD\<close> become one byte, with the arithmetic of bytes.\<close>

definition isDigit :: "u8 \<Rightarrow> bool" where
  "isDigit b \<longleftrightarrow> 0x30 \<le> b \<and> b \<le> 0x39"

definition dddToByte :: "u8 list \<Rightarrow> u8" where
  "dddToByte s = (s ! 0 - 0x30) * 100 + (s ! 1 - 0x30) * 10 + (s ! 2 - 0x30)"

definition drop_backslash :: "nat \<Rightarrow> nat \<Rightarrow> u8 list \<Rightarrow> u8 list" where
  "drop_backslash i ls bs = take i bs @ slice bs (i + 1) ls @ drop (ls - 1) bs"

definition read_ddd :: "nat \<Rightarrow> nat \<Rightarrow> u8 list \<Rightarrow> u8 list" where
  "read_ddd i ls bs = take i bs @ [dddToByte (drop i bs)] @ slice bs (i + 3) ls @ drop (ls - 2) bs"

definition unescape :: "nat \<Rightarrow> nat \<Rightarrow> u8 list \<Rightarrow> nat \<times> u8 list" where
  "unescape i ls bs =
     (let bs1 = drop_backslash i ls bs; ls1 = ls - 1
      in if i + 2 < ls1 \<and> isDigit (bs1 ! i) \<and> isDigit (bs1 ! (i + 1)) \<and> isDigit (bs1 ! (i + 2))
         then (ls1 - 2, read_ddd i ls1 bs1) else (ls1, bs1))"

text \<open>A dot at \<open>i\<close> ends a label; the flag of the result says that the rest of the name is a pointer.\<close>

abbreviation (input) maxCompressionOffset :: nat where "maxCompressionOffset \<equiv> 16384"

definition pack_dot :: "bool \<Rightarrow> nat \<Rightarrow> u8 list \<Rightarrow> pack_state \<Rightarrow> wire_err + pack_state \<times> bool" where
  "pack_dot compress i bs st =
     (let begin = ps_begin st; offset = ps_off st
      in if i > 0 \<and> bs ! (i - 1) = 0x2E \<and> \<not> ps_escapedDot st then Inl ErrRdata
         else if i - begin \<ge> 64 then Inl ErrRdata
         else if offset + 1 + (i - begin) > length (ps_msg st) then Inl ErrBuf
         else let st1 = st\<lparr>ps_msg := put (ps_msg st) offset (of_nat (i - begin) # slice bs begin i), ps_off := offset + 1 + (i - begin)\<rparr>;
                  st2 = (if compress \<and> \<not> ps_bsFresh st1 then st1\<lparr>ps_roBs := bs, ps_bsFresh := True\<rparr> else st1);
                  st3 = st2\<lparr>ps_labels := ps_labels st2 + 1, ps_begin := i + 1\<rparr>;
                  name = drop begin (ps_roBs st2)
              in case ps_compression st2 of
                   None \<Rightarrow> Inr (st3, False)
                 | Some m \<Rightarrow>
                     if name = [0x2E] then Inr (st3, False)
                     else (case gmap_get m name of
                             None \<Rightarrow> Inr (if offset < maxCompressionOffset then st3\<lparr>ps_compression := Some (gmap_set name offset m)\<rparr> else st3, False)
                           | Some p \<Rightarrow>
                               if ps_pointer st2 = None \<and> compress then Inr (st2\<lparr>ps_pointer := Some (p, offset)\<rparr>, True)
                               else Inr (st3, False)))"

lemma unescape_shrinks: "fst (unescape i ls bs) \<le> ls"
  by (simp add: unescape_def Let_def)

function pack_loop :: "bool \<Rightarrow> nat \<Rightarrow> nat \<Rightarrow> u8 list \<Rightarrow> pack_state \<Rightarrow> wire_err + u8 list \<times> pack_state" where
  "pack_loop compress i ls bs st =
     (if i \<ge> ls then Inr (bs, st)
      else if bs ! i = 0x5C
      then case unescape i ls bs of (ls', bs') \<Rightarrow>
             if ps_off st + 1 > length (ps_msg st) then Inl ErrBuf
             else pack_loop compress (i + 1) ls' bs' (st\<lparr>ps_escapedDot := (bs' ! i = 0x2E), ps_bsFresh := False\<rparr>)
      else if bs ! i = 0x2E
      then case pack_dot compress i bs st of
             Inl e \<Rightarrow> Inl e
           | Inr (st', stop) \<Rightarrow>
               if stop then Inr (bs, st') else pack_loop compress (i + 1) ls bs (st'\<lparr>ps_escapedDot := False\<rparr>)
      else pack_loop compress (i + 1) ls bs (st\<lparr>ps_escapedDot := False\<rparr>))"
  by pat_completeness auto

termination
proof (relation "measure (\<lambda>(compress, i, ls, bs, st). ls - i)", goal_cases)
  case (2 compress i ls bs st ls' bs')
  then show ?case using unescape_shrinks [of i ls bs] by (cases "unescape i ls bs") simp
qed auto

declare pack_loop.simps [simp del]

text \<open>The result is the offset, the number of labels, the buffer and the compression map.\<close>

definition packDomainName ::
  "string \<Rightarrow> u8 list \<Rightarrow> nat \<Rightarrow> (u8 list, nat) gmap option \<Rightarrow> bool \<Rightarrow>
     (wire_err + nat \<times> nat \<times> u8 list \<times> (u8 list, nat) gmap option) go" where
  "packDomainName s msg off compression compress =
     (if s = [] then Ret (Inr (off, 0, msg, compression))
      else if last s \<noteq> CHR ''.'' then Ret (Inl ErrFqdn)
      else let bs = map byte_of s
           in case pack_loop compress 0 (length s) bs
                  \<lparr>ps_begin = 0, ps_off = off, ps_msg = msg, ps_compression = compression, ps_roBs = bs, ps_bsFresh = True,
                   ps_escapedDot = False, ps_labels = 0, ps_pointer = None\<rparr> of
                Inl e \<Rightarrow> Ret (Inl e)
              | Inr (bs', st) \<Rightarrow>
                  if length bs' = 1 \<and> bs' ! 0 = 0x2E
                  then Ret (Inr (ps_off st, ps_labels st, ps_msg st, ps_compression st))
                  else case ps_pointer st of
                         Some (p, nameoffset) \<Rightarrow>
                           if nameoffset + 2 > length (ps_msg st) then Panic ''index out of range''
                           else let w = word_of_nat p XOR (0xC000 :: u16);
                                    cleared = put (ps_msg st) nameoffset (replicate (ps_off st - nameoffset) 0)
                                in Ret (Inr (nameoffset + 2, ps_labels st,
                                     put cleared nameoffset [ucast (drop_bit 8 w), ucast w], ps_compression st))
                       | None \<Rightarrow>
                           Ret (Inr (ps_off st + 1, ps_labels st,
                             if ps_off st < length (ps_msg st) then (ps_msg st)[ps_off st := 0] else ps_msg st, ps_compression st)))"

definition PackDomainName ::
  "string \<Rightarrow> u8 list \<Rightarrow> nat \<Rightarrow> (u8 list, nat) gmap option \<Rightarrow> bool \<Rightarrow>
     (wire_err + nat \<times> u8 list \<times> (u8 list, nat) gmap option) go" where
  "PackDomainName s msg off compression compress =
     go_bind (packDomainName s msg off compression compress)
       (\<lambda>r. Ret (case r of Inl e \<Rightarrow> Inl e | Inr (off1, _, msg', c) \<Rightarrow> Inr (off1, msg', c)))"

section \<open>Labels\<close>

text \<open>The labels of a name, its encoding without compression, and its text.\<close>

definition name_wire :: "u8 list list \<Rightarrow> u8 list" where
  "name_wire ls = concat (map (\<lambda>l. of_nat (length l) # l) ls) @ [0]"

definition name_text :: "u8 list list \<Rightarrow> string" where
  "name_text ls = (if ls = [] then ''.'' else concat (map escape_label ls))"

definition labels_ok :: "u8 list list \<Rightarrow> bool" where
  "labels_ok ls \<longleftrightarrow> (\<forall>l \<in> set ls. 0 < length l \<and> length l < 64) \<and> length (name_wire ls) \<le> 255"

lemma length_escape_byte: "length (escape_byte b) = 1 + escape_growth b"
  by (simp add: escape_byte_def escape_growth_def)

lemma length_escape_label: "length (escape_label l) = Suc (length l) + sum_list (map escape_growth l)"
  by (induction l) (simp_all add: escape_label_def length_escape_byte)

lemma escape_label_ne [simp]: "escape_label l \<noteq> []" "concat (map escape_label ls) = [] \<longleftrightarrow> ls = []"
  by (simp add: escape_label_def) (cases ls; simp add: escape_label_def)

lemma length_name_wire: "length (name_wire ls) = Suc (\<Sum>l\<leftarrow>ls. Suc (length l))"
  by (induction ls) (simp_all add: name_wire_def)

lemma unat_byte_less: "unat (b :: u8) < 256"
proof -
  have "unat b < 2 ^ LENGTH(8)" by (rule unsigned_less)
  then show ?thesis by simp
qed

lemma top_bits: "unat (c AND 0xC0) = 64 * (unat (c :: u8) div 64)"
proof -
  have "c AND 0xC0 = push_bit 6 (drop_bit 6 c)"
  proof (rule bit_word_eqI)
    fix n assume "n < LENGTH(8)"
    then have "n \<in> {0, 1, 2, 3, 4, 5, 6, 7}" by auto
    then show "bit (c AND 0xC0) n = bit (push_bit 6 (drop_bit 6 c)) n" by (auto simp: bit_simps)
  qed
  then show ?thesis
    using unat_byte_less [of c] by (simp add: push_bit_eq_mult drop_bit_eq_div unat_word_ariths unat_div)
qed

lemma top_bits_0: "c AND 0xC0 = 0 \<longleftrightarrow> unat (c :: u8) < 64"
  using top_bits [of c] by (simp add: unat_eq_0 [symmetric] div_eq_0_iff del: unat_eq_0)

definition labels_len :: "u8 list list \<Rightarrow> nat" where
  "labels_len ls = (\<Sum>l\<leftarrow>ls. Suc (length l))"

abbreviation label_ok :: "u8 list \<Rightarrow> bool" where
  "label_ok l \<equiv> 0 < length l \<and> length l < 64"

text \<open>The text of a name is as long as its labels with their dots and the growth of the limit together.\<close>

lemma length_name_text:
  "length (concat (map escape_label ls)) = labels_len ls + (\<Sum>l\<leftarrow>ls. sum_list (map escape_growth l))"
  by (induction ls) (simp_all add: labels_len_def length_escape_label)

lemma labels_ok_iff: "labels_ok ls \<longleftrightarrow> list_all label_ok ls \<and> labels_len ls < 255"
  by (auto simp: labels_ok_def length_name_wire labels_len_def list_all_iff)

text \<open>What the loop accepts, from a state in which the labels \<open>done\<close> have been read.\<close>

lemma name_loop_sound:
  assumes "name_loop msg off s off1 maxLen ptr = (t, o', None)"
    and "s = concat (map escape_label done)" "list_all label_ok done"
    and "maxLen = 255 + (\<Sum>l\<leftarrow>done. sum_list (map escape_growth l))"
  shows "(\<exists>ls. labels_ok (done @ ls) \<and> t = name_text (done @ ls)) \<and>
    (if ptr = 0 then off < o' \<and> (off1 \<le> length msg \<longrightarrow> o' \<le> length msg) else o' = off1)"
  using assms
proof (induction msg off s off1 maxLen ptr arbitrary: "done" rule: name_loop.induct)
  case (1 msg off s off1 maxLen ptr)
  let ?c = "msg ! off"
  have lt: "off < length msg" using 1(3) by (subst (asm) name_loop.simps) (auto split: if_split_asm)
  consider (stop) "?c = 0" | (label) "unat ?c < 64" "?c \<noteq> 0" | (ptr) "\<not> unat ?c < 64" by fastforce
  then show ?case
  proof cases
    case stop
    have "name_end msg (off + 1) s off1 maxLen ptr = (t, o', None)"
      using 1(3) lt stop by (subst (asm) name_loop.simps) (simp add: Let_def)
    then have t: "t = name_text done" and len: "done \<noteq> [] \<longrightarrow> length s < maxLen" and o': "o' = (if ptr = 0 then off + 1 else off1)"
      using 1(4) by (auto simp: name_end_def name_text_def Let_def split: if_split_asm)
    have "labels_ok done"
      using len 1(4-6) by (cases "done = []") (auto simp: labels_ok_iff length_name_text labels_len_def)
    then show ?thesis using t o' lt by (auto intro!: exI [of _ "[]"])
  next
    case label
    let ?l = "slice msg (off + 1) (off + 1 + unat ?c)"
    have room: "off + 1 + unat ?c \<le> length msg"
      using 1(3) lt label by (subst (asm) name_loop.simps) (auto simp: Let_def top_bits_0 split: if_split_asm)
    have l: "length ?l = unat ?c" using room by (simp add: slice_def)
    have lok: "label_ok ?l" using l label by (simp add: unat_gt_0)
    have "name_loop msg (off + 1 + unat ?c) (s @ escape_label ?l) off1 (maxLen + sum_list (map escape_growth ?l)) ptr = (t, o', None)"
      using 1(3) lt label room by (subst (asm) name_loop.simps) (simp add: Let_def top_bits_0)
    from 1(1) [OF _ refl refl _ _ _ refl this, of "done @ [?l]"] lt label room 1(4-6) lok
    have "(\<exists>ls. labels_ok ((done @ [?l]) @ ls) \<and> t = name_text ((done @ [?l]) @ ls)) \<and>
      (if ptr = 0 then off + 1 + unat ?c < o' \<and> (off1 \<le> length msg \<longrightarrow> o' \<le> length msg) else o' = off1)"
      by (simp add: top_bits_0 split: if_splits)
    then show ?thesis by (auto split: if_splits)
  next
    case ptr: ptr
    let ?off1 = "if ptr = 0 then off + 1 + 1 else off1"
    let ?next = "unat (push_bit 8 (ucast (?c XOR 0xC0)) OR ucast (msg ! (off + 1)) :: u64)"
    have c: "?c AND 0xC0 = 0xC0" "off + 1 < length msg" "\<not> ptr + 1 > 10"
      and r: "name_loop msg ?next s ?off1 maxLen (ptr + 1) = (t, o', None)"
      using 1(3) lt ptr by (subst (asm) name_loop.simps, auto simp: Let_def top_bits_0 split: if_split_asm)+
    from 1(2) [OF _ refl refl _ c(1) _ refl refl refl refl _ r 1(4-6)] lt ptr c
    have "(\<exists>ls. labels_ok (done @ ls) \<and> t = name_text (done @ ls)) \<and> o' = ?off1" by (simp add: top_bits_0)
    then show ?thesis using c(2) by auto
  qed
qed

text \<open>Reading an encoding without pointers.\<close>

lemma of_nat_byte: "n < 64 \<Longrightarrow> unat (of_nat n :: u8) = n"
  by (simp add: unat_of_nat)

lemma name_loop_complete:
  assumes "list_all label_ok ls" "msg = pre @ concat (map (\<lambda>l. of_nat (length l) # l) ls) @ [0] @ post"
  shows "name_loop msg (length pre) s off1 maxLen ptr =
    name_end msg (length pre + labels_len ls + 1) (s @ concat (map escape_label ls)) off1
      (maxLen + (\<Sum>l\<leftarrow>ls. sum_list (map escape_growth l))) ptr"
  using assms
proof (induction ls arbitrary: pre s maxLen)
  case Nil
  then show ?case by (subst name_loop.simps) (simp add: labels_len_def nth_append)
next
  case (Cons l ls)
  let ?rest = "concat (map (\<lambda>l. of_nat (length l) # l) ls) @ [0] @ post"
  have msg: "msg = (pre @ of_nat (length l) # l) @ ?rest" using Cons.prems(2) by simp
  have l: "label_ok l" "unat (of_nat (length l) :: u8) = length l" using Cons.prems(1) of_nat_byte by auto
  have nz: "of_nat (length l) AND 0xC0 = (0 :: u8)" "of_nat (length l) \<noteq> (0 :: u8)"
    using l top_bits_0 [of "of_nat (length l)"] by auto
  have c: "msg ! length pre = of_nat (length l)" using msg by (simp add: nth_append)
  have sl: "slice msg (length pre + 1) (length pre + 1 + length l) = l" using msg by (simp add: slice_def)
  have lt: "length pre < length msg" "length pre + 1 + length l \<le> length msg" using msg by simp_all
  have "name_loop msg (length pre) s off1 maxLen ptr =
      name_loop msg (length pre + 1 + length l) (s @ escape_label l) off1 (maxLen + sum_list (map escape_growth l)) ptr"
    using lt sl nz by (subst name_loop.simps) (simp add: c Let_def l(2))
  moreover have "length pre + 1 + length l = length (pre @ of_nat (length l) # l)" by simp
  ultimately show ?case
    using Cons.IH [OF _ msg, of "s @ escape_label l" "maxLen + sum_list (map escape_growth l)"] Cons.prems(1)
    by (simp add: labels_len_def add_ac)
qed

lemma UnpackDomainName_wire:
  assumes "labels_ok ls"
  shows "UnpackDomainName (pre @ name_wire ls @ post) (length pre) = (name_text ls, length pre + length (name_wire ls), None)"
proof -
  have len: "length (name_wire ls) = Suc (labels_len ls)" by (simp add: length_name_wire labels_len_def)
  have ls: "list_all label_ok ls" "labels_len ls < 255" using assms by (simp_all add: labels_ok_iff)
  have "name_loop (pre @ name_wire ls @ post) (length pre) [] 0 255 0 =
      name_end (pre @ name_wire ls @ post) (length pre + labels_len ls + 1) (concat (map escape_label ls)) 0
        (255 + (\<Sum>l\<leftarrow>ls. sum_list (map escape_growth l))) 0"
    using name_loop_complete [OF ls(1), where pre = pre and post = post and s = "[]"] by (simp add: name_wire_def)
  then show ?thesis
    using ls(2) by (auto simp: UnpackDomainName_def name_end_def name_text_def length_name_text len)
qed

lemma UnpackDomainName_sound:
  assumes "UnpackDomainName msg off = (t, o', None)"
  shows "\<exists>ls. labels_ok ls \<and> t = name_text ls" "off < o'" "o' \<le> length msg"
  using name_loop_sound [of msg off "[]" 0 255 0 t o' "[]"] assms by (auto simp: UnpackDomainName_def)

lemma last_name_text: "IsFqdn (name_text ls)"
  by (cases ls rule: rev_cases) (auto simp: name_text_def IsFqdn_def escape_label_def)

section \<open>Packing a text\<close>

text \<open>What the in-place changes leave: the bytes before \<open>i\<close>, and the bytes from \<open>i\<close> to the end \<open>ls\<close> of the name.\<close>

lemma rest_length: "drop i (take ls bs) = xs \<Longrightarrow> xs \<noteq> [] \<Longrightarrow> ls \<le> length bs \<Longrightarrow> ls = i + length xs"
  by (auto simp: min_def split: if_split_asm)

lemma rest_nth:
  assumes "drop i (take ls bs) = xs" "k < length xs"
  shows "bs ! (i + k) = xs ! k"
proof -
  have "i + k < length (take ls bs)" using assms by auto
  then show ?thesis using assms(1) by auto
qed

lemma drop_backslash_rest:
  assumes "drop i (take ls bs) = x # r" "ls \<le> length bs"
  shows "length (drop_backslash i ls bs) = length bs" "take i (drop_backslash i ls bs) = take i bs"
    "drop i (take (ls - 1) (drop_backslash i ls bs)) = r"
proof -
  have ls: "ls = i + Suc (length r)" using rest_length [OF assms(1) _ assms(2)] by simp
  have sl: "slice bs (i + 1) ls = r"
  proof -
    have "drop 1 (drop i (take ls bs)) = r" using assms(1) by simp
    then show ?thesis by (simp add: slice_def drop_take)
  qed
  show "length (drop_backslash i ls bs) = length bs" "take i (drop_backslash i ls bs) = take i bs"
    "drop i (take (ls - 1) (drop_backslash i ls bs)) = r"
    unfolding drop_backslash_def sl using assms(2) ls by auto
qed

lemma read_ddd_rest:
  assumes "drop i (take ls bs) = x1 # x2 # x3 # r" "ls \<le> length bs"
  shows "length (read_ddd i ls bs) = length bs" "take i (read_ddd i ls bs) = take i bs"
    "drop i (take (ls - 2) (read_ddd i ls bs)) = dddToByte [x1, x2, x3] # r"
proof -
  have ls: "ls = i + Suc (Suc (Suc (length r)))" using rest_length [OF assms(1) _ assms(2)] by simp
  have sl: "slice bs (i + 3) ls = r"
  proof -
    have "drop 3 (drop i (take ls bs)) = r" using assms(1) by (simp add: eval_nat_numeral)
    then show ?thesis by (simp add: slice_def drop_take add.commute)
  qed
  have d: "dddToByte (drop i bs) = dddToByte [x1, x2, x3]"
    using rest_nth [OF assms(1), of 0] rest_nth [OF assms(1), of 1] rest_nth [OF assms(1), of 2] assms(2) ls
    by (simp add: dddToByte_def)
  show "length (read_ddd i ls bs) = length bs" "take i (read_ddd i ls bs) = take i bs"
    "drop i (take (ls - 2) (read_ddd i ls bs)) = dddToByte [x1, x2, x3] # r"
    unfolding read_ddd_def sl d using assms(2) ls by auto
qed

text \<open>Bytes and their text.\<close>

lemma byte_of_char [simp]: "byte_of (char_of_byte b) = b"
  by (simp add: byte_of_def char_of_byte_def unat_byte_less)

lemma byte_of_marks [simp]: "byte_of (CHR 0x5C) = 0x5C" "byte_of (CHR ''.'') = 0x2E"
  by (simp_all add: byte_of_def)

lemma byte_of_digit: "n < 10 \<Longrightarrow> byte_of (digit_byte n) = of_nat (48 + n)"
  by (simp add: byte_of_def digit_byte_def)

lemma isDigit_digit: "n < 10 \<Longrightarrow> isDigit (of_nat (48 + n))"
  by (simp add: isDigit_def word_le_nat_alt unat_of_nat del: of_nat_add)

lemma special_not_digit: "special_byte b \<Longrightarrow> \<not> isDigit b"
  by (auto simp: special_byte_def isDigit_def)

lemma ddd_byte:
  "dddToByte [of_nat (48 + unat b div 100), of_nat (48 + unat b div 10 mod 10), of_nat (48 + unat b mod 10)] = b"
proof -
  have "dddToByte [of_nat (48 + unat b div 100), of_nat (48 + unat b div 10 mod 10), of_nat (48 + unat b mod 10)] =
      of_nat (unat b div 100 * 100 + unat b div 10 mod 10 * 10 + unat b mod 10)"
    by (simp add: dddToByte_def)
  also have "unat b div 100 * 100 + unat b div 10 mod 10 * 10 + unat b mod 10 = unat b"
  proof -
    have "unat b div 100 = unat b div 10 div 10" by (simp flip: div_mult2_eq)
    then show ?thesis using div_mult_mod_eq [of "unat b" 10] div_mult_mod_eq [of "unat b div 10" 10] by linarith
  qed
  finally show ?thesis by simp
qed

lemma unescape_special:
  assumes "drop i (take ls bs) = 0x5C # b # r" "ls \<le> length bs" "\<not> isDigit b"
  shows "unescape i ls bs = (ls - 1, drop_backslash i ls bs)"
proof -
  have "drop_backslash i ls bs ! (i + 0) = b"
    by (subst rest_nth [OF drop_backslash_rest(3) [OF assms(1,2)]]) simp_all
  with assms(3) show ?thesis by (simp add: unescape_def Let_def)
qed

lemma unescape_ddd:
  assumes "drop i (take ls bs) = 0x5C # x1 # x2 # x3 # r" "ls \<le> length bs" "isDigit x1" "isDigit x2" "isDigit x3"
  shows "unescape i ls bs = (ls - 3, read_ddd i (ls - 1) (drop_backslash i ls bs))"
proof -
  let ?bs = "drop_backslash i ls bs"
  note rest = drop_backslash_rest(3) [OF assms(1,2)]
  have "i + 2 < ls - 1" using rest_length [OF assms(1) _ assms(2)] by simp
  moreover have "?bs ! i = x1" "?bs ! (i + 1) = x2" "?bs ! (i + 2) = x3"
    using rest_nth [OF rest, of 0] rest_nth [OF rest, of 1] rest_nth [OF rest, of 2] by simp_all
  ultimately show ?thesis using assms(3-5) by (simp add: unescape_def Let_def)
qed

text \<open>One byte of a label: its text is read, and the byte stands at \<open>i\<close>.\<close>

lemma pack_byte:
  assumes rest: "drop i (take ls bs) = map byte_of (escape_byte b) @ r" and ls: "ls \<le> length bs"
    and room: "ps_off st + 1 \<le> length (ps_msg st)"
  shows "\<exists>ls' bs' fr. pack_loop c i ls bs st = pack_loop c (i + 1) ls' bs' (st\<lparr>ps_escapedDot := (b = 0x2E), ps_bsFresh := fr\<rparr>) \<and>
    length bs' = length bs \<and> take i bs' = take i bs \<and> drop i (take ls' bs') = b # r \<and> ls' \<le> length bs'"
proof -
  have i: "i < ls" using rest_length [OF rest _ ls] by (simp add: escape_byte_def)
  have bsi: "bs ! i = hd (map byte_of (escape_byte b))"
    using rest_nth [OF rest, of 0] by (simp add: escape_byte_def nth_append)
  have escaped: ?thesis if u: "unescape i ls bs = (ls', bs')" and bs': "length bs' = length bs" "take i bs' = take i bs"
    "drop i (take ls' bs') = b # r" "ls' \<le> length bs'" and "bs ! i = 0x5C" for ls' bs'
  proof -
    have "bs' ! i = b" using rest_nth [OF bs'(3), of 0] by simp
    then have "pack_loop c i ls bs st = pack_loop c (i + 1) ls' bs' (st\<lparr>ps_escapedDot := (b = 0x2E), ps_bsFresh := False\<rparr>)"
      using i u room that(6) by (subst pack_loop.simps) simp
    with bs' show ?thesis by blast
  qed
  consider (special) "special_byte b" | (ddd) "\<not> special_byte b" "b < 32 \<or> b \<ge> 127" | (plain) "\<not> special_byte b" "\<not> (b < 32 \<or> b \<ge> 127)"
    by blast
  then show ?thesis
  proof cases
    case special
    then have rest': "drop i (take ls bs) = 0x5C # b # r" using rest by (simp add: escape_byte_def)
    show ?thesis
      by (rule escaped [OF unescape_special [OF rest' ls special_not_digit [OF special]]])
        (use drop_backslash_rest [OF rest' ls] ls bsi special in \<open>simp_all add: escape_byte_def\<close>)
  next
    case ddd
    let ?x1 = "of_nat (48 + unat b div 100) :: u8" and ?x2 = "of_nat (48 + unat b div 10 mod 10) :: u8" and ?x3 = "of_nat (48 + unat b mod 10) :: u8"
    have d: "unat b div 100 < 10" "unat b div 10 mod 10 < 10" "unat b mod 10 < 10" using unat_byte_less [of b] by auto
    have e: "map byte_of (escape_byte b) = [0x5C, ?x1, ?x2, ?x3]"
      using ddd d by (simp add: escape_byte_def byte_of_digit del: of_nat_add)
    have rest': "drop i (take ls bs) = 0x5C # ?x1 # ?x2 # ?x3 # r" using rest e by simp
    note bs1 = drop_backslash_rest [OF rest' ls]
    have ls1: "ls - 1 \<le> length (drop_backslash i ls bs)" using bs1(1) ls by simp
    note bs2 = read_ddd_rest [OF bs1(3) ls1]
    have "drop i (take (ls - 3) (read_ddd i (ls - 1) (drop_backslash i ls bs))) = b # r"
      using bs2(3) unfolding ddd_byte by (simp add: numeral_3_eq_3 numeral_2_eq_2)
    then show ?thesis
      by (intro escaped [OF unescape_ddd [OF rest' ls]] isDigit_digit d)
        (use bs1 bs2 bsi e ls in simp_all)
  next
    case plain
    then have e: "map byte_of (escape_byte b) = [b]" "b \<noteq> 0x5C" "b \<noteq> 0x2E" by (auto simp: escape_byte_def special_byte_def)
    then have "pack_loop c i ls bs st = pack_loop c (i + 1) ls bs (st\<lparr>ps_escapedDot := (b = 0x2E), ps_bsFresh := ps_bsFresh st\<rparr>)"
      using i bsi by (subst pack_loop.simps) simp
    then show ?thesis using e rest ls by (intro exI [of _ ls] exI [of _ bs] exI [of _ "ps_bsFresh st"]) simp
  qed
qed

lemma pack_label:
  assumes "drop i (take ls bs) = map byte_of (concat (map escape_byte l)) @ r" "ls \<le> length bs" "i \<le> length bs"
    and "ps_off st + 1 \<le> length (ps_msg st)"
  shows "\<exists>ls' bs' ed fr. pack_loop c i ls bs st = pack_loop c (i + length l) ls' bs' (st\<lparr>ps_escapedDot := ed, ps_bsFresh := fr\<rparr>) \<and>
    length bs' = length bs \<and> take (i + length l) bs' = take i bs @ l \<and> drop (i + length l) (take ls' bs') = r \<and>
    ls' \<le> length bs' \<and> (l \<noteq> [] \<longrightarrow> last l = 0x2E \<longrightarrow> ed)"
  using assms
proof (induction l arbitrary: i ls bs st)
  case Nil
  have "st = st\<lparr>ps_escapedDot := ps_escapedDot st, ps_bsFresh := ps_bsFresh st\<rparr>" by simp
  with Nil show ?case by (metis add_0_right append_Nil append_Nil2 concat.simps(1) list.map(1) list.size(3))
next
  case (Cons b l)
  have rest: "drop i (take ls bs) = map byte_of (escape_byte b) @ map byte_of (concat (map escape_byte l)) @ r"
    using Cons.prems(1) by simp
  from pack_byte [OF rest Cons.prems(2,4)] obtain ls1 bs1 fr where 1:
    "pack_loop c i ls bs st = pack_loop c (i + 1) ls1 bs1 (st\<lparr>ps_escapedDot := (b = 0x2E), ps_bsFresh := fr\<rparr>)"
    "length bs1 = length bs" "take i bs1 = take i bs" "drop i (take ls1 bs1) = b # map byte_of (concat (map escape_byte l)) @ r"
    "ls1 \<le> length bs1" by blast
  have i: "i < ls1" "bs1 ! i = b" using rest_length [OF 1(4) _ 1(5)] rest_nth [OF 1(4), of 0] by simp_all
  have t1: "take (i + 1) bs1 = take i bs @ [b]" using i 1(3,5) by (simp add: take_Suc_conv_app_nth)
  have r1: "drop (i + 1) (take ls1 bs1) = map byte_of (concat (map escape_byte l)) @ r"
    using arg_cong [OF 1(4), of "drop 1"] by (simp add: add.commute)
  let ?st = "st\<lparr>ps_escapedDot := (b = 0x2E), ps_bsFresh := fr\<rparr>"
  have "i + 1 \<le> length bs1" "ps_off ?st + 1 \<le> length (ps_msg ?st)" using i 1(5) Cons.prems(4) by simp_all
  from Cons.IH [OF r1 1(5) this] obtain ls2 bs2 ed fr' where 2:
    "pack_loop c (i + 1) ls1 bs1 ?st = pack_loop c (i + 1 + length l) ls2 bs2 (?st\<lparr>ps_escapedDot := ed, ps_bsFresh := fr'\<rparr>)"
    "length bs2 = length bs1" "take (i + 1 + length l) bs2 = take (i + 1) bs1 @ l" "drop (i + 1 + length l) (take ls2 bs2) = r"
    "ls2 \<le> length bs2" "l \<noteq> [] \<longrightarrow> last l = 0x2E \<longrightarrow> ed"
    by blast
  show ?case
  proof (cases "l = []")
    case True
    with 1 t1 r1 i show ?thesis by (intro exI [of _ ls1] exI [of _ bs1] exI [of _ "b = 0x2E"] exI [of _ fr]) simp
  next
    case False
    with 1 2 t1 show ?thesis by (intro exI [of _ ls2] exI [of _ bs2] exI [of _ ed] exI [of _ fr']) simp
  qed
qed

lemma put_put: "off + length a + length b \<le> length buf \<Longrightarrow> put (put buf off a) (off + length a) b = put buf off (a @ b)"
  by (simp add: put_def add_ac)

lemma length_put [simp]: "off + length a \<le> length buf \<Longrightarrow> length (put buf off a) = length buf"
  by (simp add: put_def)

text \<open>The dot after a label writes it, when there is no compression map.\<close>

lemma pack_dot_label:
  assumes "take i bs = pre @ l" "length pre = ps_begin st" "i = length pre + length l" "i \<le> length bs"
    and "l \<noteq> [] \<and> (last l = 0x2E \<longrightarrow> ps_escapedDot st) \<or> i = 0" "length l < 64" "ps_compression st = None"
    and "ps_off st + Suc (length l) \<le> length (ps_msg st)"
  shows "pack_dot False i bs st = Inr (st\<lparr>ps_msg := put (ps_msg st) (ps_off st) (of_nat (length l) # l),
     ps_off := ps_off st + Suc (length l), ps_labels := ps_labels st + 1, ps_begin := i + 1\<rparr>, False)"
proof -
  have *: "bs ! (i - 1) = last l" if "l \<noteq> []" "0 < i"
  proof -
    have "bs ! (i - 1) = take i bs ! (i - 1)" using that(2) by simp
    also have "\<dots> = last l" unfolding assms(1) using that(1) assms(3) by (cases l rule: rev_cases) (simp_all add: nth_append)
    finally show ?thesis .
  qed
  have "\<not> (i > 0 \<and> bs ! (i - 1) = 0x2E \<and> \<not> ps_escapedDot st)" using * assms(5) by (cases "i = 0") auto
  moreover have "slice bs (ps_begin st) i = l"
  proof -
    have "drop (length pre) (take i bs) = l" by (simp add: assms(1))
    then show ?thesis using assms(2) by (simp add: slice_def drop_take)
  qed
  moreover have "i - ps_begin st = length l" using assms(2,3) by simp
  ultimately show ?thesis using assms(6-8) by (simp add: pack_dot_def Let_def)
qed

abbreviation (input) labels_wire :: "u8 list list \<Rightarrow> u8 list" where
  "labels_wire lbs \<equiv> concat (map (\<lambda>l. of_nat (length l) # l) lbs)"

lemma length_labels_wire: "length (labels_wire lbs) = labels_len lbs"
  by (induction lbs) (simp_all add: labels_len_def)

lemma bytes_escape_label: "map byte_of (escape_label l) = map byte_of (concat (map escape_byte l)) @ [0x2E]"
  by (simp add: escape_label_def)

lemma pack_labels:
  assumes "drop i (take ls bs) = map byte_of (concat (map escape_label lbs))" "ls \<le> length bs" "i \<le> length bs" "list_all label_ok lbs"
    and "ps_begin st = i" "ps_compression st = None" "ps_off st + labels_len lbs \<le> length (ps_msg st)"
  shows "\<exists>bs' st'. pack_loop False i ls bs st = Inr (bs', st') \<and> length bs' = length bs \<and> ps_pointer st' = ps_pointer st \<and>
    ps_compression st' = None \<and> ps_off st' = ps_off st + labels_len lbs \<and> ps_msg st' = put (ps_msg st) (ps_off st) (labels_wire lbs)"
  using assms
proof (induction lbs arbitrary: i ls bs st)
  case Nil
  then have "\<not> i < ls" by (auto simp: min_def split: if_split_asm)
  then show ?case using Nil by (subst pack_loop.simps) (simp add: labels_len_def put_def)
next
  case (Cons l lbs)
  let ?rest = "0x2E # map byte_of (concat (map escape_label lbs))"
  have rest: "drop i (take ls bs) = map byte_of (concat (map escape_byte l)) @ ?rest"
    using Cons.prems(1) by (simp add: bytes_escape_label)
  have l: "label_ok l" and lbs: "list_all label_ok lbs" using Cons.prems(4) by simp_all
  have room: "ps_off st + Suc (length l) + labels_len lbs \<le> length (ps_msg st)" using Cons.prems(7) by (simp add: labels_len_def)
  then have "ps_off st + 1 \<le> length (ps_msg st)" by simp
  from pack_label [OF rest Cons.prems(2,3) this, of False] obtain ls1 bs1 ed fr where 1:
    "pack_loop False i ls bs st = pack_loop False (i + length l) ls1 bs1 (st\<lparr>ps_escapedDot := ed, ps_bsFresh := fr\<rparr>)"
    "length bs1 = length bs" "take (i + length l) bs1 = take i bs @ l" "drop (i + length l) (take ls1 bs1) = ?rest"
    "ls1 \<le> length bs1" "l \<noteq> [] \<longrightarrow> last l = 0x2E \<longrightarrow> ed" by blast
  let ?i = "i + length l" and ?st = "st\<lparr>ps_escapedDot := ed, ps_bsFresh := fr\<rparr>"
  let ?st1 = "?st\<lparr>ps_msg := put (ps_msg st) (ps_off st) (of_nat (length l) # l), ps_off := ps_off st + Suc (length l),
    ps_labels := ps_labels st + 1, ps_begin := ?i + 1, ps_escapedDot := False\<rparr>"
  have i: "?i < ls1" "bs1 ! ?i = 0x2E" using rest_length [OF 1(4) _ 1(5)] rest_nth [OF 1(4), of 0] by simp_all
  have "pack_dot False ?i bs1 ?st = Inr (?st\<lparr>ps_msg := put (ps_msg ?st) (ps_off ?st) (of_nat (length l) # l),
      ps_off := ps_off ?st + Suc (length l), ps_labels := ps_labels ?st + 1, ps_begin := ?i + 1\<rparr>, False)"
    by (rule pack_dot_label [OF 1(3)]) (use Cons.prems(3,5,6) 1(5,6) i l room in auto)
  then have step: "pack_loop False i ls bs st = pack_loop False (?i + 1) ls1 bs1 ?st1"
    unfolding 1(1) using i by (subst pack_loop.simps) simp
  have r1: "drop (?i + 1) (take ls1 bs1) = map byte_of (concat (map escape_label lbs))"
    using arg_cong [OF 1(4), of "drop 1"] by (simp add: add.commute)
  have "put (put (ps_msg st) (ps_off st) (of_nat (length l) # l)) (ps_off st + Suc (length l)) (labels_wire lbs) =
      put (ps_msg st) (ps_off st) (labels_wire (l # lbs))"
    using put_put [of "ps_off st" "of_nat (length l) # l" "labels_wire lbs" "ps_msg st"] room by (simp add: length_labels_wire)
  moreover have "?i + 1 \<le> length bs1" "ps_begin ?st1 = ?i + 1" "ps_compression ?st1 = None"
      "ps_off ?st1 + labels_len lbs \<le> length (ps_msg ?st1)"
    using i 1(5) room Cons.prems(6) by simp_all
  note Cons.IH [OF r1 1(5) this(1) lbs this(2-4)]
  ultimately show ?case
    unfolding step using 1(2) by (simp add: labels_len_def add.assoc)
qed

lemma PackDomainName_wire:
  assumes "list_all label_ok ls" "off + length (name_wire ls) \<le> length msg"
  shows "PackDomainName (name_text ls) msg off None False =
    Ret (Inr (off + length (name_wire ls), put msg off (name_wire ls), None))"
proof (cases "ls = []")
  case True
  let ?st = "\<lparr>ps_begin = 0, ps_off = off, ps_msg = msg, ps_compression = None, ps_roBs = [0x2E], ps_bsFresh = True,
                   ps_escapedDot = False, ps_labels = 0, ps_pointer = None\<rparr>"
  have room: "off < length msg" using True assms(2) by (simp add: name_wire_def)
  have "pack_dot False 0 [0x2E] ?st = Inr (?st\<lparr>ps_msg := put (ps_msg ?st) (ps_off ?st) (of_nat (length ([] :: u8 list)) # []),
     ps_off := ps_off ?st + Suc (length ([] :: u8 list)), ps_labels := ps_labels ?st + 1, ps_begin := 0 + 1\<rparr>, False)"
    by (rule pack_dot_label [where pre = "[]"]) (use room in simp_all)
  then have "pack_loop False 0 1 [0x2E] ?st = pack_loop False 1 1 [0x2E] (?st\<lparr>ps_msg := put msg off [0], ps_off := off + 1,
      ps_labels := 1, ps_begin := 1\<rparr>)"
    by (subst pack_loop.simps) simp
  also have "\<dots> = Inr ([0x2E], ?st\<lparr>ps_msg := put msg off [0], ps_off := off + 1, ps_labels := 1, ps_begin := 1\<rparr>)"
    by (subst pack_loop.simps) simp
  finally show ?thesis
    using True by (simp add: PackDomainName_def packDomainName_def name_text_def name_wire_def Let_def)
next
  case False
  let ?s = "concat (map escape_label ls)"
  let ?st = "\<lparr>ps_begin = 0, ps_off = off, ps_msg = msg, ps_compression = None, ps_roBs = map byte_of ?s, ps_bsFresh = True,
                   ps_escapedDot = False, ps_labels = 0, ps_pointer = None\<rparr>"
  have room: "off + Suc (labels_len ls) \<le> length msg" using assms(2) by (simp add: length_name_wire labels_len_def)
  have last: "last ?s = CHR ''.''" using last_name_text [of ls] False by (simp add: name_text_def IsFqdn_def)
  have two: "1 < length ?s" using False assms(1) by (cases ls) (auto simp: length_escape_label neq_Nil_conv)
  obtain bs' st' where run: "pack_loop False 0 (length ?s) (map byte_of ?s) ?st = Inr (bs', st')"
    "length bs' = length ?s" "ps_pointer st' = None" "ps_compression st' = None" "ps_off st' = off + labels_len ls"
    "ps_msg st' = put msg off (labels_wire ls)"
    using pack_labels [of 0 "length ?s" "map byte_of ?s" ls ?st] assms(1) room by auto
  have "(put msg off (labels_wire ls))[off + labels_len ls := 0] = put msg off (name_wire ls)"
    using room by (simp add: put_def name_wire_def list_update_append length_labels_wire Cons_nth_drop_Suc [symmetric])
  then show ?thesis
    using False last two run room
    by (simp add: PackDomainName_def packDomainName_def name_text_def Let_def length_name_wire labels_len_def length_labels_wire)
qed

section \<open>Properties\<close>

lemma escape_byte_printable: "c \<in> set (escape_byte b) \<Longrightarrow> 32 \<le> (of_char c :: nat) \<and> of_char c < (127 :: nat)"
proof -
  have d: "unat b div 100 < 10" "unat b div 10 mod 10 < 10" "unat b mod 10 < 10" using unat_byte_less [of b] by auto
  show "c \<in> set (escape_byte b) \<Longrightarrow> 32 \<le> (of_char c :: nat) \<and> of_char c < (127 :: nat)"
    using d unat_byte_less [of b]
    by (auto simp: escape_byte_def special_byte_def digit_byte_def char_of_byte_def word_le_nat_alt word_less_nat_alt split: if_split_asm)
qed

lemma name_text_printable: "c \<in> set (name_text ls) \<Longrightarrow> 32 \<le> (of_char c :: nat) \<and> of_char c < (127 :: nat)"
  by (auto simp: name_text_def escape_label_def dest: escape_byte_printable split: if_split_asm)

text \<open>A name that was read is a name: whatever the bytes, wherever its pointers lead, \<^verbatim>\<open>UnpackDomainName\<close> returns; and when it
  returns no error, it has read at least one byte and none beyond the end, the name ends in a dot and consists of printable
  ASCII characters.\<close>

theorem UnpackDomainName_name:
  assumes "UnpackDomainName msg off = (t, o', None)"
  shows "off < o' \<and> o' \<le> length msg \<and> IsFqdn t \<and> (\<forall>c \<in> set t. 32 \<le> (of_char c :: nat) \<and> of_char c < (127 :: nat))"
  using UnpackDomainName_sound [OF assms] last_name_text name_text_printable by blast

text \<open>C10. A name survives the way through the wire format: every name that can be read from a message, with any bytes and
  through any pointers, can be packed without compression into 255 bytes, and reading it there gives the same name and
  ends where packing ended.\<close>

theorem name_roundtrip:
  assumes "UnpackDomainName msg0 off0 = (t, o', None)" "off + 255 \<le> length msg"
  shows "\<exists>n msg'. PackDomainName t msg off None False = Ret (Inr (n, msg', None)) \<and> off < n \<and> n \<le> off + 255 \<and>
    length msg' = length msg \<and> take off msg' = take off msg \<and> drop n msg' = drop n msg \<and> UnpackDomainName msg' off = (t, n, None)"
proof -
  obtain ls where ls: "labels_ok ls" "t = name_text ls" using UnpackDomainName_sound(1) [OF assms(1)] by blast
  let ?n = "off + length (name_wire ls)" and ?msg = "put msg off (name_wire ls)"
  have len: "0 < length (name_wire ls)" "length (name_wire ls) \<le> 255" using ls(1) by (simp_all add: labels_ok_def name_wire_def)
  have room: "?n \<le> length msg" using len(2) assms(2) by simp
  have "PackDomainName t msg off None False = Ret (Inr (?n, ?msg, None))"
    unfolding ls(2) by (rule PackDomainName_wire) (use ls(1) room in \<open>simp_all add: labels_ok_iff\<close>)
  moreover have "UnpackDomainName ?msg off = (t, ?n, None)"
    using UnpackDomainName_wire [OF ls(1), of "take off msg" "drop ?n msg"] room by (simp add: put_def ls(2))
  moreover have "take off ?msg = take off msg" "drop ?n ?msg = drop ?n msg" using room by (simp_all add: put_def)
  ultimately show ?thesis using len room by (intro exI [of _ ?n] exI [of _ ?msg]) simp
qed

theorem name_roundtrip_witness:
  "\<exists>n msg'. PackDomainName (fst (UnpackDomainName [0xC0, 2, 3, 0x61, 0x2E, 0xFF, 0] 0)) (replicate 300 7) 10 None False =
      Ret (Inr (n, msg', None)) \<and> n \<le> 265 \<and> fst (UnpackDomainName msg' 10) = ''a'' @ [CHR 0x5C] @ ''.'' @ [CHR 0x5C] @ ''255.''"
proof -
  have "UnpackDomainName [0xC0, 2, 3, 0x61, 0x2E, 0xFF, 0] 0 = (''a'' @ [CHR 0x5C] @ ''.'' @ [CHR 0x5C] @ ''255.'', 2, None)"
    by code_simp
  from name_roundtrip [OF this, of 10 "replicate 300 7"] this show ?thesis by fastforce
qed

end
