(* ===== verification/Wire_Rdata.thy ===== *)
theory Wire_Rdata
  imports Wire_Names Access_List
begin

text \<open>
  Unpacking the data of records (the vendored \<^verbatim>\<open>miekg/dns\<close>, \<^verbatim>\<open>msg_helpers.go\<close>, \<^verbatim>\<open>edns.go\<close> and the generated
  \<^verbatim>\<open>zmsg.go\<close>): numbers, texts, binary fields as hexadecimal, base32 and base64 texts, type bitmaps, EDNS options, and
  one function for each type of record the program looks into, plus the one for unknown types.

  The rest of the generated table \<^verbatim>\<open>typeToUnpack\<close> is the argument \<open>U\<close>: for a type of record the program never looks
  into, a function that reads some data or fails with a text. Its results become \<open>Other_rd\<close> records. An option's data is kept as bytes.
\<close>

section \<open>Numbers\<close>

definition unpackUint8 :: "u8 list \<Rightarrow> nat \<Rightarrow> u8 unpacked" where
  "unpackUint8 msg off =
     (if off + 1 > length msg then (0, length msg, Some (Err ''overflow unpacking uint8'')) else (msg ! off, off + 1, None))"

definition unpackUint16 :: "u8 list \<Rightarrow> nat \<Rightarrow> u16 unpacked" where
  "unpackUint16 msg off =
     (if off + 2 > length msg then (0, length msg, Some (Err ''overflow unpacking uint16''))
      else (push_bit 8 (ucast (msg ! off)) OR ucast (msg ! (off + 1)), off + 2, None))"

definition unpackUint32 :: "u8 list \<Rightarrow> nat \<Rightarrow> u32 unpacked" where
  "unpackUint32 msg off =
     (if off + 4 > length msg then (0, length msg, Some (Err ''overflow unpacking uint32''))
      else (push_bit 24 (ucast (msg ! off)) OR push_bit 16 (ucast (msg ! (off + 1))) OR
            push_bit 8 (ucast (msg ! (off + 2))) OR ucast (msg ! (off + 3)), off + 4, None))"

section \<open>Texts\<close>

definition text_byte :: "u8 \<Rightarrow> string" where
  "text_byte b =
     (if b = 0x22 \<or> b = 0x5C then [CHR 0x5C, char_of_byte b]
      else if b < 32 \<or> b > 126
      then [CHR 0x5C, digit_byte (unat b div 100), digit_byte (unat b div 10 mod 10), digit_byte (unat b mod 10)]
      else [char_of_byte b])"

definition unpackString :: "u8 list \<Rightarrow> nat \<Rightarrow> string unpacked" where
  "unpackString msg off =
     (if off + 1 > length msg then ([], off, Some (Err ''overflow unpacking txt''))
      else let l = unat (msg ! off)
           in if off + l + 1 > length msg then ([], off, Some (Err ''overflow unpacking txt''))
              else (concat (map text_byte (slice msg (off + 1) (off + 1 + l))), off + 1 + l, None))"

definition hex_digit :: "nat \<Rightarrow> char" where
  "hex_digit n = char_of (if n < 10 then 48 + n else 87 + n)"

definition unpackStringHex :: "u8 list \<Rightarrow> nat \<Rightarrow> nat \<Rightarrow> string unpacked" where
  "unpackStringHex msg off rd_end =
     (if rd_end > length msg then ([], length msg, Some (Err ''overflow unpacking hex''))
      else (concat (map (\<lambda>b. [hex_digit (unat b div 16), hex_digit (unat b mod 16)]) (slice msg off rd_end)), rd_end, None))"

text \<open>Base 32 and base 64: a block of bytes is one number, whose digits are written from the most significant one, as many as
  the bytes need.\<close>

definition encode_block :: "nat \<Rightarrow> nat \<Rightarrow> (nat \<Rightarrow> char) \<Rightarrow> u8 list \<Rightarrow> string" where
  "encode_block block bits digit bs =
     (let n = foldl (\<lambda>n b. 256 * n + uint b) 0 (bs @ replicate (block - length bs) 0); digits = 8 * block div bits
      in map (\<lambda>i. digit (nat (n div 2 ^ (bits * (digits - 1 - i)) mod 2 ^ bits))) [0..<(8 * length bs + bits - 1) div bits])"

definition base32_digit :: "nat \<Rightarrow> char" where
  "base32_digit n = char_of (if n < 10 then 48 + n else 55 + n)"

definition base64_digit :: "nat \<Rightarrow> char" where
  "base64_digit n =
     (if n < 26 then char_of (65 + n) else if n < 52 then char_of (71 + n) else if n < 62 then char_of (n - 4)
      else if n = 62 then CHR ''+'' else CHR 0x2F)"

function toBase32 :: "u8 list \<Rightarrow> string" where
  "toBase32 bs = (if bs = [] then [] else encode_block 5 5 base32_digit (take 5 bs) @ toBase32 (drop 5 bs))"
  by pat_completeness auto
termination by (relation "measure length") auto

declare toBase32.simps [simp del]

function toBase64 :: "u8 list \<Rightarrow> string" where
  "toBase64 bs =
     (if bs = [] then []
      else encode_block 3 6 base64_digit (take 3 bs) @ replicate (3 - length bs) CHR ''='' @ toBase64 (drop 3 bs))"
  by pat_completeness auto
termination by (relation "measure length") auto

declare toBase64.simps [simp del]

definition unpackStringBase32 :: "u8 list \<Rightarrow> nat \<Rightarrow> nat \<Rightarrow> string unpacked" where
  "unpackStringBase32 msg off rd_end =
     (if rd_end > length msg then ([], length msg, Some (Err ''overflow unpacking base32'')) else (toBase32 (slice msg off rd_end), rd_end, None))"

definition unpackStringBase64 :: "u8 list \<Rightarrow> nat \<Rightarrow> nat \<Rightarrow> string unpacked" where
  "unpackStringBase64 msg off rd_end =
     (if rd_end > length msg then ([], length msg, Some (Err ''overflow unpacking base64'')) else (toBase64 (slice msg off rd_end), rd_end, None))"

section \<open>Type bitmaps\<close>

definition window_types :: "nat \<Rightarrow> u8 list \<Rightarrow> u16 list" where
  "window_types window bs =
     concat (map (\<lambda>j. concat (map (\<lambda>k. if bit (bs ! j) (7 - k) then [of_nat (window * 256 + j * 8 + k)] else []) [0..<8])) [0..<length bs])"

function nsec_loop :: "u8 list \<Rightarrow> nat \<Rightarrow> int \<Rightarrow> u16 list \<Rightarrow> u16 list unpacked" where
  "nsec_loop msg off lastwindow nsec =
     (if off \<ge> length msg then (nsec, off, None)
      else if off + 2 > length msg then (nsec, length msg, Some (Err ''overflow unpacking nsecx''))
      else let window = unat (msg ! off); l = unat (msg ! (off + 1)); off' = off + 2
           in if int window \<le> lastwindow then (nsec, length msg, Some (Err ''out of order NSEC block''))
              else if l = 0 then (nsec, length msg, Some (Err ''empty NSEC block''))
              else if l > 32 then (nsec, length msg, Some (Err ''NSEC block too long''))
              else if off' + l > length msg then (nsec, length msg, Some (Err ''overflowing NSEC block''))
              else nsec_loop msg (off' + l) (int window) (nsec @ window_types window (slice msg off' (off' + l))))"
  by pat_completeness auto
termination by (relation "measure (\<lambda>(msg, off, w, nsec). length msg - off)") auto

declare nsec_loop.simps [simp del]

definition unpackDataNsec :: "u8 list \<Rightarrow> nat \<Rightarrow> u16 list unpacked" where
  "unpackDataNsec msg off = nsec_loop msg off (-1) []"

section \<open>EDNS options\<close>

definition be16 :: "u8 list \<Rightarrow> nat \<Rightarrow> u16" where
  "be16 msg off = push_bit 8 (ucast (msg ! off)) OR ucast (msg ! (off + 1))"

definition subnet_unpack :: "u8 list \<Rightarrow> wire_err + edns0" where
  "subnet_unpack b =
     (if length b < 4 then Inl ErrBuf
      else let family = be16 b 0; mask = b ! 2; scope = b ! 3;
               addr = (\<lambda>n. take n (drop 4 b @ replicate n 0))
           in if family = 0
              then if mask \<noteq> 0 then Inl (Err ''bad address family'') else Inr (EDNS0_SUBNET family mask scope (v4InV6Prefix @ [0, 0, 0, 0]))
              else if family = 1
              then if mask > 32 \<or> scope > 32 then Inl (Err ''bad netmask'') else Inr (EDNS0_SUBNET family mask scope (v4InV6Prefix @ addr 4))
              else if family = 2
              then if mask > 128 \<or> scope > 128 then Inl (Err ''bad netmask'') else Inr (EDNS0_SUBNET family mask scope (addr 16))
              else Inl (Err ''bad address family''))"

text \<open>The option with code 1 (\<^verbatim>\<open>LLQ\<close>) has 18 bytes and the one with code 2 (\<^verbatim>\<open>UL\<close>) has 4; the others keep all of theirs.\<close>

definition option_unpack :: "u16 \<Rightarrow> u8 list \<Rightarrow> wire_err + edns0" where
  "option_unpack code b =
     (if code = 8 then subnet_unpack b
      else if code = 1 then if length b < 18 then Inl ErrBuf else Inr (EDNS0_OTHER code (map char_of_byte (take 18 b)))
      else if code = 2 then if length b < 4 then Inl ErrBuf else Inr (EDNS0_OTHER code (map char_of_byte (take 4 b)))
      else Inr (EDNS0_OTHER code (map char_of_byte b)))"

function unpack_options :: "u8 list \<Rightarrow> nat \<Rightarrow> edns0 list \<Rightarrow> edns0 list unpacked" where
  "unpack_options msg off edns =
     (if off + 4 > length msg then ([], length msg, Some (Err ''overflow unpacking opt''))
      else let code = be16 msg off; optlen = unat (be16 msg (off + 2)); off' = off + 4
           in if off' + optlen > length msg then ([], length msg, Some (Err ''overflow unpacking opt''))
              else case option_unpack code (slice msg off' (off' + optlen)) of
                     Inl err \<Rightarrow> ([], length msg, Some err)
                   | Inr e \<Rightarrow>
                       if off' + optlen < length msg then unpack_options msg (off' + optlen) (edns @ [e])
                       else (edns @ [e], off' + optlen, None))"
  by pat_completeness auto
termination by (relation "measure (\<lambda>(msg, off, edns). length msg - off)") auto

declare unpack_options.simps [simp del]

definition unpackDataOpt :: "u8 list \<Rightarrow> nat \<Rightarrow> edns0 list unpacked" where
  "unpackDataOpt msg off = unpack_options msg off []"

section \<open>Records\<close>

text \<open>The data of a record: its length, the message cut off after it, and the offset where it starts. A record without data has
  the zero value of its type.\<close>

type_synonym unpacker = "u16 \<Rightarrow> u8 list \<Rightarrow> nat \<Rightarrow> rdata unpacked"

definition unpackDataA :: "u8 list \<Rightarrow> nat \<Rightarrow> ip unpacked" where
  "unpackDataA msg off =
     (if off + 4 > length msg then ([], length msg, Some (Err ''overflow unpacking a'')) else (slice msg off (off + 4), off + 4, None))"

definition unpackDataAAAA :: "u8 list \<Rightarrow> nat \<Rightarrow> ip unpacked" where
  "unpackDataAAAA msg off =
     (if off + 16 > length msg then ([], length msg, Some (Err ''overflow unpacking aaaa'')) else (slice msg off (off + 16), off + 16, None))"

definition unpackA :: unpacker where
  "unpackA n msg off = (if n = 0 then (A_rd [], off, None) else case unpackDataA msg off of (a, off, err) \<Rightarrow> (A_rd a, off, err))"

definition unpackAAAA :: unpacker where
  "unpackAAAA n msg off = (if n = 0 then (AAAA_rd [], off, None) else case unpackDataAAAA msg off of (a, off, err) \<Rightarrow> (AAAA_rd a, off, err))"

definition unpackNS :: unpacker where
  "unpackNS n msg off = (if n = 0 then (NS_rd [], off, None) else case UnpackDomainName msg off of (t, off, err) \<Rightarrow> (NS_rd t, off, err))"

definition unpackCNAME :: unpacker where
  "unpackCNAME n msg off = (if n = 0 then (CNAME_rd [], off, None) else case UnpackDomainName msg off of (t, off, err) \<Rightarrow> (CNAME_rd t, off, err))"

definition unpackDS :: unpacker where
  "unpackDS n msg off0 =
     (let ds = \<lparr>ds_KeyTag = 0, ds_Algorithm = 0, ds_DigestType = 0, ds_Digest = []\<rparr>
      in if n = 0 then (DS_rd ds, off0, None)
      else case unpackUint16 msg off0 of (x, off, err) \<Rightarrow> let ds = ds\<lparr>ds_KeyTag := x\<rparr>
        in if err \<noteq> None \<or> off = length msg then (DS_rd ds, off, err)
      else case unpackUint8 msg off of (x, off, err) \<Rightarrow> let ds = ds\<lparr>ds_Algorithm := x\<rparr>
        in if err \<noteq> None \<or> off = length msg then (DS_rd ds, off, err)
      else case unpackUint8 msg off of (x, off, err) \<Rightarrow> let ds = ds\<lparr>ds_DigestType := x\<rparr>
        in if err \<noteq> None \<or> off = length msg then (DS_rd ds, off, err)
      else case unpackStringHex msg off (off0 + unat n) of (x, off, err) \<Rightarrow> (DS_rd (ds\<lparr>ds_Digest := x\<rparr>), off, err))"

definition unpackDNSKEY :: unpacker where
  "unpackDNSKEY n msg off0 =
     (let k = \<lparr>dk_Flags = 0, dk_Protocol = 0, dk_Algorithm = 0, dk_PublicKey = []\<rparr>
      in if n = 0 then (DNSKEY_rd k, off0, None)
      else case unpackUint16 msg off0 of (x, off, err) \<Rightarrow> let k = k\<lparr>dk_Flags := x\<rparr>
        in if err \<noteq> None \<or> off = length msg then (DNSKEY_rd k, off, err)
      else case unpackUint8 msg off of (x, off, err) \<Rightarrow> let k = k\<lparr>dk_Protocol := x\<rparr>
        in if err \<noteq> None \<or> off = length msg then (DNSKEY_rd k, off, err)
      else case unpackUint8 msg off of (x, off, err) \<Rightarrow> let k = k\<lparr>dk_Algorithm := x\<rparr>
        in if err \<noteq> None \<or> off = length msg then (DNSKEY_rd k, off, err)
      else case unpackStringBase64 msg off (off0 + unat n) of (x, off, err) \<Rightarrow> (DNSKEY_rd (k\<lparr>dk_PublicKey := x\<rparr>), off, err))"

definition unpackRRSIG :: unpacker where
  "unpackRRSIG n msg off0 =
     (let g = \<lparr>sig_TypeCovered = 0, sig_Algorithm = 0, sig_Labels = 0, sig_OrigTtl = 0, sig_Expiration = 0, sig_Inception = 0,
        sig_KeyTag = 0, sig_SignerName = [], sig_Signature = []\<rparr>
      in if n = 0 then (RRSIG_rd g, off0, None)
      else case unpackUint16 msg off0 of (x, off, err) \<Rightarrow> let g = g\<lparr>sig_TypeCovered := x\<rparr>
        in if err \<noteq> None \<or> off = length msg then (RRSIG_rd g, off, err)
      else case unpackUint8 msg off of (x, off, err) \<Rightarrow> let g = g\<lparr>sig_Algorithm := x\<rparr>
        in if err \<noteq> None \<or> off = length msg then (RRSIG_rd g, off, err)
      else case unpackUint8 msg off of (x, off, err) \<Rightarrow> let g = g\<lparr>sig_Labels := x\<rparr>
        in if err \<noteq> None \<or> off = length msg then (RRSIG_rd g, off, err)
      else case unpackUint32 msg off of (x, off, err) \<Rightarrow> let g = g\<lparr>sig_OrigTtl := x\<rparr>
        in if err \<noteq> None \<or> off = length msg then (RRSIG_rd g, off, err)
      else case unpackUint32 msg off of (x, off, err) \<Rightarrow> let g = g\<lparr>sig_Expiration := x\<rparr>
        in if err \<noteq> None \<or> off = length msg then (RRSIG_rd g, off, err)
      else case unpackUint32 msg off of (x, off, err) \<Rightarrow> let g = g\<lparr>sig_Inception := x\<rparr>
        in if err \<noteq> None \<or> off = length msg then (RRSIG_rd g, off, err)
      else case unpackUint16 msg off of (x, off, err) \<Rightarrow> let g = g\<lparr>sig_KeyTag := x\<rparr>
        in if err \<noteq> None \<or> off = length msg then (RRSIG_rd g, off, err)
      else case UnpackDomainName msg off of (x, off, err) \<Rightarrow> let g = g\<lparr>sig_SignerName := x\<rparr>
        in if err \<noteq> None \<or> off = length msg then (RRSIG_rd g, off, err)
      else case unpackStringBase64 msg off (off0 + unat n) of (x, off, err) \<Rightarrow> (RRSIG_rd (g\<lparr>sig_Signature := x\<rparr>), off, err))"

definition unpackNSEC :: unpacker where
  "unpackNSEC n msg off =
     (if n = 0 then (NSEC_rd [] [], off, None)
      else case UnpackDomainName msg off of (next_domain, off, err) \<Rightarrow>
        if err \<noteq> None \<or> off = length msg then (NSEC_rd next_domain [], off, err)
      else case unpackDataNsec msg off of (types, off, err) \<Rightarrow> (NSEC_rd next_domain types, off, err))"

text \<open>The salt and the hash have their lengths before them, which are not kept; no test for the end follows the salt or the hash.\<close>

definition unpackNSEC3 :: unpacker where
  "unpackNSEC3 n msg off =
     (let r = \<lparr>n3_Hash = 0, n3_Flags = 0, n3_Iterations = 0, n3_Salt = [], n3_NextDomain = [], n3_TypeBitMap = []\<rparr>
      in if n = 0 then (NSEC3_rd r, off, None)
      else case unpackUint8 msg off of (x, off, err) \<Rightarrow> let r = r\<lparr>n3_Hash := x\<rparr>
        in if err \<noteq> None \<or> off = length msg then (NSEC3_rd r, off, err)
      else case unpackUint8 msg off of (x, off, err) \<Rightarrow> let r = r\<lparr>n3_Flags := x\<rparr>
        in if err \<noteq> None \<or> off = length msg then (NSEC3_rd r, off, err)
      else case unpackUint16 msg off of (x, off, err) \<Rightarrow> let r = r\<lparr>n3_Iterations := x\<rparr>
        in if err \<noteq> None \<or> off = length msg then (NSEC3_rd r, off, err)
      else case unpackUint8 msg off of (salt_len, off, err) \<Rightarrow>
           if err \<noteq> None \<or> off = length msg then (NSEC3_rd r, off, err)
      else case unpackStringHex msg off (off + unat salt_len) of (x, off, err) \<Rightarrow> let r = r\<lparr>n3_Salt := x\<rparr>
        in if err \<noteq> None then (NSEC3_rd r, off, err)
      else case unpackUint8 msg off of (hash_len, off, err) \<Rightarrow>
           if err \<noteq> None \<or> off = length msg then (NSEC3_rd r, off, err)
      else case unpackStringBase32 msg off (off + unat hash_len) of (x, off, err) \<Rightarrow> let r = r\<lparr>n3_NextDomain := x\<rparr>
        in if err \<noteq> None then (NSEC3_rd r, off, err)
      else case unpackDataNsec msg off of (x, off, err) \<Rightarrow> (NSEC3_rd (r\<lparr>n3_TypeBitMap := x\<rparr>), off, err))"

definition unpackOPT :: unpacker where
  "unpackOPT n msg off =
     (if n = 0 then (OPT_rd 0 [], off, None) else case unpackDataOpt msg off of (os, off, err) \<Rightarrow> (OPT_rd 0 os, off, err))"

definition unpackHINFO :: unpacker where
  "unpackHINFO n msg off =
     (if n = 0 then (HINFO_rd [] [], off, None)
      else case unpackString msg off of (cpu, off, err) \<Rightarrow>
        if err \<noteq> None \<or> off = length msg then (HINFO_rd cpu [], off, err)
      else case unpackString msg off of (os, off, err) \<Rightarrow> (HINFO_rd cpu os, off, err))"

definition unpackRFC3597 :: unpacker where
  "unpackRFC3597 n msg off =
     (if n = 0 then (Other_rd [], off, None)
      else case unpackStringHex msg off (off + unat n) of (x, off, err) \<Rightarrow> (Other_rd x, off, err))"

text \<open>The table; the functions of the types the program does not look into are those of \<open>U\<close>.\<close>

type_synonym other_fn = "u16 \<Rightarrow> u8 list \<Rightarrow> nat \<Rightarrow> string \<times> nat \<times> string option"
type_synonym other_table = "u16 \<Rightarrow> other_fn option"

definition other_unpacker :: "other_fn \<Rightarrow> unpacker" where
  "other_unpacker fn n msg off = (case fn n msg off of (x, off, err) \<Rightarrow> (Other_rd x, off, map_option Err err))"

definition typeToUnpack :: "other_table \<Rightarrow> u16 \<Rightarrow> unpacker option" where
  "typeToUnpack U t =
     (if t = TypeA then Some unpackA else if t = TypeNS then Some unpackNS else if t = TypeCNAME then Some unpackCNAME
      else if t = TypeHINFO then Some unpackHINFO else if t = TypeAAAA then Some unpackAAAA else if t = TypeOPT then Some unpackOPT
      else if t = TypeDS then Some unpackDS else if t = TypeRRSIG then Some unpackRRSIG else if t = TypeNSEC then Some unpackNSEC
      else if t = TypeDNSKEY then Some unpackDNSKEY else if t = TypeNSEC3 then Some unpackNSEC3
      else map_option other_unpacker (U t))"

section \<open>Facts\<close>

text \<open>Each function makes data of the type it stands for.\<close>

lemma unpackers_type:
  "rdata_types (fst (unpackA n msg off)) = Some TypeA"
  "rdata_types (fst (unpackAAAA n msg off)) = Some TypeAAAA"
  "rdata_types (fst (unpackNS n msg off)) = Some TypeNS"
  "rdata_types (fst (unpackCNAME n msg off)) = Some TypeCNAME"
  "rdata_types (fst (unpackDS n msg off)) = Some TypeDS"
  "rdata_types (fst (unpackDNSKEY n msg off)) = Some TypeDNSKEY"
  "rdata_types (fst (unpackRRSIG n msg off)) = Some TypeRRSIG"
  "rdata_types (fst (unpackNSEC n msg off)) = Some TypeNSEC"
  "rdata_types (fst (unpackNSEC3 n msg off)) = Some TypeNSEC3"
  "rdata_types (fst (unpackOPT n msg off)) = Some TypeOPT"
  "rdata_types (fst (unpackHINFO n msg off)) = Some TypeHINFO"
  "rdata_types (fst (unpackRFC3597 n msg off)) = None"
  "rdata_types (fst (other_unpacker fn n msg off)) = None"
  by (simp_all add: unpackA_def unpackAAAA_def unpackNS_def unpackCNAME_def unpackDS_def unpackDNSKEY_def unpackRRSIG_def
      unpackNSEC_def unpackNSEC3_def unpackOPT_def unpackHINFO_def unpackRFC3597_def other_unpacker_def Let_def split: prod.split)

end
