(* ===== verification/Wire.thy ===== *)
theory Wire
  imports Wire_Rdata
begin

text \<open>
  Unpacking messages (the vendored \<^verbatim>\<open>miekg/dns\<close>, \<^verbatim>\<open>msg.go\<close>, \<^verbatim>\<open>msg_helpers.go\<close>) and what its client makes of
  a reply (\<^verbatim>\<open>client.go\<close>): the message header, questions, record headers, sections, \<open>Unpack\<close>, \<open>ReadMsg\<close> and
  \<open>Client_exchange\<close>. \<open>U\<close> is the part of the table of record types that is not modelled.
\<close>

section \<open>The message header and the questions\<close>

record dns_header =
  dh_Id :: u16
  dh_Bits :: u16
  dh_Qdcount :: u16
  dh_Ancount :: u16
  dh_Nscount :: u16
  dh_Arcount :: u16

text \<open>Six numbers one after the other, up to the first error.\<close>

definition unpackMsgHdr :: "u8 list \<Rightarrow> nat \<Rightarrow> dns_header unpacked" where
  "unpackMsgHdr msg off =
     (let dh = \<lparr>dh_Id = 0, dh_Bits = 0, dh_Qdcount = 0, dh_Ancount = 0, dh_Nscount = 0, dh_Arcount = 0\<rparr>
      in case unpackUint16 msg off of (x, off, err) \<Rightarrow> let dh = dh\<lparr>dh_Id := x\<rparr> in if err \<noteq> None then (dh, off, err)
      else case unpackUint16 msg off of (x, off, err) \<Rightarrow> let dh = dh\<lparr>dh_Bits := x\<rparr> in if err \<noteq> None then (dh, off, err)
      else case unpackUint16 msg off of (x, off, err) \<Rightarrow> let dh = dh\<lparr>dh_Qdcount := x\<rparr> in if err \<noteq> None then (dh, off, err)
      else case unpackUint16 msg off of (x, off, err) \<Rightarrow> let dh = dh\<lparr>dh_Ancount := x\<rparr> in if err \<noteq> None then (dh, off, err)
      else case unpackUint16 msg off of (x, off, err) \<Rightarrow> let dh = dh\<lparr>dh_Nscount := x\<rparr> in if err \<noteq> None then (dh, off, err)
      else case unpackUint16 msg off of (x, off, err) \<Rightarrow> (dh\<lparr>dh_Arcount := x\<rparr>, off, err))"

text \<open>A question may end with the message; the error of a class that is cut off is dropped, because the failed read has moved the
  offset to the end.\<close>

definition unpackQuestion :: "u8 list \<Rightarrow> nat \<Rightarrow> question unpacked" where
  "unpackQuestion msg off =
     (case UnpackDomainName msg off of (name, off, err) \<Rightarrow>
        let q = \<lparr>q_Name = name, q_Qtype = 0, q_Qclass = 0\<rparr>
        in if err \<noteq> None then (q, off, err) else if off = length msg then (q, off, None)
      else case unpackUint16 msg off of (t, off, err) \<Rightarrow>
        let q = q\<lparr>q_Qtype := t\<rparr>
        in if err \<noteq> None then (q, off, err) else if off = length msg then (q, off, None)
      else case unpackUint16 msg off of (c, off, err) \<Rightarrow>
        let q = q\<lparr>q_Qclass := c\<rparr>
        in if off = length msg then (q, off, None) else (q, off, err))"

text \<open>The loop over the questions ends early when a question takes no bytes.\<close>

fun unpack_questions :: "nat \<Rightarrow> u8 list \<Rightarrow> nat \<Rightarrow> question list \<Rightarrow> question list unpacked" where
  "unpack_questions 0 msg off qs = (qs, off, None)"
| "unpack_questions (Suc n) msg off qs =
     (case unpackQuestion msg off of (q, off1, err) \<Rightarrow>
        if err \<noteq> None then (qs, off1, err) else if off = off1 then (qs, off1, None)
        else unpack_questions n msg off1 (qs @ [q]))"

section \<open>Records\<close>

text \<open>\<^verbatim>\<open>unpackHeader\<close>: the header, its \<^verbatim>\<open>Rdlength\<close>, the offset after it and the message cut off after the record.\<close>

definition unpackHeader :: "u8 list \<Rightarrow> nat \<Rightarrow> rr_header \<times> u16 \<times> nat \<times> u8 list \<times> wire_err option" where
  "unpackHeader msg off =
     (let hdr = \<lparr>rh_Name = [], rh_Rrtype = 0, rh_Class = 0, rh_Ttl = 0\<rparr>; failed = (\<lambda>hdr err. (hdr, 0, length msg, msg, err))
      in if off = length msg then (hdr, 0, off, msg, None)
      else case UnpackDomainName msg off of (x, off, err) \<Rightarrow> let hdr = hdr\<lparr>rh_Name := x\<rparr> in if err \<noteq> None then failed hdr err
      else case unpackUint16 msg off of (x, off, err) \<Rightarrow> let hdr = hdr\<lparr>rh_Rrtype := x\<rparr> in if err \<noteq> None then failed hdr err
      else case unpackUint16 msg off of (x, off, err) \<Rightarrow> let hdr = hdr\<lparr>rh_Class := x\<rparr> in if err \<noteq> None then failed hdr err
      else case unpackUint32 msg off of (x, off, err) \<Rightarrow> let hdr = hdr\<lparr>rh_Ttl := x\<rparr> in if err \<noteq> None then failed hdr err
      else case unpackUint16 msg off of (rdlength, off, err) \<Rightarrow> if err \<noteq> None then failed hdr err
      else if off + unat rdlength > length msg then (hdr, rdlength, off, msg, Some (Err ''overflowing header size''))
      else (hdr, rdlength, off, take (off + unat rdlength) msg, None))"

text \<open>\<^verbatim>\<open>UnpackRRWithHeader\<close> and \<^verbatim>\<open>UnpackRR\<close>; no caller looks at the record of a failure.\<close>

definition UnpackRRWithHeader :: "other_table \<Rightarrow> rr_header \<Rightarrow> u16 \<Rightarrow> u8 list \<Rightarrow> nat \<Rightarrow> rr unpacked" where
  "UnpackRRWithHeader U h n msg off =
     (let rd_end = off + unat n;
          fn = (case typeToUnpack U (rh_Rrtype h) of None \<Rightarrow> unpackRFC3597 | Some fn \<Rightarrow> fn)
      in case fn n msg off of (rd, off1, err) \<Rightarrow>
           if off1 \<noteq> rd_end then (RR h rd, rd_end, Some (Err ''bad rdlength'')) else (RR h rd, off1, err))"

definition UnpackRR :: "other_table \<Rightarrow> u8 list \<Rightarrow> nat \<Rightarrow> rr unpacked" where
  "UnpackRR U msg off =
     (case unpackHeader msg off of (h, n, off1, msg1, err) \<Rightarrow>
        if err \<noteq> None then (RR h (Other_rd []), length msg1, err) else UnpackRRWithHeader U h n msg1 off1)"

fun rrslice_loop :: "other_table \<Rightarrow> nat \<Rightarrow> u8 list \<Rightarrow> nat \<Rightarrow> rr list \<Rightarrow> rr list unpacked" where
  "rrslice_loop U 0 msg off dst = (dst, off, None)"
| "rrslice_loop U (Suc l) msg off dst =
     (case UnpackRR U msg off of (r, off1, err) \<Rightarrow>
        if err \<noteq> None then ([], length msg, err) else if off = off1 then (dst, off1, None)
        else rrslice_loop U l msg off1 (dst @ [r]))"

definition unpackRRslice :: "other_table \<Rightarrow> nat \<Rightarrow> u8 list \<Rightarrow> nat \<Rightarrow> rr list unpacked" where
  "unpackRRslice U l msg off = rrslice_loop U l msg off []"

section \<open>Messages\<close>

definition unpack_flags :: "dns_header \<Rightarrow> msg" where
  "unpack_flags dh =
     msg_zero\<lparr>m_Id := dh_Id dh, m_Response := bit (dh_Bits dh) 15, m_Opcode := uint (drop_bit 11 (dh_Bits dh) AND 0xF),
       m_Authoritative := bit (dh_Bits dh) 10, m_Truncated := bit (dh_Bits dh) 9, m_RecursionDesired := bit (dh_Bits dh) 8,
       m_RecursionAvailable := bit (dh_Bits dh) 7, m_Zero := bit (dh_Bits dh) 6, m_AuthenticatedData := bit (dh_Bits dh) 5,
       m_CheckingDisabled := bit (dh_Bits dh) 4, m_Rcode := uint (dh_Bits dh AND 0xF)\<rparr>"

text \<open>\<^verbatim>\<open>Unpack\<close> into a new message, which is also the result of a failure.\<close>

definition Unpack :: "other_table \<Rightarrow> u8 list \<Rightarrow> msg \<times> wire_err option" where
  "Unpack U msg =
     (case unpackMsgHdr msg 0 of (dh, off, err) \<Rightarrow>
        if err \<noteq> None then (msg_zero, err)
        else let m = unpack_flags dh
             in if off = length msg then (m, None)
                else case unpack_questions (unat (dh_Qdcount dh)) msg off [] of (qs, off, err) \<Rightarrow>
                  let m = m\<lparr>m_Question := qs\<rparr>
                  in if err \<noteq> None then (m, err)
                     else case unpackRRslice U (unat (dh_Ancount dh)) msg off of (an, off, err) \<Rightarrow>
                       case (if err = None then unpackRRslice U (unat (dh_Nscount dh)) msg off else ([], off, err)) of (ns, off, err) \<Rightarrow>
                       case (if err = None then unpackRRslice U (unat (dh_Arcount dh)) msg off else ([], off, err)) of (ex, off, err) \<Rightarrow>
                         (m\<lparr>m_Answer := an, m_Ns := ns, m_Extra := ex\<rparr>,
                          if off \<noteq> length msg then err else if m_Truncated m then Some ErrTruncated else err))"

section \<open>The client\<close>

abbreviation (input) TypeTSIG :: u16 where "TypeTSIG \<equiv> 250"

text \<open>\<^verbatim>\<open>ReadMsg\<close>, given the bytes that were read from the connection; the program configures no TSIG secrets.\<close>

definition ReadMsg :: "other_table \<Rightarrow> u8 list \<Rightarrow> msg \<times> wire_err option" where
  "ReadMsg U p =
     (if length p < 12 then (msg_zero, Some ErrShortRead)
      else case Unpack U p of (m, err) \<Rightarrow>
        if err \<noteq> None then (m, err)
        else if m_Extra m \<noteq> [] \<and> rr_type (last (m_Extra m)) = TypeTSIG then (m, Some ErrSecret) else (m, None))"

text \<open>\<^verbatim>\<open>Client.exchange\<close> after the request was sent.\<close>

definition Client_exchange :: "other_table \<Rightarrow> msg \<Rightarrow> u8 list \<Rightarrow> msg \<times> wire_err option" where
  "Client_exchange U req p =
     (case ReadMsg U p of (r, err) \<Rightarrow> (r, if err = None \<and> m_Id r \<noteq> m_Id req then Some ErrId else err))"

fun err_text :: "wire_err \<Rightarrow> string" where
  "err_text ErrBuf = ''dns: buffer size too small''"
| "err_text ErrRdata = ''dns: bad rdata''"
| "err_text ErrLongDomain = ''dns: domain name exceeded 255 wire-format octets''"
| "err_text ErrFqdn = ''dns: domain must be fully qualified''"
| "err_text ErrTruncated = ''dns: failed to unpack truncated message''"
| "err_text ErrShortRead = ''dns: short read''"
| "err_text ErrId = ''dns: id mismatch''"
| "err_text ErrSecret = ''dns: no secrets defined''"
| "err_text (Err s) = ''dns: '' @ s"

text \<open>What the resolver's \<^verbatim>\<open>exchange\<close> makes of it: the error of a truncated message is none.\<close>

definition reply_of :: "other_table \<Rightarrow> msg \<Rightarrow> u8 list \<Rightarrow> string + msg" where
  "reply_of U req p =
     (case Client_exchange U req p of
        (r, None) \<Rightarrow> Inr r
      | (r, Some ErrTruncated) \<Rightarrow> Inr r
      | (r, Some e) \<Rightarrow> Inl (err_text e))"

end
