(* ===== verification/Wire_Facts.thy ===== *)
theory Wire_Facts
  imports Wire Resolver_Term
begin

text \<open>
  What unpacking promises the resolver: the data of every unpacked record fit its type, the names are absolute, a reply that
  the client accepts has the identifier of the request unless it is truncated. These are the assumptions \<open>env_ok\<close> and
  \<open>fq_env\<close> of the resolver's theorems about the servers' replies, here proved for replies that are bytes.
\<close>

section \<open>Unpacked records\<close>

lemma typeToUnpack_type:
  "rdata_types (fst ((case typeToUnpack U t of None \<Rightarrow> unpackRFC3597 | Some fn \<Rightarrow> fn) n msg off)) =
     (if t \<in> {TypeA, TypeAAAA, TypeNS, TypeCNAME, TypeDS, TypeDNSKEY, TypeRRSIG, TypeNSEC, TypeNSEC3, TypeOPT, TypeHINFO}
      then Some t else None)"
  by (auto simp: typeToUnpack_def unpackers_type split: option.split)

text \<open>The names inside the data of a record.\<close>

fun rdata_names :: "rdata \<Rightarrow> string list" where
  "rdata_names (NS_rd n) = [n]"
| "rdata_names (CNAME_rd n) = [n]"
| "rdata_names (RRSIG_rd s) = [sig_SignerName s]"
| "rdata_names (NSEC_rd n _) = [n]"
| "rdata_names _ = []"

definition names_ok :: "rdata \<Rightarrow> bool" where
  "names_ok rd \<longleftrightarrow> (\<forall>n \<in> set (rdata_names rd). absolute n)"

lemma UnpackDomainName_fqdn:
  assumes "UnpackDomainName msg off = (t, o', None)"
  shows "IsFqdn t" "off < o'" "o' \<le> length msg"
  using UnpackDomainName_sound [OF assms] last_name_text by blast+

lemma unpackers_names:
  "unpackNS n msg off = (rd, off1, None) \<Longrightarrow> names_ok rd"
  "unpackCNAME n msg off = (rd, off1, None) \<Longrightarrow> names_ok rd"
  "unpackNSEC n msg off = (rd, off1, None) \<Longrightarrow> names_ok rd"
  "unpackRRSIG n msg off = (rd, off1, None) \<Longrightarrow> names_ok rd"
  by (auto simp: names_ok_def unpackNS_def unpackCNAME_def unpackNSEC_def unpackRRSIG_def Let_def
      split: if_split_asm prod.split_asm dest: UnpackDomainName_fqdn)

lemma rdata_no_names:
  assumes "rdata_types rd \<notin> {Some TypeNS, Some TypeCNAME, Some TypeRRSIG, Some TypeNSEC}"
  shows "names_ok rd"
  using assms by (cases rd) (auto simp: names_ok_def)

lemma typeToUnpack_names:
  assumes "(case typeToUnpack U t of None \<Rightarrow> unpackRFC3597 | Some fn \<Rightarrow> fn) n msg off = (rd, off1, None)"
  shows "names_ok rd"
proof (cases "t \<in> {TypeNS, TypeCNAME, TypeRRSIG, TypeNSEC}")
  case True
  then show ?thesis using assms by (auto simp: typeToUnpack_def intro: unpackers_names)
next
  case False
  with typeToUnpack_type [of U t n msg off] assms show ?thesis by (intro rdata_no_names) auto
qed

lemma unpackHeader_name: "unpackHeader msg off = (h, n, off1, msg1, None) \<Longrightarrow> off \<noteq> length msg \<Longrightarrow> IsFqdn (rh_Name h)"
  by (auto simp: unpackHeader_def Let_def split: if_split_asm prod.split_asm dest: UnpackDomainName_fqdn)

text \<open>A record that took some bytes.\<close>

definition rr_read :: "rr \<Rightarrow> bool" where
  "rr_read r \<longleftrightarrow> extra_wf r \<and> IsFqdn (rr_name r) \<and> names_ok (Rdata r)"

lemma UnpackRR_read:
  assumes "UnpackRR U msg off = (r, off1, None)" "off \<noteq> off1"
  shows "rr_read r"
proof -
  obtain h n off2 msg1 err where hd: "unpackHeader msg off = (h, n, off2, msg1, err)" by (cases "unpackHeader msg off")
  with assms(1) have err: "err = None" by (auto simp: UnpackRR_def split: if_split_asm)
  have run: "UnpackRRWithHeader U h n msg1 off2 = (r, off1, None)" using assms(1) hd err by (simp add: UnpackRR_def)
  obtain rd off3 err3 where fn: "(case typeToUnpack U (rh_Rrtype h) of None \<Rightarrow> unpackRFC3597 | Some fn \<Rightarrow> fn) n msg1 off2 = (rd, off3, err3)"
    by (metis prod_cases3)
  with run have r: "r = RR h rd" "off1 = off2 + unat n" "err3 = None"
    by (auto simp: UnpackRRWithHeader_def Let_def split: if_split_asm)
  have "off \<noteq> length msg"
  proof
    assume "off = length msg"
    with hd have "off2 = off" "n = 0" by (auto simp: unpackHeader_def)
    with r(2) assms(2) show False by simp
  qed
  with hd err have "IsFqdn (rh_Name h)" by (auto intro: unpackHeader_name)
  moreover have "names_ok rd" using fn r(3) by (auto intro: typeToUnpack_names)
  moreover have "extra_wf r"
    using typeToUnpack_type [of U "rh_Rrtype h" n msg1 off2] fn r(1) by (cases rd) (auto simp: extra_wf_def rr_wf_def split: if_split_asm)
  ultimately show ?thesis by (simp add: rr_read_def r(1))
qed

lemma rrslice_read:
  "rrslice_loop U l msg off dst = (rs, off1, err) \<Longrightarrow> list_all rr_read dst \<Longrightarrow> list_all rr_read rs"
proof (induction U l msg off dst rule: rrslice_loop.induct)
  case (2 U l msg off dst)
  obtain r off2 err2 where r: "UnpackRR U msg off = (r, off2, err2)" by (metis prod_cases3)
  show ?case
  proof (cases "err2 = None \<and> off \<noteq> off2")
    case True
    with r have "list_all rr_read (dst @ [r])" using UnpackRR_read [of U msg off r off2] "2.prems"(2) by simp
    with True r 2 show ?thesis by auto
  qed (use r "2.prems" in \<open>auto split: if_split_asm\<close>)
qed simp

lemma unpackQuestion_name: "unpackQuestion msg off = (q, off1, None) \<Longrightarrow> IsFqdn (q_Name q)"
  by (auto simp: unpackQuestion_def Let_def split: if_split_asm prod.split_asm dest: UnpackDomainName_fqdn)

lemma unpack_questions_read:
  "unpack_questions n msg off qs = (qs', off1, err) \<Longrightarrow> list_all (\<lambda>q. IsFqdn (q_Name q)) qs \<Longrightarrow> list_all (\<lambda>q. IsFqdn (q_Name q)) qs'"
proof (induction n msg off qs rule: unpack_questions.induct)
  case (2 n msg off qs)
  obtain q off2 err2 where q: "unpackQuestion msg off = (q, off2, err2)" by (metis prod_cases3)
  show ?case
  proof (cases "err2 = None \<and> off \<noteq> off2")
    case True
    with q "2.prems"(2) have "list_all (\<lambda>q. IsFqdn (q_Name q)) (qs @ [q])" by (auto dest: unpackQuestion_name)
    with True q 2 show ?thesis by auto
  qed (use q "2.prems" in \<open>auto split: if_split_asm\<close>)
qed simp

definition msg_read :: "msg \<Rightarrow> bool" where
  "msg_read m \<longleftrightarrow> list_all (\<lambda>q. IsFqdn (q_Name q)) (m_Question m) \<and> list_all rr_read (m_Answer m) \<and> list_all rr_read (m_Ns m) \<and>
     list_all rr_read (m_Extra m)"

lemma unpackRRslice_read: "unpackRRslice U l msg off = (rs, off1, err) \<Longrightarrow> list_all rr_read rs"
  unfolding unpackRRslice_def by (erule rrslice_read) simp

lemma Unpack_read: "msg_read (fst (Unpack U buf))"
  by (auto simp: Unpack_def Let_def msg_read_def unpack_flags_def msg_zero_def split: prod.split if_split_asm
      dest: unpackRRslice_read unpack_questions_read)

section \<open>Truncated messages\<close>

text \<open>No function but \<open>Unpack\<close> reports a message as truncated.\<close>

definition untruncated :: "wire_err option \<Rightarrow> bool" where
  "untruncated err \<longleftrightarrow> err \<noteq> Some ErrTruncated"

lemma untruncated_simps [simp]:
  "untruncated None" "untruncated (Some (Err s))" "untruncated (Some ErrBuf)" "untruncated (Some ErrRdata)" "untruncated (Some ErrLongDomain)"
  "\<not> untruncated (Some ErrTruncated)"
  by (simp_all add: untruncated_def)

lemma name_loop_err: "name_loop msg off s off1 maxLen ptr = (t, o', err) \<Longrightarrow> untruncated err"
proof (induction msg off s off1 maxLen ptr rule: name_loop.induct)
  case (1 msg off s off1 maxLen ptr)
  then show ?case
    by (subst (asm) (3) name_loop.simps) (auto simp: Let_def name_end_def split: if_split_asm)
qed

lemma UnpackDomainName_err: "UnpackDomainName msg off = (t, o', err) \<Longrightarrow> untruncated err"
  unfolding UnpackDomainName_def by (rule name_loop_err)

lemma nsec_loop_err: "nsec_loop msg off w nsec = (x, o', err) \<Longrightarrow> untruncated err"
proof (induction msg off w nsec rule: nsec_loop.induct)
  case (1 msg off w nsec)
  then show ?case by (subst (asm) (2) nsec_loop.simps) (auto simp: Let_def split: if_split_asm)
qed

lemma option_unpack_err: "option_unpack code b = Inl err \<Longrightarrow> untruncated (Some err)"
  by (auto simp: option_unpack_def subnet_unpack_def Let_def split: if_split_asm)

lemma unpack_options_err: "unpack_options msg off edns = (x, o', err) \<Longrightarrow> untruncated err"
proof (induction msg off edns rule: unpack_options.induct)
  case (1 msg off edns)
  then show ?case
    by (subst (asm) (2) unpack_options.simps) (auto simp: Let_def split: if_split_asm sum.split_asm dest: option_unpack_err)
qed

lemma fields_err:
  "unpackUint8 msg off = (b, o', err) \<Longrightarrow> untruncated err"
  "unpackUint16 msg off = (h, o', err) \<Longrightarrow> untruncated err"
  "unpackUint32 msg off = (w, o', err) \<Longrightarrow> untruncated err"
  "unpackString msg off = (s, o', err) \<Longrightarrow> untruncated err"
  "unpackStringHex msg off e = (s, o', err) \<Longrightarrow> untruncated err"
  "unpackStringBase32 msg off e = (s, o', err) \<Longrightarrow> untruncated err"
  "unpackStringBase64 msg off e = (s, o', err) \<Longrightarrow> untruncated err"
  "unpackDataA msg off = (a, o', err) \<Longrightarrow> untruncated err"
  "unpackDataAAAA msg off = (a, o', err) \<Longrightarrow> untruncated err"
  "unpackDataNsec msg off = (t, o', err) \<Longrightarrow> untruncated err"
  "unpackDataOpt msg off = (e', o', err) \<Longrightarrow> untruncated err"
  by (auto simp: unpackUint8_def unpackUint16_def unpackUint32_def unpackString_def unpackStringHex_def unpackStringBase32_def
      unpackStringBase64_def unpackDataA_def unpackDataAAAA_def unpackDataNsec_def unpackDataOpt_def Let_def
      split: if_split_asm dest: nsec_loop_err unpack_options_err)

lemmas unpack_errs = fields_err UnpackDomainName_err

lemma unpackers_err:
  "unpackA n msg off = (rd, o', err) \<Longrightarrow> untruncated err"
  "unpackAAAA n msg off = (rd, o', err) \<Longrightarrow> untruncated err"
  "unpackNS n msg off = (rd, o', err) \<Longrightarrow> untruncated err"
  "unpackCNAME n msg off = (rd, o', err) \<Longrightarrow> untruncated err"
  "unpackDS n msg off = (rd, o', err) \<Longrightarrow> untruncated err"
  "unpackDNSKEY n msg off = (rd, o', err) \<Longrightarrow> untruncated err"
  "unpackRRSIG n msg off = (rd, o', err) \<Longrightarrow> untruncated err"
  "unpackNSEC n msg off = (rd, o', err) \<Longrightarrow> untruncated err"
  "unpackNSEC3 n msg off = (rd, o', err) \<Longrightarrow> untruncated err"
  "unpackOPT n msg off = (rd, o', err) \<Longrightarrow> untruncated err"
  "unpackHINFO n msg off = (rd, o', err) \<Longrightarrow> untruncated err"
  "unpackRFC3597 n msg off = (rd, o', err) \<Longrightarrow> untruncated err"
  "other_unpacker fn n msg off = (rd, o', err) \<Longrightarrow> untruncated err"
  by (auto simp: unpackA_def unpackAAAA_def unpackNS_def unpackCNAME_def unpackDS_def unpackDNSKEY_def unpackRRSIG_def
      unpackNSEC_def unpackNSEC3_def unpackOPT_def unpackHINFO_def unpackRFC3597_def other_unpacker_def Let_def untruncated_def
      split: if_split_asm prod.split_asm option.split_asm dest: unpack_errs [unfolded untruncated_def])

lemma UnpackRR_err: "UnpackRR U msg off = (r, o', err) \<Longrightarrow> untruncated err"
  by (auto simp: UnpackRR_def UnpackRRWithHeader_def unpackHeader_def typeToUnpack_def Let_def
      split: if_split_asm prod.split_asm option.split_asm dest: unpack_errs unpackers_err)

lemma sections_err:
  "rrslice_loop U l msg off dst = (rs, o', err) \<Longrightarrow> untruncated err"
  "unpack_questions n msg off qs = (qs', o', err) \<Longrightarrow> untruncated err"
  "unpackMsgHdr msg off = (dh, o', err) \<Longrightarrow> untruncated err"
proof -
  show "rrslice_loop U l msg off dst = (rs, o', err) \<Longrightarrow> untruncated err"
    by (induction U l msg off dst rule: rrslice_loop.induct) (auto split: if_split_asm prod.split_asm dest: UnpackRR_err)
  have "unpackQuestion msg off = (q, o', err) \<Longrightarrow> untruncated err" for msg off q o' err
    by (auto simp: unpackQuestion_def Let_def split: if_split_asm prod.split_asm dest: unpack_errs)
  then show "unpack_questions n msg off qs = (qs', o', err) \<Longrightarrow> untruncated err"
    by (induction n msg off qs rule: unpack_questions.induct) (auto split: if_split_asm prod.split_asm)
  show "unpackMsgHdr msg off = (dh, o', err) \<Longrightarrow> untruncated err"
    by (auto simp: unpackMsgHdr_def Let_def split: if_split_asm prod.split_asm dest: unpack_errs)
qed

lemma Unpack_truncated:
  assumes "Unpack U buf = (m, Some ErrTruncated)"
  shows "m_Truncated m"
proof (rule ccontr)
  assume "\<not> m_Truncated m"
  with assms have "\<not> untruncated (Some ErrTruncated) \<longrightarrow> False"
    by (auto simp: Unpack_def Let_def unpackRRslice_def split: if_split_asm prod.split_asm dest: sections_err)
  then show False by simp
qed

section \<open>Replies\<close>

text \<open>What the client accepts.\<close>

lemma reply_of_read:
  assumes "reply_of U req p = Inr r"
  shows "msg_read r" "m_Truncated r \<or> m_Id r = m_Id req" "12 \<le> length p"
proof -
  obtain m err where m: "Unpack U p = (m, err)" by fastforce
  have "12 \<le> length p \<and> r = m \<and> (m_Id r = m_Id req \<or> err = Some ErrTruncated)"
    using assms m
    by (auto simp: reply_of_def Client_exchange_def ReadMsg_def split: if_split_asm option.split_asm wire_err.split_asm)
  with m Unpack_read [of U p] Unpack_truncated [of U p m] show "msg_read r" "m_Truncated r \<or> m_Id r = m_Id req" "12 \<le> length p" by auto
qed

lemma msg_read_wf: "msg_read m \<Longrightarrow> msg_wf m"
  by (auto simp: msg_read_def msg_wf_def rr_read_def list_all_iff)

text \<open>Servers that send bytes: \<open>raw\<close> says what comes back for a request, an error of the network or a message.\<close>

definition wire_exchange ::
  "other_table \<Rightarrow> (nat \<Rightarrow> string \<Rightarrow> string \<Rightarrow> msg \<Rightarrow> (string + u8 list) \<times> u64) \<Rightarrow> nat \<Rightarrow> string \<Rightarrow> string \<Rightarrow> msg \<Rightarrow> (string + msg) \<times> u64" where
  "wire_exchange U raw t net host req =
     (case raw t net host req of (Inl e, rtt) \<Rightarrow> (Inl e, rtt) | (Inr p, rtt) \<Rightarrow> (reply_of U req p, rtt))"

definition keys_ok :: "crypto \<Rightarrow> rr list \<Rightarrow> bool" where
  "keys_ok cr keys \<longleftrightarrow> (\<exists>h k. RR h (DNSKEY_rd k) \<in> set keys) \<and> (\<forall>h k. RR h (DNSKEY_rd k) \<in> set keys \<longrightarrow> ToDS cr (h, k) 5 \<noteq> None)"

lemma wire_exchange_reply:
  assumes "wire_exchange U raw t net host req = (Inr resp, rtt)"
  shows "ans_ok (m_Id req) resp" "msg_read resp"
proof -
  obtain p where "reply_of U req p = Inr resp"
    using assms by (auto simp: wire_exchange_def split: prod.split_asm sum.split_asm)
  from reply_of_read [OF this] show "ans_ok (m_Id req) resp" "msg_read resp" by (auto simp: ans_ok_def intro: msg_read_wf)
qed

lemma wire_env_ok: "ev_exchange E = wire_exchange U raw \<Longrightarrow> keys_ok (ev_crypto E) (ev_rootkeys E) \<Longrightarrow> env_ok E"
  using wire_exchange_reply(1) unfolding env_ok_def keys_ok_def by force

text \<open>The other assumption of \<open>fq_env\<close>, that no reply over TCP is truncated, stays one about the servers.\<close>

lemma wire_fq_env:
  assumes "ev_exchange E = wire_exchange U raw"
    and "\<And>t host req p rtt r. raw t ''tcp'' host req = (Inr p, rtt) \<Longrightarrow> reply_of U req p = Inr r \<Longrightarrow> \<not> m_Truncated r"
  shows "fq_env E"
proof -
  have "absolute n" if "wire_exchange U raw t net host req = (Inr resp, rtt)" "RR h (NS_rd n) \<in> set (m_Ns resp)"
    for t net host req resp rtt h n
  proof -
    have "rr_read (RR h (NS_rd n))" using wire_exchange_reply(2) [OF that(1)] that(2) by (auto simp: msg_read_def list_all_iff)
    then show ?thesis by (simp add: rr_read_def names_ok_def)
  qed
  moreover have "\<not> m_Truncated resp" if "wire_exchange U raw t ''tcp'' host req = (Inr resp, rtt)" for t host req resp rtt
    using that assms(2) by (auto simp: wire_exchange_def split: prod.split_asm sum.split_asm)
  ultimately show ?thesis unfolding fq_env_def assms(1) by blast
qed

section \<open>Properties\<close>

text \<open>C9. Unpacking makes well-formed messages of any bytes: whatever a peer sends, compressed or cut off anywhere, and also when
  an error is reported, the data of every record in the result fit the type in its header (OPT included), the names of questions and
  owners are absolute, and the names inside NS, CNAME, RRSIG and NSEC records are absolute or empty (they are empty
  when the data of the record end before the name).\<close>

theorem Unpack_wf:
  "case Unpack U buf of (m, err) \<Rightarrow>
     msg_wf m \<and> (\<forall>q \<in> set (m_Question m). IsFqdn (q_Name q)) \<and>
     (\<forall>r \<in> set (m_Answer m) \<union> set (m_Ns m) \<union> set (m_Extra m).
        extra_wf r \<and> IsFqdn (rr_name r) \<and> (\<forall>n \<in> set (rdata_names (Rdata r)). n = [] \<or> IsFqdn n))"
  using Unpack_read [of U buf] msg_read_wf [of "fst (Unpack U buf)"]
  by (auto simp: msg_read_def rr_read_def names_ok_def list_all_iff split: prod.split)

text \<open>A reply to a question for the addresses of \<^verbatim>\<open>x.\<close>, with the owner of its answer compressed.\<close>

definition demo_tail :: "u8 list" where
  "demo_tail = [0x80, 0, 0, 1, 0, 1, 0, 0, 0, 0, 1, 0x78, 0, 0, 1, 0, 1, 0xC0, 12, 0, 1, 0, 1, 0, 0, 0, 60, 0, 4, 192, 0, 2, 1]"

text \<open>Servers that answer every request in the same way.\<close>

definition wire_env :: "string + u8 list \<Rightarrow> renv" where
  "wire_env answer = (demo_env (demo_reply []))\<lparr>ev_exchange := wire_exchange (\<lambda>_. None) (\<lambda>t net host req. (answer, 1))\<rparr>"

theorem Unpack_wf_witness:
  "\<exists>m. Unpack (\<lambda>_. None) ([0, 7] @ demo_tail) = (m, None) \<and> msg_wf m \<and> m_Id m = 7 \<and> m_Answer m = [demo_a]"
proof -
  have run: "Unpack (\<lambda>_. None) ([0, 7] @ demo_tail) = (demo_reply [demo_a] (demo_req TypeA True), None)" by code_simp
  with Unpack_wf [of "\<lambda>_. None" "[0, 7] @ demo_tail"] show ?thesis
    by (simp add: demo_reply_def demo_req_def)
qed

lemma unpackMsgHdr_length: "unpackMsgHdr msg off = (dh, o', None) \<Longrightarrow> o' = off + 12 \<and> off + 12 \<le> length msg"
  by (auto simp: unpackMsgHdr_def unpackUint16_def Let_def split: if_split_asm)

lemma Unpack_length: "Unpack U p = (m, err) \<Longrightarrow> err = None \<or> err = Some ErrTruncated \<Longrightarrow> 12 \<le> length p"
  by (cases "unpackMsgHdr p 0")
    (auto simp: Unpack_def untruncated_def split: if_split_asm dest: sections_err(3) dest!: unpackMsgHdr_length)

text \<open>C37. The identifier of a truncated reply is not checked: when the servers send a message with the TC flag and the code for
  success that unpacks to its end, or is cut off after its questions, the library reports it as truncated and does not compare the
  identifiers, and Resolve passes it on with the identifier and the answer it came with, checking enabled or not.\<close>

theorem Resolve_relays_foreign_id:
  assumes "ev_exchange E = wire_exchange U raw" "\<And>t host. raw t Net host req = (Inr p, rtt)"
    and "Unpack U p = (resp, Some ErrTruncated)" "m_Rcode resp = RcodeSuccess" "m_Question req \<noteq> []" "servers_ne a s"
  shows "\<exists>m s'. op_Resolve (resolver E (Suc n)) Net req a False depth level nsl ds extra s = Done (Inr m, req) s' \<and>
    m_Id m = m_Id resp \<and> m_Answer m = m_Answer resp"
proof -
  obtain q qs where q: "m_Question req = q # qs" using assms(5) by (cases "m_Question req") auto
  have "12 \<le> length p" by (rule Unpack_length [OF assms(3)]) simp
  then have "reply_of U req p = Inr resp" using assms(3) by (simp add: reply_of_def Client_exchange_def ReadMsg_def)
  then have "ev_exchange E t Net host req = (Inr resp, rtt)" for t host using assms(1,2) by (simp add: wire_exchange_def)
  then obtain s1 where "lookup E Net req a s = Done (Inr resp, req) s1"
    using lookup_first [of E Net req "\<lambda>r. r = resp" a s] assms(4,6) by auto
  with Unpack_truncated [OF assms(3)] show ?thesis
    by (simp add: Resolve_respond [OF q] start_servers_def respond_def rbind_def rret_def)
qed

theorem Resolve_relays_foreign_id_witness:
  "\<exists>m s'. op_Resolve (resolver (wire_env (Inr ([0, 9, 0x82] @ tl demo_tail))) 1) ''udp'' (demo_req TypeA False) rootservers False 5 0 False [] False
     demo_state = Done (Inr m, demo_req TypeA False) s' \<and> m_Id (demo_req TypeA False) = 7 \<and> m_Id m = 9 \<and> m_Answer m = [demo_a]"
proof -
  let ?p = "[0, 9, 0x82] @ tl demo_tail" and ?resp = "(demo_reply [demo_a] msg_zero)\<lparr>m_Id := 9, m_Truncated := True\<rparr>"
  have "Unpack (\<lambda>_. None) ?p = (?resp, Some ErrTruncated)" by code_simp
  moreover have "ev_exchange (wire_env (Inr ?p)) = wire_exchange (\<lambda>_. None) (\<lambda>_ _ _ _. (Inr ?p, 1))" by (simp add: wire_env_def)
  moreover have "m_Rcode ?resp = RcodeSuccess" "m_Answer ?resp = [demo_a]" by (simp_all add: demo_reply_def msg_zero_def)
  moreover have "m_Question (demo_req TypeA False) \<noteq> []" "m_Id (demo_req TypeA False) = 7" by (simp_all add: demo_req_def)
  ultimately show ?thesis
    using Resolve_relays_foreign_id [of "wire_env (Inr ?p)" "\<lambda>_. None" "\<lambda>_ _ _ _. (Inr ?p, 1)" "''udp''" "demo_req TypeA False" ?p 1 ?resp
        rootservers demo_state 0 5 0 False "[]" False] ref_ok_ne [OF demo_state_inv] by simp
qed




end
