(* ===== verification/Wire_Server.thy ===== *)
theory Wire_Server
  imports Wire_Facts Startup_Facts Doh_Facts
begin

text \<open>
  The program between bytes: what the DNS listeners of the vendored library (\<^verbatim>\<open>server.go\<close>) do with a packet, and DNS over
  HTTPS with the unpacking of \<open>Wire\<close>. The theorems join the parts: the started program serves any packets, whatever the
  clients and the servers send.
\<close>

section \<open>Packets\<close>

abbreviation (input) headerSize :: nat where "headerSize \<equiv> 12"

definition SetRcodeFormatError :: "msg \<Rightarrow> msg \<Rightarrow> msg" where
  "SetRcodeFormatError d request =
     d\<lparr>m_Rcode := RcodeFormatError, m_Opcode := 0, m_Response := True, m_Authoritative := False, m_Id := m_Id request\<rparr>"

text \<open>\<^verbatim>\<open>serveDNS\<close>, for a server that is not \<^verbatim>\<open>Unsafe\<close> and has no TSIG secrets, with the address of the client; the result is the
  reply, if there is one.\<close>

definition serveDNS :: "other_table \<Rightarrow> dns_handler mux \<Rightarrow> string \<Rightarrow> u8 list \<Rightarrow> msg option rm" where
  "serveDNS U z addr p =
     (case Unpack U p of (req, err) \<Rightarrow>
        if err \<noteq> None then rret (Some (SetRcodeFormatError msg_zero req))
        else if m_Response req then rret None
        else ServeDNS z (Some addr) req)"

text \<open>A UDP listener drops packets that are shorter than a header.\<close>

definition serve_packet :: "other_table \<Rightarrow> dns_handler dns_server \<Rightarrow> string \<Rightarrow> u8 list \<Rightarrow> msg option rm" where
  "serve_packet U d addr p =
     (if ds_Net d = ''udp'' \<and> length p < headerSize then rret None else serveDNS U (ds_Handler d) addr p)"

text \<open>What happens to the started program: a packet arrives at a listener, or the hour of the resolver's ticker is over.\<close>

datatype event = Packet "dns_handler dns_server" string "u8 list" | Hour

fun run_program :: "other_table \<Rightarrow> renv \<Rightarrow> resolver_ops \<Rightarrow> event list \<Rightarrow> msg option list rm" where
  "run_program U E R [] = rret []"
| "run_program U E R (Packet d addr p # es) =
     rbind (serve_packet U d addr p) (\<lambda>r. rbind (run_program U E R es) (\<lambda>rs. rret (r # rs)))"
| "run_program U E R (Hour # es) =
     rbind (checkPriming E R) (\<lambda>_. rbind (run_program U E R es) (\<lambda>rs. rret (None # rs)))"

section \<open>Replies\<close>

text \<open>A packet asks when it is a complete request with a question. A reply is well formed and has the identifier of its packet
  unless it is truncated; a packet that asks is answered exactly when its client is on the access list.\<close>

definition asks :: "other_table \<Rightarrow> u8 list \<Rightarrow> bool" where
  "asks U p \<longleftrightarrow> (case Unpack U p of (req, err) \<Rightarrow> err = None \<and> \<not> m_Response req \<and> m_Question req \<noteq> [])"

definition reply_fits :: "other_table \<Rightarrow> (string \<Rightarrow> bool) \<Rightarrow> string \<Rightarrow> u8 list \<Rightarrow> msg option \<Rightarrow> bool" where
  "reply_fits U allowed addr p r \<longleftrightarrow>
     (\<forall>m. r = Some m \<longrightarrow> msg_wf m \<and> (m_Truncated m \<or> m_Id m = m_Id (fst (Unpack U p)))) \<and>
     (asks U p \<longrightarrow> (r \<noteq> None \<longleftrightarrow> allowed (fst (SplitHostPort addr))))"

fun event_fits :: "other_table \<Rightarrow> (string \<Rightarrow> bool) \<Rightarrow> event \<Rightarrow> msg option \<Rightarrow> bool" where
  "event_fits U allowed (Packet d addr p) r = reply_fits U allowed addr p r"
| "event_fits U allowed Hour r = (r = None)"

fun event_at :: "dns_handler listener list \<Rightarrow> event \<Rightarrow> bool" where
  "event_at ls (Packet d addr p) = (Dns_listener d \<in> set ls)"
| "event_at ls Hour = True"

lemma failures_wf [simp]:
  "msg_wf (SetRcodeFormatError msg_zero req)" "m_Id (SetRcodeFormatError msg_zero req) = m_Id req"
  "msg_wf (SetRcode msg_zero req rc)" "m_Id (SetRcode msg_zero req rc) = m_Id req"
  by (auto simp: SetRcodeFormatError_def SetRcode_def SetReply_def msg_wf_def msg_zero_def Let_def split: list.split)

lemma serve_packet_fits:
  assumes "env_ok E" "parser_typed C"
    and "Server_Run load (handle E C (resolver E n) ''tcp'') (handle E C (resolver E n) ''udp'') srv = Ret (Inr ls)" "Dns_listener d \<in> set ls"
  shows "hvld N (serve_packet U d addr p) (reply_fits U (hc_AccessList C) addr p)"
proof -
  obtain req err where u: "Unpack U p = (req, err)" by fastforce
  have short: "err \<noteq> None" if "length p < headerSize" using Unpack_length [OF u] that by fastforce
  show ?thesis
  proof (cases "asks U p")
    case True
    then have req: "err = None" "\<not> m_Response req" "m_Question req \<noteq> []" using u by (auto simp: asks_def)
    then have "req_ok req" using Unpack_read [of U p] u msg_read_wf by (simp add: req_ok_def)
    note served = handle_served [OF assms(1,2) this, of N n "if ds_Net d = ''udp'' then ''udp'' else ''tcp''" "Some addr"]
    have "ServeDNS (ds_Handler d) (Some addr) req = handle E C (resolver E n) (if ds_Net d = ''udp'' then ''udp'' else ''tcp'') (Some addr) req"
      by (rule ext) (use ServeDNS_listener [OF assms(3,4), of "Some addr" req] req(3) in simp)
    then have "hvld N (ServeDNS (ds_Handler d) (Some addr) req) (reply_fits U (hc_AccessList C) addr p)"
      by (simp only:) (rule hvld_weaken [OF served], simp add: reply_fits_def remoteAddr_def u)
    then show ?thesis using u req short by (auto simp: serve_packet_def serveDNS_def)
  next
    case False
    then show ?thesis
      using ServeDNS_listener [OF assms(3,4), of "Some addr" req] u
      by (auto simp: serve_packet_def serveDNS_def reply_fits_def asks_def hvld_def rret_def)
  qed
qed

lemma run_program_fits:
  assumes "env_ok E" "parser_typed C"
    and "Server_Run load (handle E C (resolver E n) ''tcp'') (handle E C (resolver E n) ''udp'') srv = Ret (Inr ls)"
  shows "list_all (event_at ls) es \<Longrightarrow>
    hvld N (run_program U E (resolver E n) es) (list_all2 (event_fits U (hc_AccessList C)) es)"
proof (induction es)
  case (Cons x es)
  then have es: "list_all (event_at ls) es" by simp
  note rest = hvld_bind [OF Cons.IH [OF es]]
  show ?case
  proof (cases x)
    case (Packet d addr p)
    with Cons.prems have d: "Dns_listener d \<in> set ls" by simp
    show ?thesis unfolding Packet run_program.simps
      by (rule hvld_bind [OF serve_packet_fits [OF assms d]], rule rest, rule hvld_ret) simp
  next
    case Hour
    show ?thesis unfolding Hour run_program.simps
      by (rule hvld_vbind [OF rc.checkPriming_ok [OF assms(1)]], rule rest, rule hvld_ret) simp
  qed
qed simp

section \<open>The started program\<close>

lemma start_state:
  assumes "start L pg n blocklist = Done (Inr sd) (Some s)" "findLocalIPAddresses (bl_ifaces L) = Some ips"
  obtains e where "NewHandler L pg ips n = Done e s"
    "fill_access_list (cf_AccessList (pg_Config pg)) NewPCTrieRanger = Some (Ret (Inr (sd_ranger sd)))"
    "Server_Run (bl_LoadX509KeyPair L) (proto_handler L pg ips n (sd_ranger sd) blocklist ''tcp'')
       (proto_handler L pg ips n (sd_ranger sd) blocklist ''udp'') (new_server (pg_Config pg)) = Ret (Inr (sd_listeners sd))"
  using assms(1) unfolding start_def assms(2) option.case
  by (simp split: option.split_asm go.split_asm sum.split_asm outcome.split_asm) (rule that; auto)

lemma sdns_main_start:
  assumes "sdns_main L path pg0 fs n blocklist = (Done (Inr (pg, sd)) s, fs')"
  shows "start L pg n blocklist = Done (Inr sd) s" "1024 \<le> cf_CacheSize (pg_Config pg)"
proof -
  obtain lvl where cs: "configSetup L False path pg0 fs = (Inr (lvl, pg), fs')" and st: "start L pg n blocklist = Done (Inr sd) s"
    using assms by (auto simp: sdns_main_def split: prod.split_asm sum.split_asm outcome.split_asm)
  show "start L pg n blocklist = Done (Inr sd) s" by (rule st)
  show "1024 \<le> cf_CacheSize (pg_Config pg)"
    using cs by (auto simp: configSetup_def clamp_config_def Let_def split: prod.split_asm sum.split_asm option.split_asm)
qed

text \<open>C3. The program serves whatever happens: once \<^verbatim>\<open>main\<close> has read the configuration and started the listeners, with root servers,
  usable root keys and a regular access list, any sequence of packets to the UDP, TCP and TLS listeners and of
  ticks of the hour, with any bytes from the clients and any bytes from the servers, leaves the resolver with its
  invariant, for a cache of the configured size, which is at least 1024. Every reply is a well-formed message that has
  the identifier of its packet unless it is truncated, and a packet with a question is answered exactly when its client is
  in one of the configured networks. Of the parser of record texts only that the data of a record fit its type is used. A
  panic can only be one of six: the index error of a server's reply without a question, the nil error of a failed NSEC
  check, a root DNSKEY response that does not verify (three), or the nil record of \<^verbatim>\<open>query\<close> when the parser does not
  accept the text with the question's name.\<close>

theorem program_serves:
  assumes "sdns_main L path pg0 fs n blocklist = (Done (Inr (pg, sd)) (Some s), fs')" "findLocalIPAddresses (bl_ifaces L) = Some ips"
    and "ev_exchange (bl_env L) = wire_exchange U raw" "keys_ok (ev_crypto (bl_env L)) (pg_rootkeys pg)"
    and "pg_rootservers pg \<noteq> []" "access_regular (pg_Config pg)" "parser_typed (boot_conf L pg (sd_ranger sd) blocklist)"
    and "list_all (event_at (sd_listeners sd)) es"
  shows "1024 \<le> cf_CacheSize (pg_Config pg) \<and>
    (case run_program U (boot_env L pg ips) (resolver (boot_env L pg ips) n) es s of
      Done rs s' \<Rightarrow> rinv (shard_part (cf_CacheSize (pg_Config pg))) s' \<and> list_all2 (event_fits U (in_access_list (pg_Config pg))) es rs
    | Crash w \<Rightarrow> w \<in> {''index out of range'', nil_err, ''root zone keys empty'', ''root zone DS not verified'', ''root zone keys not verified'', nil_deref}
    | Stuck \<Rightarrow> True)"
proof -
  obtain e where run: "NewHandler L pg ips n = Done e s"
    "fill_access_list (cf_AccessList (pg_Config pg)) NewPCTrieRanger = Some (Ret (Inr (sd_ranger sd)))"
    "Server_Run (bl_LoadX509KeyPair L) (proto_handler L pg ips n (sd_ranger sd) blocklist ''tcp'')
       (proto_handler L pg ips n (sd_ranger sd) blocklist ''udp'') (new_server (pg_Config pg)) = Ret (Inr (sd_listeners sd))"
    by (rule start_state [OF sdns_main_start(1) [OF assms(1)] assms(2)])
  have E: "env_ok (boot_env L pg ips)" by (rule wire_env_ok [of _ U raw]) (use assms(3,4) in \<open>simp_all add: boot_env_def\<close>)
  have inv: "rinv (shard_part (cf_CacheSize (pg_Config pg))) s" using NewHandler_ok [OF E assms(5), of n] run(1) by simp
  have "hc_AccessList (boot_conf L pg (sd_ranger sd) blocklist) = in_access_list (pg_Config pg)"
    using access_list_filled [OF assms(6)] run(2) by (auto simp: boot_conf_def)
  with hvldD [OF run_program_fits [OF E assms(7) run(3) [unfolded proto_handler_def] assms(8), where U = U] inv]
    sdns_main_start(2) [OF assms(1)] show ?thesis
    by (auto simp: crash_ok_def split: outcome.split)
qed

section \<open>DNS over HTTPS\<close>

definition doh_Unpack :: "other_table \<Rightarrow> u8 list \<Rightarrow> msg option" where
  "doh_Unpack U buf = (case Unpack U buf of (m, None) \<Rightarrow> Some m | (m, Some _) \<Rightarrow> None)"

text \<open>What the theorem on HTTP requests assumes of unpacking.\<close>

lemma doh_Unpack_wf: "doh_Unpack U buf = Some m \<Longrightarrow> msg_wf m"
  using msg_read_wf [OF Unpack_read [of U buf]] by (auto simp: doh_Unpack_def split: prod.split_asm option.split_asm)

text \<open>C40. A message of twelve bytes sent over HTTPS stops its handler: it is a header and nothing else, it unpacks without an
  error whatever the bytes are, and \<open>query\<close> reads the first question without a look at their number. The handler
  panics for every allowed client, every resolver and every state. Over UDP and TCP the multiplexer stands before
  the handler and refuses such messages.\<close>

theorem doh_header_panics:
  assumes "lb_Unpack L = doh_Unpack U" "hc_AccessList C (fst (SplitHostPort (hr_RemoteAddr r)))"
    and "hr_Method r = ''POST''" "hr_Header r ''Content-Type'' = ''application/dns-message''" "hr_Body r = Some buf" "length buf = 12"
  shows "ServeHTTP E C R L r s = Crash ''index out of range''"
proof -
  obtain dh where "unpackMsgHdr buf 0 = (dh, 12, None)"
    using assms(6) by (simp add: unpackMsgHdr_def unpackUint16_def Let_def)
  then have "lb_Unpack L buf = Some (unpack_flags dh)" using assms(1,6) by (simp add: doh_Unpack_def Unpack_def Let_def)
  moreover have "m_Question (unpack_flags dh) = []" by (simp add: unpack_flags_def msg_zero_def)
  ultimately show ?thesis
    by (intro ServeHTTP_no_question [OF assms(2)]) (use assms(3-5) in \<open>simp add: asks_nothing_def wire_bytes_def\<close>)
qed

section \<open>Witnesses\<close>

text \<open>The servers of \<open>demo_boot\<close> send bytes: the identifier of the request and \<open>demo_tail\<close>.\<close>

definition demo_packet :: "u16 \<Rightarrow> u8 list" where
  "demo_packet i = ucast (drop_bit 8 i) # ucast i # demo_tail"

lemma id_bytes: "push_bit 8 (ucast (ucast (drop_bit 8 i) :: u8)) OR ucast (ucast i :: u8) = (i :: u16)"
  by (rule bit_word_eqI) (auto simp: bit_simps)

lemma demo_unpack:
  "unpackMsgHdr (a # b # demo_tail) 0 = (\<lparr>dh_Id = push_bit 8 (ucast a) OR ucast b, dh_Bits = 0x8000, dh_Qdcount = 1, dh_Ancount = 1,
     dh_Nscount = 0, dh_Arcount = 0\<rparr>, 12, None)"
  "unpack_questions 1 (a # b # demo_tail) 12 [] = ([\<lparr>q_Name = ''x.'', q_Qtype = TypeA, q_Qclass = ClassINET\<rparr>], 19, None)"
  "unpackRRslice U 1 (a # b # demo_tail) 19 = ([demo_a], 35, None)"
  "length (a # b # demo_tail) = 35"
  by code_simp+

lemma demo_packet_reply: "reply_of U req (demo_packet (m_Id req)) = Inr (demo_reply [demo_a] req)"
proof -
  have "Unpack U (demo_packet i) = (demo_reply [demo_a] (msg_zero\<lparr>m_Id := i\<rparr>), None)" for i
    by (simp add: Unpack_def demo_packet_def demo_unpack [simplified] id_bytes unpackRRslice_def [of U 0] unpack_flags_def Let_def)
      (simp add: demo_reply_def msg_zero_def bit_simps)
  then show ?thesis
    by (simp add: reply_of_def Client_exchange_def ReadMsg_def) (simp add: demo_packet_def demo_tail_def demo_reply_def msg_zero_def)
qed

lemma demo_boot_wire: "ev_exchange (bl_env demo_boot) = wire_exchange (\<lambda>_. None) (\<lambda>t net host req. (Inr (demo_packet (m_Id req)), 1))"
  by (intro ext) (simp add: wire_exchange_def demo_packet_reply demo_boot_def demo_env_def)

lemma demo_boot_keys: "keys_ok (ev_crypto (bl_env demo_boot)) (pg_rootkeys demo_program)"
  using demo_boot_env_ok [of "[]"] by (simp add: env_ok_def keys_ok_def boot_env_def)

lemma demo_boot_conf: "parser_typed (boot_conf demo_boot pg rg blocklist)"
  by (simp add: parser_typed_def boot_conf_def demo_boot_def demo_NewRR_def rr_wf_def demo_header_def)

text \<open>The program after the setup, which raises the timeout of \<open>demo_config\<close>.\<close>

definition demo_running :: program where
  "demo_running = demo_program\<lparr>pg_Config := demo_config\<lparr>cf_Timeout := 250 * millisecond\<rparr>\<rparr>"

lemma demo_main:
  "\<exists>sd s d fs. sdns_main demo_boot ''sdns.toml'' demo_program [] 1 NewBlockCache = (Done (Inr (demo_running, sd)) (Some s), fs) \<and>
     Dns_listener d \<in> set (sd_listeners sd)"
proof -
  obtain old fs where load: "LoadConfig (bl_Config demo_boot) ''sdns.toml'' demo_config [] = (Inr (demo_config, old), fs)"
    by (simp add: LoadConfig_def generateConfig_def demo_boot_def)
  obtain lvl where lvl: "LvlFromString (cf_LogLevel demo_config) = Some lvl" by (simp add: LvlFromString_def demo_config_def)
  have "clamp_config demo_config = demo_config\<lparr>cf_Timeout := 250 * millisecond\<rparr>"
    by (simp add: clamp_config_def demo_config_def millisecond_def second_def)
  moreover have "cf_RootServers demo_config = [''192.0.2.53:53'']" "cf_Root6Servers demo_config = []" "cf_FallbackServers demo_config = []"
      "cf_RootKeys demo_config = []" by (simp_all add: demo_config_def)
  ultimately have cs: "configSetup demo_boot False ''sdns.toml'' demo_program [] = (Inr (lvl, demo_running), fs)"
    using load lvl by (simp add: configSetup_def demo_running_def demo_program_def)
  have pg: "pg_Config demo_program = demo_config" "pg_Config demo_running = demo_config\<lparr>cf_Timeout := 250 * millisecond\<rparr>"
    "pg_rootservers demo_running = pg_rootservers demo_program" "pg_root6servers demo_running = pg_root6servers demo_program"
    "pg_fallbackservers demo_running = pg_fallbackservers demo_program" "pg_rootkeys demo_running = pg_rootkeys demo_program"
    by (simp_all add: demo_running_def demo_program_def)
  then have c: "cf_AccessList (pg_Config demo_running) = cf_AccessList (pg_Config demo_program)" "cf_API (pg_Config demo_running) = cf_API (pg_Config demo_program)"
    "NewHandler demo_boot demo_running = NewHandler demo_boot demo_program" "proto_handler demo_boot demo_running = proto_handler demo_boot demo_program"
    "new_server (pg_Config demo_running) = new_server (pg_Config demo_program)"
    by (simp_all add: fun_eq_iff NewHandler_def proto_handler_def boot_env_def boot_conf_def new_server_def)
  have "start demo_boot demo_running n b = start demo_boot demo_program n b" for n b
    unfolding start_def c ..
  with cs demo_start show ?thesis by (fastforce simp: sdns_main_def)
qed

theorem program_serves_witness:
  "\<exists>sd s d m fs. sdns_main demo_boot ''sdns.toml'' demo_program [] 1 NewBlockCache = (Done (Inr (demo_running, sd)) (Some s), fs) \<and>
     Dns_listener d \<in> set (sd_listeners sd) \<and>
     run_program (\<lambda>_. None) (boot_env demo_boot demo_running []) (resolver (boot_env demo_boot demo_running []) 1)
       [Packet d ''192.0.2.1:99'' [0, 7, 1, 0, 0, 1, 0, 0, 0, 0, 0, 0, 0xFF]] s = Done [Some m] s \<and>
     rinv (shard_part 1024) s \<and> m_Rcode m = RcodeFormatError \<and> m_Id m = 7"
proof -
  let ?p = "[0, 7, 1, 0, 0, 1, 0, 0, 0, 0, 0, 0, 0xFF]"
  obtain sd s d fs where run: "sdns_main demo_boot ''sdns.toml'' demo_program [] 1 NewBlockCache = (Done (Inr (demo_running, sd)) (Some s), fs)"
    "Dns_listener d \<in> set (sd_listeners sd)"
    using demo_main by blast
  have c: "pg_rootservers demo_running \<noteq> []" "access_regular (pg_Config demo_running)" "cf_CacheSize (pg_Config demo_running) = 1024"
    "findLocalIPAddresses (bl_ifaces demo_boot) = Some []" "keys_ok (ev_crypto (bl_env demo_boot)) (pg_rootkeys demo_running)"
    using demo_access demo_boot_keys
    by (simp_all add: demo_running_def access_regular_def findLocalIPAddresses_def) (simp_all add: demo_program_def demo_config_def demo_boot_def findLocalIPAddresses_def)
  have "snd (Unpack (\<lambda>_. None) ?p) = Some ErrBuf" "m_Id (fst (Unpack (\<lambda>_. None) ?p)) = 7" by code_simp+
  then obtain req where u: "Unpack (\<lambda>_. None) ?p = (req, Some ErrBuf)" "m_Id req = 7" by (cases "Unpack (\<lambda>_. None) ?p") simp
  then have "run_program (\<lambda>_. None) E R [Packet d ''192.0.2.1:99'' ?p] s = Done [Some (SetRcodeFormatError msg_zero req)] s" for E R
    by (simp add: serve_packet_def serveDNS_def rbind_def rret_def)
  moreover have "list_all (event_at (sd_listeners sd)) [Packet d ''192.0.2.1:99'' ?p]" using run(2) by simp
  note program_serves [OF run(1) c(4) demo_boot_wire c(5,1,2) demo_boot_conf this]
  ultimately show ?thesis using run u c(3) by (force simp: SetRcodeFormatError_def)
qed

definition demo_wire_lib :: doh_lib where
  "demo_wire_lib = demo_lib\<lparr>lb_Unpack := doh_Unpack (\<lambda>_. None)\<rparr>"

theorem doh_header_panics_witness:
  "ServeHTTP (demo_env (demo_reply [])) demo_conf (resolver (demo_env (demo_reply [])) 1) demo_wire_lib (demo_post (replicate 12 0)) demo_state =
     Crash ''index out of range''"
  by (rule doh_header_panics [OF _ demo_post_allowed, where U = "\<lambda>_. None" and buf = "replicate 12 0"])
    (simp_all add: demo_post_def demo_wire_lib_def)

end
